(* ===== verification/Lyrion_Prelude.thy ===== *)
theory Lyrion_Prelude
  imports Main "HOL-Library.Word"
begin

text \<open>
  Shared vocabulary of the development: the machine types of the node, a result monad on
  sums (\<^verbatim>\<open>Result\<close> with the \<^verbatim>\<open>?\<close> operator), Rust's checked and
  saturating integer arithmetic, and the fixed-width big- and little-endian codecs that the
  database keys and the wire messages are built from.  Plain \<open>+\<close>, \<open>-\<close> and
  \<open>*\<close> on machine integers wrap, as in the release profile of \<^verbatim>\<open>Cargo.toml\<close>,
  which leaves overflow checks off.
\<close>

unbundle bit_operations_syntax

named_theorems result_simps \<open>the result monad\<close>
named_theorems codec_simps \<open>byte codecs\<close>

section \<open>Machine types\<close>

type_synonym u8 = "8 word"
type_synonym u32 = "32 word"
type_synonym u64 = "64 word"
type_synonym usize = "64 word"
type_synonym bytes = "u8 list"
type_synonym hash256 = bytes

abbreviation u32_max :: u32 where "u32_max \<equiv> - 1"

abbreviation zero_hash :: hash256 where "zero_hash \<equiv> replicate 32 0"

section \<open>Results\<close>

definition rbind :: "'e + 'a \<Rightarrow> ('a \<Rightarrow> 'e + 'b) \<Rightarrow> 'e + 'b" where
  "rbind r f = (case r of Inl e \<Rightarrow> Inl e | Inr a \<Rightarrow> f a)"

definition ensure :: "bool \<Rightarrow> 'e \<Rightarrow> 'e + unit" where
  "ensure b e = (if b then Inr () else Inl e)"

definition ok_or :: "'a option \<Rightarrow> 'e \<Rightarrow> 'e + 'a" where
  "ok_or x e = (case x of None \<Rightarrow> Inl e | Some a \<Rightarrow> Inr a)"

fun try_fold :: "('s \<Rightarrow> 'a \<Rightarrow> 'e + 's) \<Rightarrow> 's \<Rightarrow> 'a list \<Rightarrow> 'e + 's" where
  "try_fold f s [] = Inr s"
| "try_fold f s (x # xs) = rbind (f s x) (\<lambda>s'. try_fold f s' xs)"

lemma rbind_Inl [simp]: "rbind (Inl e) f = Inl e"
  by (simp add: rbind_def)

lemma rbind_Inr [simp]: "rbind (Inr a) f = f a"
  by (simp add: rbind_def)

lemma rbind_eq_Inr [result_simps]: "rbind r f = Inr b \<longleftrightarrow> (\<exists>a. r = Inr a \<and> f a = Inr b)"
  by (cases r) auto

lemma rbind_eq_Inl [result_simps]:
  "rbind r f = Inl e \<longleftrightarrow> r = Inl e \<or> (\<exists>a. r = Inr a \<and> f a = Inl e)"
  by (cases r) auto

lemma rbind_assoc: "rbind (rbind r f) g = rbind r (\<lambda>a. rbind (f a) g)"
  by (cases r) auto

lemma rbind_cong [fundef_cong]:
  "r = r' \<Longrightarrow> (\<And>a. r' = Inr a \<Longrightarrow> f a = g a) \<Longrightarrow> rbind r f = rbind r' g"
  by (cases r') auto

lemma ensure_eq_Inr [result_simps]: "ensure b e = Inr u \<longleftrightarrow> b"
  by (simp add: ensure_def)

lemma ensure_eq_Inl [result_simps]: "ensure b e = Inl e' \<longleftrightarrow> \<not> b \<and> e' = e"
  by (auto simp: ensure_def)

lemma ensure_simps [simp]: "ensure True e = Inr ()" "ensure False e = Inl e"
  by (simp_all add: ensure_def)

lemma ok_or_eq_Inr [result_simps]: "ok_or x e = Inr a \<longleftrightarrow> x = Some a"
  by (cases x) (auto simp: ok_or_def)

lemma ok_or_eq_Inl [result_simps]: "ok_or x e = Inl e' \<longleftrightarrow> x = None \<and> e' = e"
  by (cases x) (auto simp: ok_or_def)

lemma ok_or_simps [simp]: "ok_or None e = Inl e" "ok_or (Some a) e = Inr a"
  by (simp_all add: ok_or_def)

lemma try_fold_append:
  "try_fold f s (xs @ ys) = rbind (try_fold f s xs) (\<lambda>s'. try_fold f s' ys)"
  by (induction xs arbitrary: s) (auto simp: rbind_assoc)

lemma try_fold_invariant:
  assumes "try_fold f s xs = Inr s'" "I s"
    and "\<And>s x s'. x \<in> set xs \<Longrightarrow> I s \<Longrightarrow> f s x = Inr s' \<Longrightarrow> I s'"
  shows "I s'"
  using assms
proof (induction xs arbitrary: s)
  case (Cons x xs)
  then obtain t where "f s x = Inr t" "try_fold f t xs = Inr s'"
    by (auto simp: result_simps)
  with Cons show ?case by (metis list.set_intros)
qed simp

lemma try_fold_step:
  "try_fold f s xs = Inr s' \<Longrightarrow> x \<in> set xs \<Longrightarrow> \<exists>t t'. f t x = Inr t'"
  by (induction xs arbitrary: s) (auto simp: result_simps)

lemma try_fold_unit: "try_fold (\<lambda>_ x. f x) () xs = Inr u \<longleftrightarrow> (\<forall>x\<in>set xs. f x = Inr ())"
  by (induction xs) (auto simp: result_simps)

lemma try_fold_cong [fundef_cong]:
  "s = s' \<Longrightarrow> xs = ys \<Longrightarrow> (\<And>s x. x \<in> set ys \<Longrightarrow> f s x = g s x) \<Longrightarrow> try_fold f s xs = try_fold g s' ys"
  by (induction ys arbitrary: s s' xs) (auto intro!: rbind_cong)

section \<open>Stateful results\<close>

text \<open>
  A stateful operation returns the state it leaves, on every path, and its result; \<open>sbind\<close> is
  sequencing with the early return of \<^verbatim>\<open>?\<close>.
\<close>

definition sbind :: "'s \<times> ('e + 'a) \<Rightarrow> ('a \<Rightarrow> 's \<Rightarrow> 's \<times> ('e + 'b)) \<Rightarrow> 's \<times> ('e + 'b)" where
  "sbind m k = (case m of (s, Inl f) \<Rightarrow> (s, Inl f) | (s, Inr x) \<Rightarrow> k x s)"

lemma sbind_simps [simp]: "sbind (s, Inl f) k = (s, Inl f)" "sbind (s, Inr x) k = k x s"
  by (simp_all add: sbind_def)

lemma sbind_cong [fundef_cong]:
  "m = m' \<Longrightarrow> (\<And>s x. m' = (s, Inr x) \<Longrightarrow> k x s = k' x s) \<Longrightarrow> sbind m k = sbind m' k'"
  by (auto simp: sbind_def split: prod.split sum.split)

lemma sbindE:
  assumes "sbind m k = (s', r)"
  obtains f where "m = (s', Inl f)" "r = Inl f" | s x where "m = (s, Inr x)" "k x s = (s', r)"
  using assms by (auto simp: sbind_def split: prod.splits sum.splits)

section \<open>Checked and saturating arithmetic\<close>

definition checked_add :: "'a::len word \<Rightarrow> 'a word \<Rightarrow> 'a word option" where
  "checked_add a b = (if unat a + unat b < 2 ^ LENGTH('a) then Some (a + b) else None)"

definition checked_sub :: "'a::len word \<Rightarrow> 'a word \<Rightarrow> 'a word option" where
  "checked_sub a b = (if b \<le> a then Some (a - b) else None)"

definition checked_mul :: "'a::len word \<Rightarrow> 'a word \<Rightarrow> 'a word option" where
  "checked_mul a b = (if unat a * unat b < 2 ^ LENGTH('a) then Some (a * b) else None)"

definition saturating_sub :: "'a::len word \<Rightarrow> 'a word \<Rightarrow> 'a word" where
  "saturating_sub a b = (if b \<le> a then a - b else 0)"

text \<open>\<^verbatim>\<open>i64::abs\<close>, which leaves the least value as it is.\<close>

definition wrapping_abs :: "u64 \<Rightarrow> int" where
  "wrapping_abs d = sint (if sint d < 0 then - d else d)"

fun checked_fold :: "u64 \<Rightarrow> u64 list \<Rightarrow> u64 option" where
  "checked_fold a [] = Some a"
| "checked_fold a (x # xs) = (case checked_add a x of None \<Rightarrow> None | Some a' \<Rightarrow> checked_fold a' xs)"

abbreviation checked_sum :: "u64 list \<Rightarrow> u64 option" where
  "checked_sum \<equiv> checked_fold 0"

lemma unat_lt2p: "unat (a :: 'a::len word) < 2 ^ LENGTH('a)"
  by (rule unsigned_less)

lemma unat_u8_less: "unat (b :: u8) < 256"
  using unat_lt2p [of b] by simp

lemma unat_u64_less: "unat (b :: u64) < 2 ^ 64"
  using unat_lt2p [of b] by simp

lemma unat_of_nat_u64: "n < 2 ^ 64 \<Longrightarrow> unat (of_nat n :: u64) = n"
  by (simp add: unat_of_nat)

lemma unat_add_exact:
  fixes a b :: "'a::len word"
  shows "unat a + unat b < 2 ^ LENGTH('a) \<Longrightarrow> unat (a + b) = unat a + unat b"
  by (simp add: unat_word_ariths)

lemma unat_mult_exact:
  fixes a b :: "'a::len word"
  shows "unat a * unat b < 2 ^ LENGTH('a) \<Longrightarrow> unat (a * b) = unat a * unat b"
  by (simp add: unat_word_ariths)

lemma unat_sub_exact: "b \<le> a \<Longrightarrow> unat (a - b) = unat a - unat b"
  by (simp add: unat_sub)

lemma checked_add_eq_Some:
  fixes a b c :: "'a::len word"
  shows "checked_add a b = Some c \<longleftrightarrow> unat c = unat a + unat b"
proof
  assume "checked_add a b = Some c"
  then show "unat c = unat a + unat b"
    by (auto simp: checked_add_def unat_add_exact split: if_splits)
next
  assume c: "unat c = unat a + unat b"
  then have lt: "unat a + unat b < 2 ^ LENGTH('a)"
    by (metis unat_lt2p)
  then have "a + b = c"
    using c by (metis unat_add_exact word_unat_eq_iff)
  with lt show "checked_add a b = Some c"
    by (simp add: checked_add_def)
qed

lemma checked_sub_eq_Some:
  "checked_sub a b = Some c \<longleftrightarrow> b \<le> a \<and> c = a - b"
  by (auto simp: checked_sub_def)

lemma unat_saturating_sub: "unat (saturating_sub a b) = unat a - unat b"
  by (auto simp: saturating_sub_def unat_sub word_le_nat_alt)

lemma checked_fold_eq:
  "checked_fold a xs =
     (if unat a + sum_list (map unat xs) < 2 ^ 64
      then Some (of_nat (unat a + sum_list (map unat xs))) else None)"
proof (induction xs arbitrary: a)
  case Nil
  show ?case using unat_lt2p [of a] by simp
next
  case (Cons x xs)
  show ?case
  proof (cases "unat a + unat x < 2 ^ 64")
    case True
    then have "unat (a + x) = unat a + unat x"
      by (intro unat_add_exact) simp
    with True show ?thesis
      by (simp add: checked_add_def Cons add.assoc)
  qed (simp add: checked_add_def)
qed

lemma checked_sum_Some:
  "checked_sum xs = Some s \<longleftrightarrow> unat s = sum_list (map unat xs)"
proof
  assume "checked_sum xs = Some s"
  then show "unat s = sum_list (map unat xs)"
    by (auto simp: checked_fold_eq unat_of_nat split: if_splits)
next
  assume s: "unat s = sum_list (map unat xs)"
  then have "sum_list (map unat xs) < 2 ^ 64"
    using unat_lt2p [of s] by simp
  with s [symmetric] show "checked_sum xs = Some s"
    by (simp add: checked_fold_eq)
qed

lemma checked_sum_None:
  "checked_sum xs = None \<longleftrightarrow> 2 ^ 64 \<le> sum_list (map unat xs)"
  by (auto simp: checked_fold_eq not_less)

section \<open>Fixed-width byte codecs\<close>

fun be_bytes :: "nat \<Rightarrow> nat \<Rightarrow> bytes" where
  "be_bytes 0 x = []"
| "be_bytes (Suc k) x = be_bytes k (x div 256) @ [of_nat x]"

definition le_bytes :: "nat \<Rightarrow> nat \<Rightarrow> bytes" where
  "le_bytes k x = rev (be_bytes k x)"

definition nat_of_be :: "bytes \<Rightarrow> nat" where
  "nat_of_be bs = foldl (\<lambda>a b. a * 256 + unat b) 0 bs"

definition nat_of_le :: "bytes \<Rightarrow> nat" where
  "nat_of_le bs = nat_of_be (rev bs)"

lemma length_be_bytes [simp]: "length (be_bytes k x) = k"
  by (induction k arbitrary: x) auto

lemma length_le_bytes [simp]: "length (le_bytes k x) = k"
  by (simp add: le_bytes_def)

lemma nat_of_be_append: "nat_of_be (bs @ [b]) = nat_of_be bs * 256 + unat b"
  by (simp add: nat_of_be_def)

lemma nat_of_be_Nil [simp]: "nat_of_be [] = 0"
  by (simp add: nat_of_be_def)

lemma nat_of_be_bytes: "nat_of_be (be_bytes k x) = x mod 256 ^ k"
proof (induction k arbitrary: x)
  case (Suc k)
  have "x mod 256 ^ Suc k = x div 256 mod 256 ^ k * 256 + x mod 256"
    by (metis add.commute mod_mult2_eq mult.commute power_Suc)
  with Suc show ?case by (simp add: nat_of_be_append unat_of_nat)
qed simp

lemma nat_of_be_less: "nat_of_be bs < 256 ^ length bs"
proof (induction bs rule: rev_induct)
  case (snoc b bs)
  have "unat b < 256" by (rule unat_u8_less)
  with snoc show ?case by (simp add: nat_of_be_append)
qed simp

lemma be_bytes_nat_of_be: "be_bytes (length bs) (nat_of_be bs) = bs"
proof (induction bs rule: rev_induct)
  case (snoc b bs)
  have "unat b < 256" by (rule unat_u8_less)
  then have "(nat_of_be bs * 256 + unat b) div 256 = nat_of_be bs"
    by simp
  moreover have "(of_nat (nat_of_be bs * 256 + unat b) :: u8) = b"
  proof -
    have "(256 :: u8) = 0" by simp
    then show ?thesis by (simp only: of_nat_add of_nat_mult of_nat_numeral) simp
  qed
  ultimately show ?case using snoc by (simp add: nat_of_be_append)
qed simp

text \<open>
  The contract every fixed-width integer encoding meets.  The database keys are
  concatenations of such encodings and fixed-length hashes, so key equality reduces to
  equality of the encoded values.
\<close>

locale byte_codec =
  fixes enc :: "'a \<Rightarrow> bytes" and dec :: "bytes \<Rightarrow> 'a" and width :: nat
  assumes dec_enc [simp]: "dec (enc x) = x"
    and length_enc [simp]: "length (enc x) = width"
begin

lemma enc_eq_iff [simp]: "enc x = enc y \<longleftrightarrow> x = y"
  by (metis dec_enc)

lemma enc_append_iff [simp]: "enc x @ r = enc y @ s \<longleftrightarrow> x = y \<and> r = s"
  by (simp add: append_eq_append_conv)

lemma take_enc [simp]: "take width (enc x @ r) = enc x"
  by (metis append_eq_conv_conj length_enc)

lemma drop_enc [simp]: "drop width (enc x @ r) = r"
  by (metis append_eq_conv_conj length_enc)

lemma append_enc_iff [simp]: "r @ enc x = s @ enc y \<longleftrightarrow> r = s \<and> x = y"
  by (simp add: append_eq_append_conv)

end

definition u32_be :: "u32 \<Rightarrow> bytes" where "u32_be w = be_bytes 4 (unat w)"
definition u64_be :: "u64 \<Rightarrow> bytes" where "u64_be w = be_bytes 8 (unat w)"
definition u32_le :: "u32 \<Rightarrow> bytes" where "u32_le w = le_bytes 4 (unat w)"
definition u64_le :: "u64 \<Rightarrow> bytes" where "u64_le w = le_bytes 8 (unat w)"

definition u32_from_be :: "bytes \<Rightarrow> u32" where "u32_from_be bs = of_nat (nat_of_be bs)"
definition u64_from_be :: "bytes \<Rightarrow> u64" where "u64_from_be bs = of_nat (nat_of_be bs)"
definition u32_from_le :: "bytes \<Rightarrow> u32" where "u32_from_le bs = of_nat (nat_of_le bs)"
definition u64_from_le :: "bytes \<Rightarrow> u64" where "u64_from_le bs = of_nat (nat_of_le bs)"

lemma unat_u32_mod: "unat (w :: u32) mod 4294967296 = unat w"
  using unat_lt2p [of w] by simp

lemma unat_u64_mod: "unat (w :: u64) mod 18446744073709551616 = unat w"
  using unat_lt2p [of w] by simp

interpretation u32be: byte_codec u32_be u32_from_be 4
  by unfold_locales (simp_all add: u32_be_def u32_from_be_def nat_of_be_bytes unat_u32_mod)

interpretation u64be: byte_codec u64_be u64_from_be 8
  by unfold_locales (simp_all add: u64_be_def u64_from_be_def nat_of_be_bytes unat_u64_mod)

interpretation u32le: byte_codec u32_le u32_from_le 4
  by unfold_locales (simp_all add: u32_le_def u32_from_le_def le_bytes_def nat_of_le_def nat_of_be_bytes unat_u32_mod)

interpretation u64le: byte_codec u64_le u64_from_le 8
  by unfold_locales (simp_all add: u64_le_def u64_from_le_def le_bytes_def nat_of_le_def nat_of_be_bytes unat_u64_mod)

end
