(* ===== verification/Errors.thy ===== *)
theory Errors
  imports Lyrion_Prelude
begin

text \<open>
  The error type of \<^verbatim>\<open>errors.rs\<close> and the ways a call of the node can fail to return:
  with an error, by a panic (\<^verbatim>\<open>panic = "abort"\<close> in the release profile), or by waiting
  for ever on a lock its own caller holds.  \<open>Anyhow\<close> carries the message of
  \<^verbatim>\<open>bail!\<close> and of \<^verbatim>\<open>context\<close>.
\<close>

datatype chain_error =
    MissingUTXO
  | DoubleSpend
  | InvalidScript
  | InvalidTx string
  | InvalidBlock string
  | ReorgTooDeep
  | InsufficientFee
  | CoinbaseImmature
  | InvalidCoinbaseFee
  | InsufficientPoW
  | InvalidTimestamp
  | InvalidLockTime
  | ValidationTimeout
  | ValueOverflow
  | InvalidSignature
  | AttackDetected
  | InvalidRangeProof
  | InvalidHandshake
  | PeerBanned
  | PeerTimeout
  | MempoolOverflow
  | InvalidKeyImage
  | DecompressionFailed
  | PackageDepthExceeded
  | InvalidCommitment
  | SupplyMismatch
  | Anyhow string
  | RocksDB
  | Bincode
  | Secp256k1
  | MoneroSerai
  | Libp2p
  | Bulletproofs
  | FilePermissionError string
  | InvalidEncryptionKey

datatype fault = Err chain_error | Panic | Blocked

type_synonym 'a result = "fault + 'a"

abbreviation bail :: "chain_error \<Rightarrow> 'a result" where
  "bail e \<equiv> Inl (Err e)"

text \<open>\<^verbatim>\<open>ok_or(e)?\<close>, and \<^verbatim>\<open>unwrap()\<close> / \<^verbatim>\<open>expect()\<close>.\<close>

definition or_err :: "'a option \<Rightarrow> chain_error \<Rightarrow> 'a result" where
  "or_err x e = ok_or x (Err e)"

definition unwrap :: "'a option \<Rightarrow> 'a result" where
  "unwrap x = ok_or x Panic"

lemma or_err_simps [simp]: "or_err (Some a) e = Inr a" "or_err None e = bail e"
  by (simp_all add: or_err_def)

lemma or_err_eq_Inr [result_simps]: "or_err x e = Inr a \<longleftrightarrow> x = Some a"
  by (simp add: or_err_def result_simps)

lemma or_err_eq_Inl [result_simps]: "or_err x e = Inl f \<longleftrightarrow> x = None \<and> f = Err e"
  by (auto simp: or_err_def result_simps)

lemma unwrap_simps [simp]: "unwrap (Some a) = Inr a" "unwrap None = Inl Panic"
  by (simp_all add: unwrap_def)

lemma unwrap_eq_Inr [result_simps]: "unwrap x = Inr a \<longleftrightarrow> x = Some a"
  by (simp add: unwrap_def result_simps)

text \<open>\<^verbatim>\<open>?\<close> on a \<^verbatim>\<open>bail!\<close> guard: go on when the condition is false.\<close>

definition bail_if :: "bool \<Rightarrow> chain_error \<Rightarrow> unit result" where
  "bail_if b e = ensure (\<not> b) (Err e)"

lemma bail_if_simps [simp]: "bail_if False e = Inr ()" "bail_if True e = bail e"
  by (simp_all add: bail_if_def)

lemma bail_if_eq_Inr [result_simps]: "bail_if b e = Inr u \<longleftrightarrow> \<not> b"
  by (simp add: bail_if_def result_simps)

lemma bail_if_eq_Inl [result_simps]: "bail_if b e = Inl f \<longleftrightarrow> b \<and> f = Err e"
  by (auto simp: bail_if_def result_simps)

end
