(* ===== verification/Utils.thy ===== *)
theory Utils
  imports Errors
begin

text \<open>
  \<^verbatim>\<open>utils.rs\<close>: the consensus constants, the hash wrappers, the compact encoding of
  proof-of-work targets, the block subsidy, the RandomX engine pool and the address codecs.
  SHA-256, RIPEMD-160, RandomX and Base58Check are libraries; they are the fields of
  \<open>crypto\<close> and \<open>base58\<close>, with the documented laws collected in
  \<open>crypto_ok\<close> and \<open>base58_ok\<close>.  \<^verbatim>\<open>BigUint\<close> is \<open>nat\<close>.
\<close>

section \<open>Constants\<close>

definition MAX_BLOCK_SIZE :: nat where "MAX_BLOCK_SIZE = 4000000"
definition COINBASE_MATURITY :: usize where "COINBASE_MATURITY = 100"
definition HALVING_INTERVAL :: usize where "HALVING_INTERVAL = 2100000"
definition DIFFICULTY_ADJUST_INTERVAL :: usize where "DIFFICULTY_ADJUST_INTERVAL = 2016"
definition TARGET_BLOCK_TIME :: nat where "TARGET_BLOCK_TIME = 60"
definition EXPECTED_TIME :: nat where
  "EXPECTED_TIME = TARGET_BLOCK_TIME * unat DIFFICULTY_ADJUST_INTERVAL"
definition PRUNE_DEPTH :: usize where "PRUNE_DEPTH = 10080"
definition REORG_MAX_DEPTH :: usize where "REORG_MAX_DEPTH = 2016"
definition ORPHAN_TTL :: nat where "ORPHAN_TTL = 3600"
definition MIN_FEE_PER_BYTE :: u64 where "MIN_FEE_PER_BYTE = 10"
definition MAX_RING_SIZE :: nat where "MAX_RING_SIZE = 20"
definition LRU_CACHE_SIZE :: nat where "LRU_CACHE_SIZE = 500000"
definition MAX_MSG_DECOMPRESSED :: nat where "MAX_MSG_DECOMPRESSED = 16 * 1024 * 1024"
definition MAX_PACKAGE_DEPTH :: nat where "MAX_PACKAGE_DEPTH = 50"
definition MAX_COMPRESSED_SIZE :: nat where "MAX_COMPRESSED_SIZE = MAX_MSG_DECOMPRESSED div 4"
definition MAX_PACKAGE_SIZE :: nat where "MAX_PACKAGE_SIZE = 1000000"
definition GENESIS_TIMESTAMP :: u32 where "GENESIS_TIMESTAMP = 1732060800"
definition INITIAL_SUBSIDY :: u64 where "INITIAL_SUBSIDY = 10000000000"
definition TAIL_SUBSIDY :: u64 where "TAIL_SUBSIDY = 500000000"
definition MAX_SUBSIDY_HALVINGS :: usize where "MAX_SUBSIDY_HALVINGS = 64"
definition ANON_FEE_MULTIPLIER_NUMERATOR :: nat where "ANON_FEE_MULTIPLIER_NUMERATOR = 3"
definition ANON_FEE_MULTIPLIER_DENOMINATOR :: nat where "ANON_FEE_MULTIPLIER_DENOMINATOR = 2"
definition TWO_POW_256 :: nat where "TWO_POW_256 = push_bit 256 1"

lemmas constants =
  MAX_BLOCK_SIZE_def COINBASE_MATURITY_def HALVING_INTERVAL_def DIFFICULTY_ADJUST_INTERVAL_def
  TARGET_BLOCK_TIME_def EXPECTED_TIME_def PRUNE_DEPTH_def REORG_MAX_DEPTH_def ORPHAN_TTL_def
  MIN_FEE_PER_BYTE_def MAX_RING_SIZE_def LRU_CACHE_SIZE_def MAX_MSG_DECOMPRESSED_def
  MAX_PACKAGE_DEPTH_def MAX_COMPRESSED_SIZE_def MAX_PACKAGE_SIZE_def GENESIS_TIMESTAMP_def
  INITIAL_SUBSIDY_def TAIL_SUBSIDY_def MAX_SUBSIDY_HALVINGS_def
  ANON_FEE_MULTIPLIER_NUMERATOR_def ANON_FEE_MULTIPLIER_DENOMINATOR_def

section \<open>Hashes\<close>

record crypto =
  sha256 :: "bytes \<Rightarrow> bytes"
  ripemd160 :: "bytes \<Rightarrow> bytes"
  randomx :: "bytes \<Rightarrow> bytes option"

definition crypto_ok :: "'a crypto_scheme \<Rightarrow> bool" where
  "crypto_ok c \<longleftrightarrow> (\<forall>d. length (sha256 c d) = 32) \<and> (\<forall>d. length (ripemd160 c d) = 20) \<and>
     (\<forall>d h. randomx c d = Some h \<longrightarrow> length h = 32)"

definition sha256d :: "'a crypto_scheme \<Rightarrow> bytes \<Rightarrow> hash256" where
  "sha256d c data = sha256 c (sha256 c data)"

definition hash_ripemd160 :: "'a crypto_scheme \<Rightarrow> bytes \<Rightarrow> bytes" where
  "hash_ripemd160 c data = ripemd160 c data"

definition hash160 :: "'a crypto_scheme \<Rightarrow> bytes \<Rightarrow> bytes" where
  "hash160 c data = hash_ripemd160 c (sha256 c data)"

definition u256_from_hash :: "hash256 \<Rightarrow> nat" where
  "u256_from_hash h = nat_of_be h"

definition u256_from_be :: "bytes \<Rightarrow> nat" where
  "u256_from_be bs = nat_of_be bs"

lemma length_sha256d [simp]: "crypto_ok c \<Longrightarrow> length (sha256d c d) = 32"
  by (simp add: crypto_ok_def sha256d_def)

lemma length_hash160 [simp]: "crypto_ok c \<Longrightarrow> length (hash160 c d) = 20"
  by (simp add: crypto_ok_def hash160_def hash_ripemd160_def)

section \<open>The RandomX engine pool\<close>

text \<open>
  \<^verbatim>\<open>PowEngine\<close> hands each call to the next machine of its pool.  The machines are the
  functions \<open>pool\<close>; a machine may fail, which becomes an error.
\<close>

record pow_engine =
  pool :: "(bytes \<Rightarrow> bytes option) list"
  idx :: usize

definition pow_engine_new :: "(bytes \<Rightarrow> bytes option) \<Rightarrow> usize \<Rightarrow> pow_engine" where
  "pow_engine_new vm num_randomx_threads =
     (let num_threads = min (max num_randomx_threads 1) 64
      in \<lparr>pool = replicate (unat num_threads) vm, idx = 0\<rparr>)"

definition engine_hash :: "pow_engine \<Rightarrow> bytes \<Rightarrow> pow_engine \<times> hash256 result" where
  "engine_hash e data =
     (if pool e = [] then (e, bail (Anyhow ''RandomX pool empty''))
      else
        let i = unat (idx e) mod length (pool e);
            e' = e\<lparr>idx := idx e + 1\<rparr>
        in (e', or_err ((pool e ! i) data) (Anyhow ''RandomX hash failed'')))"

definition pow_hash :: "'a crypto_scheme \<Rightarrow> bytes \<Rightarrow> hash256 result" where
  "pow_hash c header = or_err (randomx c header) (Anyhow ''RandomX hash failed'')"

section \<open>Compact targets\<close>

fun bit_len :: "nat \<Rightarrow> nat" where
  "bit_len n = (if n = 0 then 0 else Suc (bit_len (n div 2)))"

declare bit_len.simps [simp del]

definition compact_to_target :: "u32 \<Rightarrow> nat result" where
  "compact_to_target bits =
     (if bits = 0 then Inr 0
      else
        let exp = unat (drop_bit 24 bits)
        in if exp > 80 then bail (InvalidBlock ''target exponent too large'')
           else
             let mant = unat (bits AND 0x007fffff);
                 mant = (if bits AND 0x00800000 \<noteq> 0 then mant + push_bit 23 1 else mant)
             in Inr (if exp > 3 then push_bit (8 * (exp - 3)) mant
                     else if exp < 3 then drop_bit (8 * (3 - exp)) mant
                     else mant))"

definition target_to_compact :: "nat \<Rightarrow> u32" where
  "target_to_compact target =
     (if target = 0 then 0x1d00ffff
      else
        let size = (bit_len target + 7) div 8
        in if size > 80 then 0x1d00ffff
           else
             let compact =
                   (if size \<le> 3 then push_bit (8 * (3 - size)) (min (of_nat target) 0x007fffff)
                    else min (of_nat (drop_bit (8 * (size - 3)) target)) 0x007fffff);
                 (compact, exp) =
                   (if compact AND 0x00800000 \<noteq> 0 then (drop_bit 8 compact, of_nat (size + 1))
                    else (compact, of_nat size))
             in compact OR push_bit 24 exp)"

section \<open>Block subsidy\<close>

definition checked_shr :: "u64 \<Rightarrow> u32 \<Rightarrow> u64 option" where
  "checked_shr w n = (if unat n < 64 then Some (drop_bit (unat n) w) else None)"

definition subsidy :: "usize \<Rightarrow> u64" where
  "subsidy height =
     (let halvings = height div HALVING_INTERVAL
      in if halvings \<ge> MAX_SUBSIDY_HALVINGS then TAIL_SUBSIDY
         else case checked_shr INITIAL_SUBSIDY (ucast halvings) of Some v \<Rightarrow> v | None \<Rightarrow> 0)"

text \<open>
  The supply a chain of the given height should have issued, as the checked loops of
  \<^verbatim>\<open>validate_state_full\<close> and \<^verbatim>\<open>validate_supply_full\<close> add it up.
\<close>

definition heights_upto :: "usize \<Rightarrow> usize list" where
  "heights_upto h = map of_nat [0..<Suc (unat h)]"

definition issued_supply :: "usize \<Rightarrow> u64 option" where
  "issued_supply best_height = checked_sum (map subsidy (heights_upto best_height))"

section \<open>Compact targets: arithmetic form\<close>

lemma bit_len_le: "bit_len n \<le> k \<longleftrightarrow> n < 2 ^ k"
proof (induction n arbitrary: k rule: bit_len.induct)
  case (1 n)
  show ?case
  proof (cases "n = 0")
    case False
    show ?thesis
    proof (cases k)
      case 0
      with False show ?thesis by (simp add: bit_len.simps [of n])
    next
      case (Suc j)
      with False "1" [of j] show ?thesis
        by (auto simp: bit_len.simps [of n])
    qed
  qed (simp add: bit_len.simps)
qed

definition byte_len :: "nat \<Rightarrow> nat" where
  "byte_len n = (bit_len n + 7) div 8"

lemma byte_len_le: "byte_len n \<le> k \<longleftrightarrow> n < 256 ^ k"
proof -
  have "byte_len n \<le> k \<longleftrightarrow> bit_len n \<le> 8 * k" unfolding byte_len_def by arith
  also have "\<dots> \<longleftrightarrow> n < 2 ^ (8 * k)" by (rule bit_len_le)
  also have "(2::nat) ^ (8 * k) = 256 ^ k" by (simp add: power_mult)
  finally show ?thesis .
qed

lemma byte_len_eq: "byte_len n = Suc k \<longleftrightarrow> 256 ^ k \<le> n \<and> n < 256 ^ Suc k"
  using byte_len_le [of n k] byte_len_le [of n "Suc k"] by arith

lemma unat_take_bit: "unat (take_bit n w) = unat w mod 2 ^ n"
  unfolding unsigned_take_bit_eq by (rule take_bit_eq_mod)

lemma unat_drop_bit: "unat (drop_bit n w) = unat w div 2 ^ n"
  by (metis unat_drop_bit_eq drop_bit_eq_div)

lemma unat_push_bit: "unat (push_bit k (w :: 'a::len word)) = unat w * 2 ^ k mod 2 ^ LENGTH('a)"
  unfolding unsigned_push_bit_eq take_bit_eq_mod by (simp add: push_bit_eq_mult)

lemma odd_div_2p23: "(x::nat) < 2 ^ 24 \<Longrightarrow> odd (x div 2 ^ 23) \<longleftrightarrow> 2 ^ 23 \<le> x"
proof (cases "2 ^ 23 \<le> x")
  case True
  assume "x < 2 ^ 24"
  with True have "x div 2 ^ 23 = 1" by (intro div_nat_eqI) auto
  with True show ?thesis by simp
qed simp

lemma and_bit23: "(w :: u32) AND 0x00800000 \<noteq> 0 \<longleftrightarrow> odd (unat w div 2 ^ 23)"
proof -
  have "w AND 0x00800000 \<noteq> 0 \<longleftrightarrow> bit w 23"
    using bit_iff_and_push_bit_not_eq_0 [of w 23] by simp
  moreover have "bit (unat w) 23 \<longleftrightarrow> bit w 23" by (simp add: bit_unsigned_iff)
  ultimately show ?thesis by (simp add: bit_iff_odd [of "unat w"])
qed

lemma compact_mantissa:
  fixes bits :: u32
  shows "(if bits AND 0x00800000 \<noteq> 0 then unat (bits AND 0x007fffff) + push_bit 23 1
          else unat (bits AND 0x007fffff)) = unat bits mod 2 ^ 24"
proof -
  have m: "bits AND 0x007fffff = take_bit 23 bits"
    by (simp add: take_bit_eq_mask mask_eq_exp_minus_1)
  have "unat bits mod 2 ^ 24 = unat bits mod 2 ^ 23 + 2 ^ 23 * (unat bits div 2 ^ 23 mod 2)"
    using mod_mult2_eq [of "unat bits" "2 ^ 23" 2] by simp
  then show ?thesis
    unfolding m and_bit23 unat_take_bit by (auto simp: odd_iff_mod_2_eq_one)
qed

lemma compact_to_target_eq:
  assumes "unat bits div 2 ^ 24 \<le> 80"
  shows "compact_to_target bits =
    (let e = unat bits div 2 ^ 24; m = unat bits mod 2 ^ 24
     in Inr (if 3 \<le> e then m * 256 ^ (e - 3) else m div 256 ^ (3 - e)))"
proof -
  have p: "(2::nat) ^ (8 * k) = 256 ^ k" for k by (simp add: power_mult)
  show ?thesis
    using assms
    unfolding compact_to_target_def Let_def compact_mantissa unat_drop_bit
    by (auto simp: push_bit_eq_mult drop_bit_eq_div p)
qed

lemma compact_to_target_too_large:
  "80 < unat bits div 2 ^ 24 \<Longrightarrow>
   compact_to_target bits = bail (InvalidBlock ''target exponent too large'')"
  unfolding compact_to_target_def Let_def unat_drop_bit by auto

lemma unat_min: "unat (min a b) = min (unat a) (unat b)"
  by (simp add: min_def word_le_nat_alt)

lemma or_push_bit_24:
  fixes c e :: u32
  assumes "unat c < 2 ^ 24" "unat e < 2 ^ 8"
  shows "unat (c OR push_bit 24 e) = unat c + 2 ^ 24 * unat e"
proof -
  have "c AND push_bit 24 e = 0"
  proof (rule bit_word_eqI)
    fix n assume "n < LENGTH(32)"
    have "c = take_bit 24 c"
      using assms(1) by (simp add: word_unat_eq_iff unat_take_bit)
    then have "bit c n \<Longrightarrow> n < 24"
      by (metis bit_take_bit_iff)
    then show "bit (c AND push_bit 24 e) n = bit 0 n"
      by (auto simp: bit_simps)
  qed
  then have "c OR push_bit 24 e = c + push_bit 24 e"
    by (simp add: disjunctive_add_eq_or)
  moreover have "unat (push_bit 24 e) = 2 ^ 24 * unat e"
    using assms(2) by (simp add: push_bit_eq_mult unat_word_ariths mult.commute)
  ultimately show ?thesis
    using assms by (simp add: unat_word_ariths)
qed

definition compact_mant :: "nat \<Rightarrow> nat" where
  "compact_mant t =
     (if byte_len t \<le> 3 then min t 0x007fffff * 256 ^ (3 - byte_len t)
      else min (t div 256 ^ (byte_len t - 3)) 0x007fffff)"

lemma compact_mant_less: "0 < t \<Longrightarrow> compact_mant t < 2 ^ 24"
proof -
  assume "0 < t"
  have "min t 0x007fffff * 256 ^ (3 - byte_len t) < 2 ^ 24" if "byte_len t \<le> 3"
  proof -
    have "t < 256 ^ byte_len t" by (simp add: byte_len_le [symmetric])
    then have "min t 0x007fffff * 256 ^ (3 - byte_len t) < 256 ^ byte_len t * 256 ^ (3 - byte_len t)"
      by (intro mult_strict_right_mono) auto
    also have "\<dots> = 256 ^ 3" using that by (simp add: power_add [symmetric])
    finally show ?thesis by simp
  qed
  then show ?thesis by (auto simp: compact_mant_def)
qed

definition compact_word :: "nat \<Rightarrow> u32" where
  "compact_word t =
     (if byte_len t \<le> 3 then push_bit (8 * (3 - byte_len t)) (min (of_nat t) 0x007fffff)
      else min (of_nat (drop_bit (8 * (byte_len t - 3)) t)) 0x007fffff)"

lemma unat_compact_word: "0 < t \<Longrightarrow> unat (compact_word t) = compact_mant t"
proof -
  assume t: "0 < t"
  have p: "(2::nat) ^ (8 * k) = 256 ^ k" for k by (simp add: power_mult)
  have lt: "t < 256 ^ byte_len t" by (simp add: byte_len_le [symmetric])
  show ?thesis
  proof (cases "byte_len t \<le> 3")
    case True
    have "t < 2 ^ 24"
      using lt True power_increasing [of "byte_len t" 3 "256::nat"] by simp
    then have "unat (of_nat t :: u32) = t" by (simp add: unat_of_nat)
    moreover have "min t 8388607 * 256 ^ (3 - byte_len t) < 2 ^ 32"
      using compact_mant_less [OF t] True by (simp add: compact_mant_def)
    ultimately show ?thesis using True
      by (simp add: compact_word_def compact_mant_def unat_push_bit unat_min p)
  next
    case False
    then have "t div 256 ^ (byte_len t - 3) < 2 ^ 24"
    proof -
      have "t < 256 ^ (byte_len t - 3) * 256 ^ 3"
        using lt False by (simp only: power_add [symmetric]) simp
      then show ?thesis by (simp add: div_less_iff_less_mult mult.commute)
    qed
    then have "unat (of_nat (t div 256 ^ (byte_len t - 3)) :: u32) = t div 256 ^ (byte_len t - 3)"
      by (simp add: unat_of_nat)
    with False show ?thesis
      by (simp add: compact_word_def compact_mant_def drop_bit_eq_div unat_min p)
  qed
qed

lemma target_to_compact_eq:
  assumes "0 < t" "byte_len t \<le> 80"
  shows "unat (target_to_compact t) =
    (if 2 ^ 23 \<le> compact_mant t then compact_mant t div 256 + 2 ^ 24 * (byte_len t + 1)
     else compact_mant t + 2 ^ 24 * byte_len t)"
proof -
  let ?c = "compact_word t"
  have eq: "target_to_compact t =
     (if ?c AND 0x00800000 \<noteq> 0 then drop_bit 8 ?c OR push_bit 24 (of_nat (byte_len t + 1))
      else ?c OR push_bit 24 (of_nat (byte_len t)))"
    using assms by (simp add: target_to_compact_def compact_word_def Let_def byte_len_def)
  have c: "unat ?c = compact_mant t" "unat ?c < 2 ^ 24"
    using assms unat_compact_word compact_mant_less by auto
  have odd: "odd (unat ?c div 2 ^ 23) \<longleftrightarrow> 2 ^ 23 \<le> unat ?c"
    using c(2) by (rule odd_div_2p23)
  have e: "unat (of_nat (byte_len t) :: u32) = byte_len t"
          "unat (of_nat (byte_len t + 1) :: u32) = byte_len t + 1"
    using assms(2) by (simp_all only: unat_of_nat) auto
  have d: "unat (drop_bit 8 ?c) = unat ?c div 256" by (simp add: unat_drop_bit)
  show ?thesis
    unfolding eq and_bit23 odd
    using c assms(2) d e by (auto simp: or_push_bit_24 simp del: of_nat_add)
qed

section \<open>Properties\<close>

text \<open>A freshly built engine has between 1 and 64 machines, and whatever its round-robin counter has
  become, hashing with it is hashing with the one RandomX function its machines share.\<close>

theorem engine_hash_refines_pow_hash:
  fixes c :: "'a crypto_scheme" and i n :: usize
  defines "e \<equiv> (pow_engine_new (randomx c) n)\<lparr>idx := i\<rparr>"
  shows "1 \<le> length (pool e) \<and> length (pool e) \<le> 64 \<and>
    engine_hash e data = (e\<lparr>idx := i + 1\<rparr>, pow_hash c data)"
proof -
  have len: "1 \<le> unat (min (max n 1) 64)" "unat (min (max n 1) 64) \<le> 64"
    by (auto simp: min_def max_def word_le_nat_alt not_le)
  then have "unat i mod unat (min (max n 1) 64) < unat (min (max n 1) 64)" by simp
  with len show ?thesis
    unfolding e_def engine_hash_def pow_engine_new_def pow_hash_def Let_def by auto
qed

lemma byte_len_scaled:
  assumes "3 \<le> e" "256 ^ 2 \<le> m" "m < 256 ^ 3"
  shows "byte_len (m * 256 ^ (e - 3)) = e"
proof -
  obtain k where e: "e = Suc (k + 2)"
    using assms(1) by (intro that [of "e - 3"]) simp
  have "256 ^ (k + 2) \<le> m * 256 ^ k" using assms(2) by (simp add: power_add)
  moreover have "m * 256 ^ k < 256 ^ Suc (k + 2)" using assms(3) by (simp add: power_add)
  ultimately show ?thesis using byte_len_eq [of "m * 256 ^ k" "k + 2"] by (simp add: e)
qed

text \<open>C11. A normalised compact target (exponent 3 to 80, three mantissa bytes with the sign bit clear)
  decodes to a target that encodes to the same 32 bits again.\<close>

theorem compact_roundtrip:
  assumes "3 \<le> e" "e \<le> 80" "0x010000 \<le> m" "m \<le> 0x7fffff"
    and bits: "unat bits = m + 2 ^ 24 * e"
  shows "\<exists>t. compact_to_target bits = Inr t \<and> target_to_compact t = bits"
proof -
  let ?t = "m * 256 ^ (e - 3)"
  have parts: "unat bits div 2 ^ 24 = e" "unat bits mod 2 ^ 24 = m"
    using assms by auto
  then have dec: "compact_to_target bits = Inr ?t"
    using assms by (simp add: compact_to_target_eq)
  have len: "byte_len ?t = e" using assms by (intro byte_len_scaled) auto
  have mant: "compact_mant ?t = m" using assms(1,4) unfolding compact_mant_def len by auto
  have "unat (target_to_compact ?t) = unat bits"
    using target_to_compact_eq [of ?t] assms unfolding len mant by simp
  then show ?thesis using dec by (auto simp: word_unat_eq_iff)
qed

lemma target_to_compact_parts:
  assumes "0 < t" "t < 256 ^ 80"
  defines "b \<equiv> unat (target_to_compact t)"
  shows "b div 2 ^ 24 = (if 2 ^ 23 \<le> compact_mant t then byte_len t + 1 else byte_len t)"
    and "b mod 2 ^ 24 = (if 2 ^ 23 \<le> compact_mant t then compact_mant t div 256 else compact_mant t)"
proof -
  have "byte_len t \<le> 80" using assms(2) by (simp add: byte_len_le)
  note eq = target_to_compact_eq [OF assms(1) this, folded b_def]
  have lt: "compact_mant t < 2 ^ 24" "compact_mant t div 256 < 2 ^ 24"
    using compact_mant_less [OF assms(1)] by auto
  show "b div 2 ^ 24 = (if 2 ^ 23 \<le> compact_mant t then byte_len t + 1 else byte_len t)"
    using lt unfolding eq by auto
  show "b mod 2 ^ 24 = (if 2 ^ 23 \<le> compact_mant t then compact_mant t div 256 else compact_mant t)"
    using lt unfolding eq by (auto simp only: mod_mult_self2 mod_less if_True if_False split: if_splits)
qed

lemma compact_of_small:
  assumes "0 < t" "t < 2 ^ 23"
  shows "compact_to_target (target_to_compact t) = Inr t"
proof -
  have "byte_len t \<le> 3" "byte_len t \<noteq> 0"
    using assms byte_len_le [of t 3] byte_len_le [of t 0] by auto
  then consider "byte_len t = 1" | "byte_len t = 2" | "byte_len t = 3" by arith
  then show ?thesis
  proof cases
    case 1
    then have m: "compact_mant t = t * 2 ^ 16" using assms(2) by (simp add: compact_mant_def)
    show ?thesis
      using target_to_compact_parts [OF assms(1)] assms(2)
      by (simp add: compact_to_target_eq Let_def 1 m)
  next
    case 2
    then have m: "compact_mant t = t * 2 ^ 8" using assms(2) by (simp add: compact_mant_def)
    show ?thesis
      using target_to_compact_parts [OF assms(1)] assms(2)
      by (simp add: compact_to_target_eq Let_def 2 m)
  next
    case 3
    then have m: "compact_mant t = t" using assms(2) by (simp add: compact_mant_def)
    show ?thesis
      using target_to_compact_parts [OF assms(1)] assms(2)
      by (simp add: compact_to_target_eq Let_def 3 m)
  qed
qed

lemma compact_of_large:
  assumes "2 ^ 23 \<le> t" "t < 256 ^ 80"
  shows "compact_to_target (target_to_compact t) =
    Inr (min (t div 256 ^ (byte_len t - 3)) 0x7fffff * 256 ^ (byte_len t - 3))"
proof -
  have "\<not> byte_len t \<le> 2" using assms(1) by (simp add: byte_len_le)
  moreover have "byte_len t \<le> 80" using assms(2) by (simp add: byte_len_le)
  ultimately have len: "3 \<le> byte_len t" "byte_len t \<le> 80" by auto
  have m: "compact_mant t = min (t div 256 ^ (byte_len t - 3)) 0x7fffff"
  proof (cases "byte_len t = 3")
    case False
    with len have "\<not> byte_len t \<le> 3" by simp
    then show ?thesis by (simp add: compact_mant_def)
  qed (simp add: compact_mant_def)
  then have "\<not> 2 ^ 23 \<le> compact_mant t" by simp
  then show ?thesis
    using target_to_compact_parts [of t] assms len m
    by (simp add: compact_to_target_eq Let_def)
qed

text \<open>Encoding a positive target below \<open>256 ^ 80\<close> and decoding it again never gives an easier
  target, and loses less than half of it (up to the weight of the lowest mantissa byte).\<close>

theorem target_to_compact_approx:
  assumes "0 < t" "t < 256 ^ 80"
  shows "\<exists>r. compact_to_target (target_to_compact t) = Inr r \<and> r \<le> t \<and>
    t < 2 * (r + 256 ^ (byte_len t - 3))"
proof (cases "t < 2 ^ 23")
  case True
  then show ?thesis using compact_of_small assms(1) by auto
next
  case False
  let ?B = "256 ^ (byte_len t - 3) :: nat"
  let ?r = "min (t div ?B) 0x7fffff * ?B"
  have "\<not> byte_len t \<le> 2" using False by (simp add: byte_len_le)
  then have "(256::nat) ^ byte_len t = 2 ^ 24 * ?B"
    using power_add [of "256::nat" 3 "byte_len t - 3"] by simp
  moreover have "t < 256 ^ byte_len t" by (simp add: byte_len_le [symmetric])
  ultimately have up: "t < 2 * (0x7fffff * ?B + ?B)" by simp
  have "?r \<le> t div ?B * ?B" by simp
  then have "?r \<le> t" using div_times_less_eq_dividend le_trans by blast
  moreover have "t < t div ?B * ?B + ?B"
    using dividend_less_div_times [of ?B t] by (simp add: add.commute)
  then have "t < 2 * (?r + ?B)" using up by (auto simp: min_def)
  moreover have "compact_to_target (target_to_compact t) = Inr ?r"
    using compact_of_large False assms(2) by simp
  ultimately show ?thesis by blast
qed

lemma subsidy_eq:
  "unat (subsidy h) =
     (if unat h < 134400000 then 10000000000 div 2 ^ (unat h div 2100000) else 500000000)"
proof -
  have q: "unat (h div 2100000) = unat h div 2100000" by (simp add: unat_div)
  have ge: "h div 2100000 \<ge> 64 \<longleftrightarrow> \<not> unat h < 134400000"
    by (simp add: word_le_nat_alt q) arith
  have "unat (ucast (h div 2100000) :: u32) = unat h div 2100000" if "unat h < 134400000"
    using that by (simp add: unsigned_ucast_eq take_bit_eq_mod q)
  then show ?thesis
    using ge by (auto simp: subsidy_def constants Let_def checked_shr_def unat_drop_bit)
qed

text \<open>The subsidy as a function of the height on every branch: the initial subsidy shifted right
  once per halving interval, and the tail subsidy from the 64th interval on.\<close>

theorem subsidy_schedule:
  "unat (subsidy h) =
     (if unat h < 64 * 2100000 then 10 ^ 10 div 2 ^ (unat h div 2100000) else 5 * 10 ^ 8)"
  by (simp add: subsidy_eq)

text \<open>The schedule is not monotone: for thirty halving intervals before the tail emission starts
  no subsidy at all is paid, and the first block of the tail is paid half a coin again.\<close>

theorem subsidy_gap:
  assumes "34 * 2100000 \<le> unat h" "unat h < 64 * 2100000"
  shows "subsidy h = 0 \<and> subsidy h < subsidy 134400000"
proof -
  have "34 \<le> unat h div 2100000" using assms(1) by simp
  then have "(2::nat) ^ 34 \<le> 2 ^ (unat h div 2100000)" by (intro power_increasing) auto
  then have "(10000000000::nat) div 2 ^ (unat h div 2100000) = 0" by simp
  then have "unat (subsidy h) = 0" using assms(2) by (simp add: subsidy_eq)
  moreover have "unat (subsidy 134400000) = 500000000" by (simp add: subsidy_eq)
  ultimately show ?thesis by (simp add: word_less_nat_alt unat_eq_0)
qed

lemma sum_halvings: "(\<Sum>i<n * k. (A::nat) div 2 ^ (i div k)) = k * (\<Sum>j<n. A div 2 ^ j)"
proof (cases "k = 0")
  case False
  have "(\<Sum>i<n * k. A div 2 ^ (i div k)) = (\<Sum>j<n. \<Sum>i = j * k..<j * k + k. A div 2 ^ (i div k))"
    by (simp add: sum.nat_group)
  also have "\<dots> = (\<Sum>j<n. \<Sum>i = j * k..<j * k + k. A div 2 ^ j)"
  proof (intro sum.cong refl)
    fix j i assume "i \<in> {j * k..<j * k + k}"
    then have "i div k = j" using False by (intro div_nat_eqI) (auto simp: mult.commute)
    then show "A div 2 ^ (i div k) = A div 2 ^ j" by simp
  qed
  finally show ?thesis by (simp add: sum_distrib_left)
qed simp

lemma sum_halved_le: "(\<Sum>j<n. (A::nat) div 2 ^ j) \<le> 2 * A"
proof -
  have "(\<Sum>j<n. A div 2 ^ j) + 2 * (A div 2 ^ n) \<le> 2 * A"
  proof (induction n)
    case (Suc n)
    have "2 * (A div 2 ^ Suc n) \<le> A div 2 ^ n"
      by (metis div_mult2_eq div_times_less_eq_dividend mult.commute power_Suc2)
    with Suc show ?case by simp
  qed simp
  then show ?thesis by simp
qed

lemma sum_list_heights: "sum_list (map f (heights_upto h)) = (\<Sum>i<Suc (unat h). f (of_nat i))"
  by (simp add: heights_upto_def interv_sum_list_conv_sum_set_nat lessThan_atLeast0 o_def del: upt_Suc)

text \<open>Up to the last halving the checked supply loop never overflows: it returns the exact sum of
  the subsidies of all heights, at most 42 million coins of \<open>10 ^ 9\<close> units.\<close>

theorem issued_supply_bound:
  assumes "unat h < 134400000"
  shows "\<exists>s. issued_supply h = Some s \<and> unat s = (\<Sum>i\<le>unat h. unat (subsidy (of_nat i))) \<and>
    unat s \<le> 42000000000000000"
proof -
  let ?S = "\<Sum>i<Suc (unat h). unat (subsidy (of_nat i))"
  have "?S = (\<Sum>i<Suc (unat h). 10000000000 div 2 ^ (i div 2100000))"
    using assms by (intro sum.cong) (auto simp: subsidy_eq unat_of_nat)
  also have "\<dots> \<le> (\<Sum>i<64 * 2100000. 10000000000 div 2 ^ (i div 2100000))"
    using assms by (intro sum_mono2) auto
  also have "\<dots> \<le> 42000000000000000"
    unfolding sum_halvings using sum_halved_le [of 10000000000 64] by simp
  finally have le: "?S \<le> 42000000000000000" .
  then have "checked_sum (map subsidy (heights_upto h)) = Some (of_nat ?S)"
    using sum_list_heights [of "\<lambda>x. unat (subsidy x)" h] by (simp add: checked_fold_eq comp_def)
  moreover have "unat (of_nat n :: u64) = n" if "n \<le> 42000000000000000" for n
    using that by (simp add: unat_of_nat)
  note this [OF le]
  ultimately show ?thesis using le by (auto simp: issued_supply_def lessThan_Suc_atMost)
qed

text \<open>The genesis difficulty bits do not survive the round trip: their target is encoded with half
  the value, and a target of \<open>2 ^ 256\<close> is encoded, not replaced by the genesis bits.\<close>

theorem genesis_bits_not_preserved:
  "compact_to_target 0x1d00ffff = Inr (0xffff * 256 ^ 26) \<and>
   target_to_compact (0xffff * 256 ^ 26) = 0x1c7fffff \<and>
   target_to_compact (2 ^ 256) = 0x21010000"
proof -
  have g: "byte_len (0xffff * 256 ^ 26) = 28"
    using byte_len_eq [of "0xffff * 256 ^ 26" 27] by simp
  have "compact_mant (0xffff * 256 ^ 26) = 0x7fffff"
    unfolding compact_mant_def g by simp
  then have "unat (target_to_compact (0xffff * 256 ^ 26)) = unat (0x1c7fffff :: u32)"
    using target_to_compact_eq [of "0xffff * 256 ^ 26"] unfolding g by simp
  moreover have b: "byte_len (2 ^ 256) = 33"
    using byte_len_eq [of "2 ^ 256" 32] by simp
  have "compact_mant (2 ^ 256) = 0x010000"
    unfolding compact_mant_def b by simp
  then have "unat (target_to_compact (2 ^ 256)) = unat (0x21010000 :: u32)"
    using target_to_compact_eq [of "2 ^ 256"] unfolding b by simp
  moreover have "compact_to_target 0x1d00ffff = Inr (0xffff * 256 ^ 26)"
    using compact_to_target_eq [of "0x1d00ffff"] by simp
  ultimately show ?thesis by (simp only: word_unat_eq_iff)
qed

theorem compact_roundtrip_witness:
  "\<exists>t. compact_to_target 0x1b0404cb = Inr t \<and> target_to_compact t = 0x1b0404cb"
  by (rule compact_roundtrip [where e = 27 and m = 263371]) simp_all

theorem target_to_compact_approx_witness:
  "\<exists>r. compact_to_target (target_to_compact 0x123456) = Inr r \<and> r \<le> 0x123456 \<and>
    0x123456 < 2 * (r + 256 ^ (byte_len 0x123456 - 3))"
  by (rule target_to_compact_approx) simp_all

theorem subsidy_gap_witness: "subsidy 71400000 = 0 \<and> subsidy 71400000 < subsidy 134400000"
  by (rule subsidy_gap) simp_all

theorem issued_supply_bound_witness:
  "\<exists>s. issued_supply 2 = Some s \<and> unat s = (\<Sum>i\<le>unat (2 :: usize). unat (subsidy (of_nat i))) \<and>
    unat s \<le> 42000000000000000"
  by (rule issued_supply_bound) simp

end
