(* ===== verification/Keys.thy ===== *)
theory Keys
  imports Utils
begin

text \<open>
  The remaining half of \<^verbatim>\<open>utils.rs\<close>: address strings and the files that hold secrets.
  Base58Check and the key libraries are parameters (\<open>base58\<close>, \<open>parse_secret\<close>,
  \<open>parse_pub\<close>); a file is what \<^verbatim>\<open>fstat\<close> and \<^verbatim>\<open>read_exact\<close> see of it.
\<close>

section \<open>Addresses\<close>

record base58 =
  to_base58check :: "bytes \<Rightarrow> string"
  from_check :: "string \<Rightarrow> (u8 \<times> bytes) option"

definition base58_ok :: "base58 \<Rightarrow> bool" where
  "base58_ok b \<longleftrightarrow> (\<forall>v p. from_check b (to_base58check b (v # p)) = Some (v, p))"

definition pubkey_to_address :: "'a crypto_scheme \<Rightarrow> base58 \<Rightarrow> bytes \<Rightarrow> string" where
  "pubkey_to_address c b pubkey = to_base58check b ([0] @ hash160 c pubkey)"

definition address_to_pubkey_hash :: "base58 \<Rightarrow> string \<Rightarrow> bytes result" where
  "address_to_pubkey_hash b address =
     rbind (or_err (from_check b address) (Anyhow ''base58check'')) (\<lambda>(version, payload).
       if length payload = 20 then Inr payload else bail (Anyhow ''Invalid payload length''))"

definition pubkey_to_anon_address :: "base58 \<Rightarrow> bytes \<Rightarrow> string" where
  "pubkey_to_anon_address b pubkey = to_base58check b ([1] @ pubkey)"

definition address_to_anon_pubkey :: "base58 \<Rightarrow> (bytes \<Rightarrow> 'k option) \<Rightarrow> string \<Rightarrow> 'k result" where
  "address_to_anon_pubkey b parse_pub addr =
     rbind (or_err (from_check b addr) (Anyhow ''base58check'')) (\<lambda>(version, payload).
       if version \<noteq> 1 \<or> length payload \<noteq> 32 then bail (Anyhow ''Not a valid anonymous address'')
       else or_err (parse_pub payload) MoneroSerai)"

text \<open>Addresses decode to what they were made from, and the two kinds never mix: the transparent
  decoder rejects every anonymous address and the anonymous decoder every transparent one.\<close>

theorem address_roundtrip:
  assumes "crypto_ok c" "base58_ok b" "length apub = 32" "parse_pub apub = Some k"
  shows "address_to_pubkey_hash b (pubkey_to_address c b pk) = Inr (hash160 c pk) \<and>
    address_to_anon_pubkey b parse_pub (pubkey_to_anon_address b apub) = Inr k \<and>
    address_to_pubkey_hash b (pubkey_to_anon_address b apub) = bail (Anyhow ''Invalid payload length'') \<and>
    address_to_anon_pubkey b parse_pub (pubkey_to_address c b pk) =
      bail (Anyhow ''Not a valid anonymous address'')"
  using assms
  by (simp add: address_to_pubkey_hash_def pubkey_to_address_def base58_ok_def
      address_to_anon_pubkey_def pubkey_to_anon_address_def)

definition demo_crypto :: crypto where
  "demo_crypto = \<lparr>sha256 = (\<lambda>d. be_bytes 32 (nat_of_be d + 1)), ripemd160 = (\<lambda>d. be_bytes 20 (nat_of_be d)),
     randomx = (\<lambda>d. Some (be_bytes 32 (nat_of_be d)))\<rparr>"

definition demo_base58 :: base58 where
  "demo_base58 = \<lparr>to_base58check = map (\<lambda>w. char_of (unat w)),
     from_check = (\<lambda>s. case s of [] \<Rightarrow> None
       | ch # cs \<Rightarrow> Some (of_nat (of_char ch), map (\<lambda>ch. of_nat (of_char ch)) cs))\<rparr>"

lemma demo_crypto_ok [simp]: "crypto_ok demo_crypto"
  by (simp add: crypto_ok_def demo_crypto_def)

lemma demo_base58_ok [simp]: "base58_ok demo_base58"
proof -
  have "of_nat (of_char (char_of (unat (w :: u8)) :: char)) = w" for w :: u8
    by (simp add: unat_u8_less)
  then show ?thesis by (simp add: base58_ok_def demo_base58_def o_def)
qed

theorem address_roundtrip_witness:
  "address_to_pubkey_hash demo_base58 (pubkey_to_address demo_crypto demo_base58 [2, 7]) =
     Inr (hash160 demo_crypto [2, 7]) \<and>
   address_to_anon_pubkey demo_base58 Some (pubkey_to_anon_address demo_base58 (replicate 32 9)) =
     Inr (replicate 32 9) \<and>
   address_to_pubkey_hash demo_base58 (pubkey_to_anon_address demo_base58 (replicate 32 9)) =
     bail (Anyhow ''Invalid payload length'') \<and>
   address_to_anon_pubkey demo_base58 Some (pubkey_to_address demo_crypto demo_base58 [2, 7]) =
     bail (Anyhow ''Not a valid anonymous address'')"
  by (rule address_roundtrip) simp_all

section \<open>Secret files\<close>

record secret_file =
  st_uid :: u32
  st_mode :: u32
  st_size :: nat
  contents :: bytes

definition secure_load_file :: "u32 \<Rightarrow> secret_file option \<Rightarrow> bytes result" where
  "secure_load_file euid path =
     rbind (or_err path (Anyhow ''Unable to open the secret file'')) (\<lambda>file.
     rbind (bail_if (st_uid file \<noteq> euid) (FilePermissionError ''Wrong owner'')) (\<lambda>_.
     rbind (bail_if (st_mode file AND 63 \<noteq> 0) (FilePermissionError ''Permissions too broad'')) (\<lambda>_.
     rbind (bail_if (st_size file > 4096) (FilePermissionError ''Key file too large'')) (\<lambda>_.
     rbind (bail_if (length (contents file) < st_size file) (Anyhow ''Reading secret file'')) (\<lambda>_.
     Inr (take (st_size file) (contents file)))))))"

definition load_keypair :: "(bytes \<Rightarrow> 'k option) \<Rightarrow> u32 \<Rightarrow> secret_file option \<Rightarrow> 'k result" where
  "load_keypair parse_secret euid path =
     rbind (secure_load_file euid path) (\<lambda>bytes.
     rbind (bail_if (length bytes \<noteq> 32) InvalidEncryptionKey) (\<lambda>_.
     or_err (parse_secret bytes) (Anyhow ''Invalid secret key bytes'')))"

text \<open>A key pair is only ever loaded from a file of exactly 32 readable bytes that belongs to the
  running user and grants nothing to group or others, and the key is parsed from those bytes.\<close>

theorem load_keypair_secure:
  assumes "load_keypair parse_secret euid path = Inr k"
  shows "\<exists>file. path = Some file \<and> st_uid file = euid \<and> st_mode file AND 63 = 0 \<and>
    st_size file = 32 \<and> 32 \<le> length (contents file) \<and> parse_secret (take 32 (contents file)) = Some k"
  using assms by (auto simp: load_keypair_def secure_load_file_def result_simps min_def split: if_splits)

theorem load_keypair_secure_witness:
  "\<exists>file. Some \<lparr>st_uid = 7, st_mode = 0x8180, st_size = 32, contents = replicate 32 5\<rparr> = Some file \<and>
    st_uid file = 7 \<and> st_mode file AND 63 = 0 \<and> st_size file = 32 \<and> 32 \<le> length (contents file) \<and>
    Some (take 32 (contents file)) = Some (replicate 32 5)"
  by (rule load_keypair_secure [where parse_secret = Some])
    (simp add: load_keypair_def secure_load_file_def)

end
