(* ===== verification/Tx_Types.thy ===== *)
theory Tx_Types
  imports Keys
begin

text \<open>
  The data of \<^verbatim>\<open>tx.rs\<close> and the libraries the node calls.  \<^verbatim>\<open>bincode\<close>, ECDSA, CLSAG, the
  Ristretto group and the range proofs are the fields of \<open>codec\<close> and \<open>env\<close>.  Serialising an
  in-memory value with a derived \<^verbatim>\<open>Serialize\<close> does not fail, so \<open>ser_tx\<close> and its
  siblings are total; deserialising may fail, and \<open>bincode_ok\<close> is the documented round trip.
  The last section gives one concrete instance of the libraries, which shows that their laws can
  hold together.
\<close>

section \<open>Data\<close>

record txinput =
  in_txid :: hash256
  in_vout :: u32
  script_sig :: bytes
  in_sequence :: u32

record txoutput =
  out_value :: u64
  script_pubkey :: bytes
  commitment :: "bytes option"

record transaction =
  tx_version :: u32
  is_anonymous :: bool
  inputs :: "txinput list"
  outputs :: "txoutput list"
  lock_time :: u32
  range_proofs :: "bytes list"

record block_header =
  hdr_version :: u32
  prev_hash :: hash256
  merkle_root :: hash256
  timestamp :: u32
  hdr_bits :: u32
  nonce :: u64

record block =
  header :: block_header
  txs :: "transaction list"

type_synonym outpoint = "hash256 \<times> u32"

abbreviation outpoint :: "txinput \<Rightarrow> outpoint" where
  "outpoint vin \<equiv> (in_txid vin, in_vout vin)"

section \<open>Libraries\<close>

record codec = crypto +
  ser_tx :: "transaction \<Rightarrow> bytes"
  de_tx :: "bytes \<Rightarrow> transaction option"
  ser_output :: "txoutput \<Rightarrow> bytes"
  de_output :: "bytes \<Rightarrow> txoutput option"
  ser_header :: "block_header \<Rightarrow> bytes"
  de_header :: "bytes \<Rightarrow> block_header option"
  ser_block :: "block \<Rightarrow> bytes"
  de_block :: "bytes \<Rightarrow> block option"
  ser_index :: "usize \<times> usize \<Rightarrow> bytes"
  de_index :: "bytes \<Rightarrow> (usize \<times> usize) option"

definition bincode_ok :: "'a codec_scheme \<Rightarrow> bool" where
  "bincode_ok e \<longleftrightarrow>
     (\<forall>x. de_tx e (ser_tx e x) = Some x) \<and> (\<forall>x. de_output e (ser_output e x) = Some x) \<and>
     (\<forall>x. de_header e (ser_header e x) = Some x) \<and> (\<forall>x. de_block e (ser_block e x) = Some x) \<and>
     (\<forall>x. de_index e (ser_index e x) = Some x)"

record 'p env = codec +
  der_ok :: "bytes \<Rightarrow> bool"
  pubkey_ok :: "bytes \<Rightarrow> bool"
  verify_ecdsa :: "hash256 \<Rightarrow> bytes \<Rightarrow> bytes \<Rightarrow> bool"
  key_image_ok :: "bytes \<Rightarrow> bool"
  clsag_ring :: "bytes \<Rightarrow> nat option"
  clsag_verify :: "bytes \<Rightarrow> hash256 \<Rightarrow> bytes \<Rightarrow> bool"
  decompress :: "bytes \<Rightarrow> 'p option"
  pedersen :: "u64 \<Rightarrow> 'p"
  proof_ok :: "bytes \<Rightarrow> bool"
  proofs_verify :: "(bytes \<times> 'p \<times> u64) list \<Rightarrow> bool option"

section \<open>A concrete instance of the libraries\<close>

definition get_fixed :: "nat \<Rightarrow> (bytes \<Rightarrow> 'a) \<Rightarrow> bytes \<Rightarrow> ('a \<times> bytes) option" where
  "get_fixed n dec bs = (if length bs < n then None else Some (dec (take n bs), drop n bs))"

definition put_list :: "('a \<Rightarrow> bytes) \<Rightarrow> 'a list \<Rightarrow> bytes" where
  "put_list put xs = concat (map (\<lambda>x. 1 # put x) xs) @ [0]"

fun get_list :: "nat \<Rightarrow> (bytes \<Rightarrow> ('a \<times> bytes) option) \<Rightarrow> bytes \<Rightarrow> ('a list \<times> bytes) option" where
  "get_list (Suc n) get (b # bs) =
     (if b = 0 then Some ([], bs)
      else Option.bind (get bs) (\<lambda>(x, r). map_option (map_prod (Cons x) id) (get_list n get r)))"
| "get_list _ get _ = None"

definition get_all :: "(bytes \<Rightarrow> ('a \<times> bytes) option) \<Rightarrow> bytes \<Rightarrow> ('a list \<times> bytes) option" where
  "get_all get bs = get_list (length bs) get bs"

lemma put_list_Nil [simp]: "put_list put [] = [0]"
  by (simp add: put_list_def)

lemma put_list_Cons: "put_list put (x # xs) = 1 # put x @ put_list put xs"
  by (simp add: put_list_def)

lemma get_list_put_list:
  assumes "\<And>x r. get (put x @ r) = Some (x, r)"
  shows "length xs < n \<Longrightarrow> get_list n get (put_list put xs @ r) = Some (xs, r)"
proof (induction xs arbitrary: n)
  case Nil
  then show ?case by (cases n) (simp_all add: put_list_def)
next
  case (Cons x xs)
  then obtain m where n: "n = Suc m" "length xs < m" by (cases n) auto
  have "put_list put (x # xs) = 1 # put x @ put_list put xs" by (simp add: put_list_def)
  with Cons.IH [OF n(2)] n(1) assms show ?case by simp
qed

lemma length_put_list: "length xs < length (put_list put xs @ r)"
  by (induction xs) (auto simp: put_list_def)

lemma get_all_put_list [codec_simps]:
  "(\<And>x r. get (put x @ r) = Some (x, r)) \<Longrightarrow> get_all get (put_list put xs @ r) = Some (xs, r)"
  unfolding get_all_def by (rule get_list_put_list [OF _ length_put_list])

abbreviation put_bytes :: "bytes \<Rightarrow> bytes" where "put_bytes \<equiv> put_list (\<lambda>b. [b])"
definition get_bytes :: "bytes \<Rightarrow> (bytes \<times> bytes) option" where "get_bytes = get_all (get_fixed 1 hd)"
abbreviation get_u32 :: "bytes \<Rightarrow> (u32 \<times> bytes) option" where "get_u32 \<equiv> get_fixed 4 u32_from_le"
abbreviation get_u64 :: "bytes \<Rightarrow> (u64 \<times> bytes) option" where "get_u64 \<equiv> get_fixed 8 u64_from_le"

lemma get_u32_put [codec_simps]: "get_u32 (u32_le w @ r) = Some (w, r)"
  by (simp add: get_fixed_def)

lemma get_u64_put [codec_simps]: "get_u64 (u64_le w @ r) = Some (w, r)"
  by (simp add: get_fixed_def)

lemma length_put_bytes [simp]: "length (put_bytes bs) = 2 * length bs + 1"
  by (induction bs) (auto simp: put_list_def)

lemma get_bytes_put [codec_simps]: "get_bytes (put_bytes bs @ r) = Some (bs, r)"
  unfolding get_bytes_def by (rule get_all_put_list) (simp add: get_fixed_def)

definition put_input :: "txinput \<Rightarrow> bytes" where
  "put_input i = put_bytes (in_txid i) @ u32_le (in_vout i) @ put_bytes (script_sig i) @ u32_le (in_sequence i)"

definition get_input :: "bytes \<Rightarrow> (txinput \<times> bytes) option" where
  "get_input bs =
     Option.bind (get_bytes bs) (\<lambda>(t, bs). Option.bind (get_u32 bs) (\<lambda>(v, bs).
     Option.bind (get_bytes bs) (\<lambda>(s, bs). Option.bind (get_u32 bs) (\<lambda>(q, bs).
       Some (\<lparr>in_txid = t, in_vout = v, script_sig = s, in_sequence = q\<rparr>, bs)))))"

definition put_output :: "txoutput \<Rightarrow> bytes" where
  "put_output o' = u64_le (out_value o') @ put_bytes (script_pubkey o') @
     put_list put_bytes (case commitment o' of None \<Rightarrow> [] | Some c \<Rightarrow> [c])"

definition get_output :: "bytes \<Rightarrow> (txoutput \<times> bytes) option" where
  "get_output bs =
     Option.bind (get_u64 bs) (\<lambda>(v, bs). Option.bind (get_bytes bs) (\<lambda>(s, bs).
     Option.bind (get_all get_bytes bs) (\<lambda>(c, bs).
       Some (\<lparr>out_value = v, script_pubkey = s, commitment = (case c of [] \<Rightarrow> None | b # _ \<Rightarrow> Some b)\<rparr>, bs))))"

definition put_tx :: "transaction \<Rightarrow> bytes" where
  "put_tx t = u32_le (tx_version t) @ u32_le (if is_anonymous t then 1 else 0) @ put_list put_input (inputs t) @
     put_list put_output (outputs t) @ u32_le (lock_time t) @ put_list put_bytes (range_proofs t)"

definition get_tx :: "bytes \<Rightarrow> (transaction \<times> bytes) option" where
  "get_tx bs =
     Option.bind (get_u32 bs) (\<lambda>(v, bs). Option.bind (get_u32 bs) (\<lambda>(a, bs).
     Option.bind (get_all get_input bs) (\<lambda>(i, bs). Option.bind (get_all get_output bs) (\<lambda>(o', bs).
     Option.bind (get_u32 bs) (\<lambda>(l, bs). Option.bind (get_all get_bytes bs) (\<lambda>(p, bs).
       Some (\<lparr>tx_version = v, is_anonymous = (a = 1), inputs = i, outputs = o', lock_time = l, range_proofs = p\<rparr>, bs)))))))"

definition put_header :: "block_header \<Rightarrow> bytes" where
  "put_header h = u32_le (hdr_version h) @ put_bytes (prev_hash h) @ put_bytes (merkle_root h) @
     u32_le (timestamp h) @ u32_le (hdr_bits h) @ u64_le (nonce h)"

definition get_header :: "bytes \<Rightarrow> (block_header \<times> bytes) option" where
  "get_header bs =
     Option.bind (get_u32 bs) (\<lambda>(v, bs). Option.bind (get_bytes bs) (\<lambda>(p, bs).
     Option.bind (get_bytes bs) (\<lambda>(m, bs). Option.bind (get_u32 bs) (\<lambda>(t, bs).
     Option.bind (get_u32 bs) (\<lambda>(b, bs). Option.bind (get_u64 bs) (\<lambda>(n, bs).
       Some (\<lparr>hdr_version = v, prev_hash = p, merkle_root = m, timestamp = t, hdr_bits = b, nonce = n\<rparr>, bs)))))))"

lemma get_input_put [codec_simps]: "get_input (put_input i @ r) = Some (i, r)"
  by (simp add: put_input_def get_input_def codec_simps)

lemma get_output_put [codec_simps]: "get_output (put_output o' @ r) = Some (o', r)"
  by (simp add: put_output_def get_output_def codec_simps split: option.splits)

lemma get_tx_put [codec_simps]: "get_tx (put_tx t @ r) = Some (t, r)"
  by (simp add: put_tx_def get_tx_def codec_simps)

lemma get_header_put [codec_simps]: "get_header (put_header h @ r) = Some (h, r)"
  by (simp add: put_header_def get_header_def codec_simps)

definition demo_env :: "int env" where
  "demo_env =
     \<lparr>sha256 = sha256 demo_crypto, ripemd160 = ripemd160 demo_crypto, randomx = randomx demo_crypto,
      ser_tx = put_tx, de_tx = map_option fst \<circ> get_tx,
      ser_output = put_output, de_output = map_option fst \<circ> get_output,
      ser_header = put_header, de_header = map_option fst \<circ> get_header,
      ser_block = (\<lambda>b. put_header (header b) @ put_list put_tx (txs b)),
      de_block = (\<lambda>bs. Option.bind (get_header bs) (\<lambda>(h, bs).
        map_option (\<lambda>(ts, _). \<lparr>header = h, txs = ts\<rparr>) (get_all get_tx bs))),
      ser_index = (\<lambda>(h, i). u64_le h @ u64_le i),
      de_index = (\<lambda>bs. Option.bind (get_u64 bs) (\<lambda>(h, bs). map_option (\<lambda>(i, _). (h, i)) (get_u64 bs))),
      der_ok = (\<lambda>s. s \<noteq> []), pubkey_ok = (\<lambda>pk. length pk = 33),
      verify_ecdsa = (\<lambda>msg sig pk. sig = take 6 pk),
      key_image_ok = (\<lambda>ki. length ki = 32), clsag_ring = (\<lambda>d. Some (length d)),
      clsag_verify = (\<lambda>d msg ki. True), decompress = (\<lambda>bs. Some (int (nat_of_be bs))),
      pedersen = (\<lambda>v. int (unat v)), proof_ok = (\<lambda>_. True),
      proofs_verify = (\<lambda>ps. Some (\<forall>(p, c, v)\<in>set ps. c = int (unat v)))\<rparr>"

lemma demo_env_crypto_ok [simp]: "crypto_ok demo_env"
  by (simp add: crypto_ok_def demo_env_def demo_crypto_def)

lemma demo_env_checks [simp]:
  "der_ok demo_env s \<longleftrightarrow> s \<noteq> []" "pubkey_ok demo_env pk \<longleftrightarrow> length pk = 33"
  "verify_ecdsa demo_env msg s pk \<longleftrightarrow> s = take 6 pk"
  by (simp_all add: demo_env_def)

lemma demo_env_bincode_ok [simp]: "bincode_ok demo_env"
proof -
  have "get_u64 (u64_le w) = Some (w, [])" for w
    using get_u64_put [of w "[]"] by simp
  moreover have "get_all get_tx (put_list put_tx ts) = Some (ts, [])" for ts
    using get_all_put_list [of get_tx put_tx ts "[]"] by (simp add: codec_simps)
  ultimately show ?thesis
    using get_tx_put [of _ "[]"] get_output_put [of _ "[]"] get_header_put [of _ "[]"]
    by (simp add: bincode_ok_def demo_env_def codec_simps)
qed

end
