(* ===== verification/Store.thy ===== *)
theory Store
  imports Errors "HOL-Library.List_Lexorder" "HOL-Library.Sublist"
begin

text \<open>
  The RocksDB database as the node uses it (\<^verbatim>\<open>db.rs\<close> and every database access of
  \<^verbatim>\<open>chain.rs\<close>): named column families, each an ordered table of byte strings; point
  reads, prefix iteration in key order, and write batches that are applied in order and as a
  whole.  The contract the node relies on is the locale \<open>kv_store\<close>; the ordered tables and
  the database meet it.
\<close>

section \<open>Key-value contract\<close>

datatype 'k op = Put 'k bytes | Delete 'k

fun run_op :: "('k \<Rightarrow> bytes \<Rightarrow> 'd \<Rightarrow> 'd) \<Rightarrow> ('k \<Rightarrow> 'd \<Rightarrow> 'd) \<Rightarrow> 'k op \<Rightarrow> 'd \<Rightarrow> 'd" where
  "run_op put del (Put k v) d = put k v d"
| "run_op put del (Delete k) d = del k d"

definition run_batch :: "('k \<Rightarrow> bytes \<Rightarrow> 'd \<Rightarrow> 'd) \<Rightarrow> ('k \<Rightarrow> 'd \<Rightarrow> 'd) \<Rightarrow> 'k op list \<Rightarrow> 'd \<Rightarrow> 'd" where
  "run_batch put del ops d = fold (run_op put del) ops d"

text \<open>The last write of a batch to a key, if it writes the key.\<close>

fun op_effect :: "'k \<Rightarrow> 'k op \<Rightarrow> bytes option option \<Rightarrow> bytes option option" where
  "op_effect k (Put k' v) e = (if k' = k then Some (Some v) else e)"
| "op_effect k (Delete k') e = (if k' = k then Some None else e)"

definition batch_effect :: "'k op list \<Rightarrow> 'k \<Rightarrow> bytes option option" where
  "batch_effect ops k = fold (op_effect k) ops None"

fun op_key :: "'k op \<Rightarrow> 'k" where
  "op_key (Put k v) = k"
| "op_key (Delete k) = k"

lemma fold_op_effect:
  "fold (op_effect k) ops e = (case batch_effect ops k of None \<Rightarrow> e | Some v \<Rightarrow> Some v)"
proof (induction ops rule: rev_induct)
  case (snoc x ops)
  then show ?case by (cases x) (auto simp: batch_effect_def)
qed (simp add: batch_effect_def)

lemma batch_effect_Nil [simp]: "batch_effect [] k = None"
  by (simp add: batch_effect_def)

lemma batch_effect_append:
  "batch_effect (xs @ ys) k = (case batch_effect ys k of None \<Rightarrow> batch_effect xs k | Some v \<Rightarrow> Some v)"
proof -
  have "batch_effect (xs @ ys) k = fold (op_effect k) ys (batch_effect xs k)"
    by (simp add: batch_effect_def)
  then show ?thesis by (simp only: fold_op_effect)
qed

lemma batch_effect_Cons:
  "batch_effect (x # xs) k = (case batch_effect xs k of None \<Rightarrow> op_effect k x None | Some v \<Rightarrow> Some v)"
proof -
  have "batch_effect [x] k = op_effect k x None" by (simp add: batch_effect_def)
  then show ?thesis using batch_effect_append [of "[x]" xs k] by (cases "batch_effect xs k") simp_all
qed

lemma op_effect_None_iff: "op_effect k x None = None \<longleftrightarrow> op_key x \<noteq> k"
  by (cases x) auto

lemma batch_effect_None_iff: "batch_effect ops k = None \<longleftrightarrow> k \<notin> op_key ` set ops"
  by (induction ops) (auto simp: batch_effect_Cons op_effect_None_iff split: option.splits)

locale kv_store =
  fixes lookup :: "'d \<Rightarrow> 'k \<Rightarrow> bytes option"
    and put :: "'k \<Rightarrow> bytes \<Rightarrow> 'd \<Rightarrow> 'd"
    and del :: "'k \<Rightarrow> 'd \<Rightarrow> 'd"
    and invar :: "'d \<Rightarrow> bool"
  assumes lookup_put: "invar d \<Longrightarrow> lookup (put k v d) k' = (if k' = k then Some v else lookup d k')"
    and lookup_del: "invar d \<Longrightarrow> lookup (del k d) k' = (if k' = k then None else lookup d k')"
    and invar_put: "invar d \<Longrightarrow> invar (put k v d)"
    and invar_del: "invar d \<Longrightarrow> invar (del k d)"
begin

lemma run_op_ok:
  "invar d \<Longrightarrow> invar (run_op put del x d) \<and>
    lookup (run_op put del x d) k = (case op_effect k x None of None \<Rightarrow> lookup d k | Some v \<Rightarrow> v)"
  by (cases x) (auto simp: lookup_put lookup_del invar_put invar_del)

lemma run_batch_ok:
  "invar d \<Longrightarrow> invar (run_batch put del ops d) \<and>
    lookup (run_batch put del ops d) k = (case batch_effect ops k of None \<Rightarrow> lookup d k | Some v \<Rightarrow> v)"
proof (induction ops arbitrary: d)
  case (Cons x ops)
  let ?d = "run_op put del x d"
  have step: "invar ?d" "lookup ?d k = (case op_effect k x None of None \<Rightarrow> lookup d k | Some v \<Rightarrow> v)"
    using run_op_ok [OF Cons.prems] by auto
  have "run_batch put del (x # ops) d = run_batch put del ops ?d" by (simp add: run_batch_def)
  then show ?case
    using Cons.IH [OF step(1)] step(2) by (simp add: batch_effect_Cons split: option.splits)
qed (simp add: run_batch_def)

lemmas invar_run_batch = run_batch_ok [THEN conjunct1]
  and lookup_run_batch = run_batch_ok [THEN conjunct2]

lemma lookup_run_batch_frame:
  assumes "invar d" "k \<notin> op_key ` set ops"
  shows "lookup (run_batch put del ops d) k = lookup d k"
  using lookup_run_batch [OF assms(1), of ops k] assms(2) by (simp add: batch_effect_None_iff [THEN iffD2])

end

section \<open>Ordered tables\<close>

type_synonym table = "(bytes \<times> bytes) list"

definition tbl_ok :: "table \<Rightarrow> bool" where
  "tbl_ok t = sorted_wrt (<) (map fst t)"

definition tbl_get :: "table \<Rightarrow> bytes \<Rightarrow> bytes option" where
  "tbl_get t k = map_of t k"

fun tbl_put :: "bytes \<Rightarrow> bytes \<Rightarrow> table \<Rightarrow> table" where
  "tbl_put k v [] = [(k, v)]"
| "tbl_put k v ((k', v') # t) =
     (if k < k' then (k, v) # (k', v') # t
      else if k = k' then (k, v) # t
      else (k', v') # tbl_put k v t)"

definition tbl_del :: "bytes \<Rightarrow> table \<Rightarrow> table" where
  "tbl_del k t = filter (\<lambda>(k', _). k' \<noteq> k) t"

text \<open>\<^verbatim>\<open>IteratorMode::From(prefix, Forward)\<close>, broken off at the first key without the prefix.\<close>

definition prefix_scan :: "table \<Rightarrow> bytes \<Rightarrow> table" where
  "prefix_scan t p = takeWhile (\<lambda>(k, _). prefix p k) (dropWhile (\<lambda>(k, _). k < p) t)"

lemma set_tbl_put: "fst ` set (tbl_put k v t) = insert k (fst ` set t)"
  by (induction k v t rule: tbl_put.induct) auto

lemma tbl_ok_put: "tbl_ok t \<Longrightarrow> tbl_ok (tbl_put k v t)"
proof (induction k v t rule: tbl_put.induct)
  case (2 k v k' v' t)
  have "\<forall>x\<in>fst ` set (tbl_put k v t). k' < x" if "\<not> k < k'" "k \<noteq> k'"
    using 2(2) that by (auto simp: set_tbl_put tbl_ok_def)
  with 2 show ?case by (auto simp: tbl_ok_def)
qed (simp add: tbl_ok_def)

lemma tbl_ok_del: "tbl_ok t \<Longrightarrow> tbl_ok (tbl_del k t)"
  by (auto simp: tbl_ok_def tbl_del_def sorted_wrt_map intro: sorted_wrt_filter)

lemma tbl_get_put: "tbl_ok t \<Longrightarrow> tbl_get (tbl_put k v t) k' = (if k' = k then Some v else tbl_get t k')"
  by (induction k v t rule: tbl_put.induct) (auto simp: tbl_get_def tbl_ok_def)

lemma tbl_get_del: "tbl_get (tbl_del k t) k' = (if k' = k then None else tbl_get t k')"
  by (induction t) (auto simp: tbl_get_def tbl_del_def)

interpretation tbl: kv_store tbl_get tbl_put tbl_del tbl_ok
  by unfold_locales (simp_all add: tbl_get_put tbl_get_del tbl_ok_put tbl_ok_del)

lemma tbl_get_iff: "tbl_ok t \<Longrightarrow> tbl_get t k = Some v \<longleftrightarrow> (k, v) \<in> set t"
proof -
  assume "tbl_ok t"
  then have "distinct (map fst t)" by (simp add: tbl_ok_def strict_sorted_iff)
  then show ?thesis by (simp add: tbl_get_def)
qed

lemma list_le_append_self: "p \<le> p @ (z :: bytes)"
  by (induction p) auto

lemma prefix_imp_le: "prefix p k \<Longrightarrow> p \<le> (k :: bytes)"
  by (auto elim!: prefixE simp: list_le_append_self)

lemma prefix_convex: "p \<le> k \<Longrightarrow> k \<le> k' \<Longrightarrow> prefix p k' \<Longrightarrow> prefix p (k :: bytes)"
proof (induction p arbitrary: k k')
  case (Cons a p)
  then obtain b l where k: "k = b # l" by (cases k) auto
  obtain l' where k': "k' = a # l'" "prefix p l'" using Cons.prems(3) by (cases k') auto
  have "a = b" "p \<le> l" "l \<le> l'" using Cons.prems(1,2) by (auto simp: k k')
  with Cons.IH k'(2) show ?case by (auto simp: k)
qed simp

lemma takeWhile_prefix:
  assumes "tbl_ok t" "\<forall>(k, v)\<in>set t. p \<le> k"
  shows "takeWhile (\<lambda>(k, _). prefix p k) t = filter (\<lambda>(k, _). prefix p k) t"
  using assms
proof (induction t)
  case (Cons x t)
  obtain k v where x: "x = (k, v)" by (cases x)
  show ?case
  proof (cases "prefix p k")
    case True
    with Cons show ?thesis by (simp add: x tbl_ok_def)
  next
    case False
    have "\<not> prefix p k'" if "(k', v') \<in> set t" for k' v'
    proof
      assume "prefix p k'"
      moreover have "k \<le> k'" using Cons.prems(1) that by (force simp: x tbl_ok_def)
      ultimately show False using False Cons.prems(2) x prefix_convex by fastforce
    qed
    then have "filter (\<lambda>(k, _). prefix p k) t = []" by (auto simp: filter_empty_conv)
    with False x show ?thesis by simp
  qed
qed simp

lemma prefix_scan_eq: "tbl_ok t \<Longrightarrow> prefix_scan t p = filter (\<lambda>(k, _). prefix p k) t"
proof (induction t)
  case (Cons x t)
  obtain k v where x: "x = (k, v)" by (cases x)
  from Cons.prems have ok: "tbl_ok t" by (simp add: tbl_ok_def)
  show ?case
  proof (cases "k < p")
    case True
    then have "\<not> prefix p k" using prefix_imp_le by fastforce
    with Cons.IH [OF ok] True show ?thesis by (simp add: x prefix_scan_def)
  next
    case False
    then have "prefix_scan (x # t) p = takeWhile (\<lambda>(k, _). prefix p k) (x # t)"
      by (simp add: x prefix_scan_def)
    moreover have "\<forall>(k, v)\<in>set (x # t). p \<le> k"
      using False Cons.prems by (force simp: x tbl_ok_def)
    ultimately show ?thesis using takeWhile_prefix Cons.prems by metis
  qed
qed (simp add: prefix_scan_def)

lemma prefix_scan_put:
  assumes "tbl_ok t" "prefix_scan t p = []" "prefix p k"
  shows "prefix_scan (tbl_put k v t) p = [(k, v)]"
proof -
  have "filter (\<lambda>(k, _). prefix p k) (tbl_put k v t) = [(k, v)]"
    if "filter (\<lambda>(k, _). prefix p k) t = []" "prefix p k" for t
    using that by (induction k v t rule: tbl_put.induct) (auto split: if_splits)
  with assms show ?thesis by (simp add: prefix_scan_eq tbl_ok_put)
qed

lemma prefix_scan_put_other: "tbl_ok t \<Longrightarrow> \<not> prefix p k \<Longrightarrow> prefix_scan (tbl_put k v t) p = prefix_scan t p"
proof -
  have "\<not> prefix p k \<Longrightarrow> filter (\<lambda>(k, _). prefix p k) (tbl_put k v t) = filter (\<lambda>(k, _). prefix p k) t"
    by (induction k v t rule: tbl_put.induct) auto
  then show "tbl_ok t \<Longrightarrow> \<not> prefix p k \<Longrightarrow> prefix_scan (tbl_put k v t) p = prefix_scan t p"
    by (simp add: prefix_scan_eq tbl_ok_put)
qed

lemma prefix_scan_del_other: "tbl_ok t \<Longrightarrow> \<not> prefix p k \<Longrightarrow> prefix_scan (tbl_del k t) p = prefix_scan t p"
  by (auto simp: prefix_scan_eq tbl_ok_del) (auto simp: tbl_del_def intro!: filter_cong)

section \<open>The database\<close>

record rocksdb =
  cfs :: "string list"
  tables :: "string \<Rightarrow> table"

type_synonym dbkey = "string \<times> bytes"
type_synonym write_batch = "dbkey op list"

abbreviation default_cf :: string where "default_cf \<equiv> ''default''"

definition db_ok :: "rocksdb \<Rightarrow> bool" where
  "db_ok d \<longleftrightarrow> (\<forall>cf. tbl_ok (tables d cf))"

definition cf_handle :: "rocksdb \<Rightarrow> string \<Rightarrow> string option" where
  "cf_handle d name = (if name \<in> set (cfs d) then Some name else None)"

definition db_get :: "rocksdb \<Rightarrow> dbkey \<Rightarrow> bytes option" where
  "db_get d k = tbl_get (tables d (fst k)) (snd k)"

definition db_put :: "dbkey \<Rightarrow> bytes \<Rightarrow> rocksdb \<Rightarrow> rocksdb" where
  "db_put k v d = d\<lparr>tables := (tables d)(fst k := tbl_put (snd k) v (tables d (fst k)))\<rparr>"

definition db_del :: "dbkey \<Rightarrow> rocksdb \<Rightarrow> rocksdb" where
  "db_del k d = d\<lparr>tables := (tables d)(fst k := tbl_del (snd k) (tables d (fst k)))\<rparr>"

definition db_write :: "write_batch \<Rightarrow> rocksdb \<Rightarrow> rocksdb" where
  "db_write = run_batch db_put db_del"

interpretation rdb: kv_store db_get db_put db_del db_ok
  by unfold_locales
    (auto simp: db_get_def db_put_def db_del_def db_ok_def tbl_get_put tbl_get_del tbl_ok_put tbl_ok_del
      prod_eq_iff)

lemmas db_ok_write = rdb.invar_run_batch [folded db_write_def]
  and db_get_write = rdb.lookup_run_batch [folded db_write_def]
  and db_get_write_frame = rdb.lookup_run_batch_frame [folded db_write_def]
  and db_get_put = rdb.lookup_put
  and db_get_del = rdb.lookup_del

lemma cfs_db_write [simp]: "cfs (db_write ops d) = cfs d"
proof -
  have "cfs (run_op db_put db_del x d) = cfs d" for x d
    by (cases x) (simp_all add: db_put_def db_del_def)
  then have "cfs (fold (run_op db_put db_del) ops d) = cfs d"
    by (induction ops arbitrary: d) auto
  then show ?thesis by (simp add: db_write_def run_batch_def)
qed

lemma prefix_scan_write:
  assumes "db_ok d" "\<forall>x\<in>set ops. fst (op_key x) = cf \<longrightarrow> \<not> prefix p (snd (op_key x))"
  shows "prefix_scan (tables (db_write ops d) cf) p = prefix_scan (tables d cf) p"
  using assms
proof (induction ops arbitrary: d)
  case (Cons x ops)
  have step: "prefix_scan (tables (run_op db_put db_del x d) cf) p = prefix_scan (tables d cf) p \<and> db_ok (run_op db_put db_del x d)"
    using Cons.prems by (cases x) (auto simp: db_put_def db_del_def db_ok_def prefix_scan_put_other prefix_scan_del_other tbl_ok_put tbl_ok_del)
  with Cons show ?case by (simp add: db_write_def run_batch_def)
qed (simp add: db_write_def run_batch_def)

lemma db_write_append: "db_write (xs @ ys) d = db_write ys (db_write xs d)"
  by (simp add: db_write_def run_batch_def)

section \<open>Opening the database\<close>

text \<open>
  \<^verbatim>\<open>RocksManager::create\<close>: RocksDB opens the default column family and the listed ones,
  creates those that are missing, and refuses to open a database that has others.
\<close>

definition manager_cfs :: "string list" where
  "manager_cfs = [''utxo'', ''blocks'', ''headers'', ''metadata'']"

definition manager_create :: "rocksdb \<Rightarrow> rocksdb result" where
  "manager_create disk =
     (if set (cfs disk) \<subseteq> set (default_cf # manager_cfs) then Inr (disk\<lparr>cfs := default_cf # manager_cfs\<rparr>)
      else bail (Anyhow ''Column families not opened''))"

end
