(* ===== verification/Tx.thy ===== *)
theory Tx
  imports Tx_Types Store
begin

text \<open>
  \<^verbatim>\<open>tx.rs\<close>: hashing, Merkle roots, script checks, the validation of transactions and the
  construction of the coinbase and genesis transactions.  A pooled database connection is always
  obtained.
\<close>

section \<open>Hashes, signature hashes, fees\<close>

definition tx_hash :: "'a codec_scheme \<Rightarrow> transaction \<Rightarrow> hash256" where
  "tx_hash e tx = sha256d e (ser_tx e tx)"

text \<open>
  The memoised hash that \<^verbatim>\<open>Transaction::hash\<close> computes: \<open>evict\<close> is what the
  bounded cache drops to make room.
\<close>

definition tx_hash_cached ::
  "'a codec_scheme \<Rightarrow> ((bytes \<rightharpoonup> hash256) \<Rightarrow> (bytes \<rightharpoonup> hash256)) \<Rightarrow> (bytes \<rightharpoonup> hash256) \<Rightarrow> transaction \<Rightarrow>
     hash256 \<times> (bytes \<rightharpoonup> hash256)" where
  "tx_hash_cached e evict cache tx =
     (let serialized = ser_tx e tx
      in case cache serialized of
           Some cached \<Rightarrow> (cached, cache)
         | None \<Rightarrow>
             let hashed = sha256d e serialized
             in (hashed, (evict cache)(serialized \<mapsto> hashed)))"

definition clear_script_sigs :: "transaction \<Rightarrow> transaction" where
  "clear_script_sigs tx = tx\<lparr>inputs := map (script_sig_update (\<lambda>_. [])) (inputs tx)\<rparr>"

definition sighash :: "'a codec_scheme \<Rightarrow> transaction \<Rightarrow> nat \<Rightarrow> bytes \<Rightarrow> u32 \<Rightarrow> hash256 result" where
  "sighash e tx input_idx spk sighash_type =
     (let tx_copy = clear_script_sigs tx
      in if input_idx < length (inputs tx_copy)
         then
           let vin = (inputs tx_copy ! input_idx)\<lparr>script_sig := spk\<rparr>;
               tx_copy = tx_copy\<lparr>inputs := (inputs tx_copy)[input_idx := vin]\<rparr>
           in Inr (sha256d e (ser_tx e tx_copy @ u32_le sighash_type))
         else Inl Panic)"

definition is_coinbase :: "transaction \<Rightarrow> bool" where
  "is_coinbase tx \<longleftrightarrow> (case inputs tx of
     [vin] \<Rightarrow> in_txid vin = zero_hash \<and> in_vout vin = u32_max
   | _ \<Rightarrow> False)"

definition tx_size :: "'a codec_scheme \<Rightarrow> transaction \<Rightarrow> nat" where
  "tx_size e tx = length (ser_tx e tx)"

text \<open>\<^verbatim>\<open>Transaction::fee\<close>: an overflowing sum ends the function with fee 0.\<close>

definition fee :: "transaction \<Rightarrow> (outpoint \<rightharpoonup> txoutput) \<Rightarrow> u64" where
  "fee tx outs =
     (case checked_sum (map (\<lambda>vin. case outs (outpoint vin) of Some o' \<Rightarrow> out_value o' | None \<Rightarrow> 0) (inputs tx)) of
        None \<Rightarrow> 0
      | Some input_sum \<Rightarrow>
          (case checked_sum (map out_value (outputs tx)) of
             None \<Rightarrow> 0
           | Some output_sum \<Rightarrow> saturating_sub input_sum output_sum))"

definition create_prefix_hash :: "'a codec_scheme \<Rightarrow> transaction \<Rightarrow> hash256" where
  "create_prefix_hash e tx = sha256d e (ser_tx e ((clear_script_sigs tx)\<lparr>range_proofs := []\<rparr>))"

definition header_hash :: "'a codec_scheme \<Rightarrow> block_header \<Rightarrow> hash256 result" where
  "header_hash e h = pow_hash e (ser_header e h)"

definition block_size :: "'a codec_scheme \<Rightarrow> block \<Rightarrow> nat" where
  "block_size e b = length (ser_block e b)"

section \<open>Merkle roots\<close>

fun merkle_pairs :: "'a crypto_scheme \<Rightarrow> hash256 list \<Rightarrow> hash256 list" where
  "merkle_pairs c (a # b # hs) = sha256d c (a @ b) # merkle_pairs c hs"
| "merkle_pairs c _ = []"

definition merkle_level :: "'a crypto_scheme \<Rightarrow> hash256 list \<Rightarrow> hash256 list" where
  "merkle_level c hs = merkle_pairs c (if odd (length hs) then hs @ [last hs] else hs)"

lemma length_merkle_pairs: "length (merkle_pairs c hs) = length hs div 2"
  by (induction c hs rule: merkle_pairs.induct) auto

lemma length_merkle_level: "length (merkle_level c hs) = (length hs + 1) div 2"
  by (auto simp: merkle_level_def length_merkle_pairs)

function merkle_loop :: "'a crypto_scheme \<Rightarrow> hash256 list \<Rightarrow> hash256 list" where
  "merkle_loop c hs = (if length hs > 1 then merkle_loop c (merkle_level c hs) else hs)"
  by pat_completeness auto
termination
  by (relation "measure (\<lambda>(c, hs). length hs)") (auto simp: length_merkle_level)

declare merkle_loop.simps [simp del]

definition compute_merkle_root :: "'a codec_scheme \<Rightarrow> transaction list \<Rightarrow> hash256" where
  "compute_merkle_root e ts =
     (let hashes = map (tx_hash e) ts
      in if hashes = [] then zero_hash else hd (merkle_loop e hashes))"

section \<open>Scripts\<close>

text \<open>\<^verbatim>\<open>xs[i]\<close> and \<^verbatim>\<open>&xs[a..b]\<close> panic out of range.\<close>

definition index :: "'a list \<Rightarrow> nat \<Rightarrow> 'a result" where
  "index xs i = (if i < length xs then Inr (xs ! i) else Inl Panic)"

definition slice :: "'a list \<Rightarrow> nat \<Rightarrow> nat \<Rightarrow> 'a list result" where
  "slice xs a b = (if a \<le> b \<and> b \<le> length xs then Inr (take (b - a) (drop a xs)) else Inl Panic)"

definition p2pkh_script :: "'a crypto_scheme \<Rightarrow> bytes \<Rightarrow> bytes" where
  "p2pkh_script c pubkey = [0x76, 0xa9, 0x14] @ hash160 c pubkey @ [0x88, 0xac]"

definition check_signature ::
  "('p, 'a) env_scheme \<Rightarrow> bytes \<Rightarrow> bytes \<Rightarrow> txoutput \<Rightarrow> transaction \<Rightarrow> nat \<Rightarrow> unit result" where
  "check_signature e sig pubkey output tx input_idx =
     (let sighash_type = ucast (last sig);
          sig_der = butlast sig
      in rbind (sighash e tx input_idx (script_pubkey output) sighash_type) (\<lambda>msg_hash.
         rbind (bail_if (length msg_hash \<noteq> 32) (Anyhow ''Invalid message'')) (\<lambda>_.
         rbind (bail_if (\<not> der_ok e sig_der) (Anyhow ''Invalid DER signature'')) (\<lambda>_.
         rbind (bail_if (\<not> pubkey_ok e pubkey) (Anyhow ''Invalid public key'')) (\<lambda>_.
         bail_if (\<not> verify_ecdsa e msg_hash sig_der pubkey) InvalidSignature)))))"

definition validate_p2pkh ::
  "('p, 'a) env_scheme \<Rightarrow> txinput \<Rightarrow> txoutput \<Rightarrow> transaction \<Rightarrow> nat \<Rightarrow> unit result" where
  "validate_p2pkh e input output tx input_idx =
     (let spk = script_pubkey output; sig_script = script_sig input
      in rbind (bail_if (spk ! 0 \<noteq> 0x76 \<or> spk ! 1 \<noteq> 0xa9 \<or> spk ! 2 \<noteq> 0x14 \<or> spk ! 23 \<noteq> 0x88 \<or> spk ! 24 \<noteq> 0xac)
                  InvalidScript) (\<lambda>_.
         rbind (slice spk 3 23) (\<lambda>pubkey_hash.
         rbind (index sig_script 0) (\<lambda>b0.
         let sig_len = unat b0
         in rbind (bail_if (sig_len + 1 > length sig_script) InvalidScript) (\<lambda>_.
            rbind (slice sig_script 1 (1 + sig_len)) (\<lambda>sig.
            rbind (index sig_script (1 + sig_len)) (\<lambda>b1.
            let pubkey_len = unat b1
            in rbind (bail_if (2 + sig_len + pubkey_len > length sig_script) InvalidScript) (\<lambda>_.
               rbind (slice sig_script (2 + sig_len) (2 + sig_len + pubkey_len)) (\<lambda>pubkey.
               rbind (bail_if (hash160 e pubkey \<noteq> pubkey_hash) InvalidScript) (\<lambda>_.
               rbind (bail_if (sig = []) InvalidScript) (\<lambda>_.
               check_signature e sig pubkey output tx input_idx)))))))))))"

definition validate_p2pk ::
  "('p, 'a) env_scheme \<Rightarrow> txinput \<Rightarrow> txoutput \<Rightarrow> transaction \<Rightarrow> nat \<Rightarrow> unit result" where
  "validate_p2pk e input output tx input_idx =
     rbind (slice (script_pubkey output) 1 33) (\<lambda>pubkey.
     rbind (bail_if (\<not> pubkey_ok e pubkey) (Anyhow ''Invalid P2PK pubkey'')) (\<lambda>_.
     rbind (bail_if (script_sig input = []) InvalidScript) (\<lambda>_.
     check_signature e (script_sig input) pubkey output tx input_idx)))"

definition validate_script_with_timeout ::
  "('p, 'a) env_scheme \<Rightarrow> bool \<Rightarrow> txinput \<Rightarrow> txoutput \<Rightarrow> transaction \<Rightarrow> nat \<Rightarrow> unit result" where
  "validate_script_with_timeout e timed_out input output tx input_idx =
     (let spk = script_pubkey output
      in if timed_out then bail ValidationTimeout
         else if length spk \<noteq> 25 \<and> length spk \<noteq> 34 then bail InvalidScript
         else if length spk = 25 then validate_p2pkh e input output tx input_idx
         else if length spk = 34 \<and> spk ! 0 = 0x21 \<and> spk ! 33 = 0xac then validate_p2pk e input output tx input_idx
         else bail InvalidScript)"

section \<open>Database keys\<close>

definition ascii :: "string \<Rightarrow> bytes" where
  "ascii = map (\<lambda>ch. of_nat (of_char ch))"

definition utxo_key :: "bool \<Rightarrow> hash256 \<Rightarrow> u32 \<Rightarrow> bytes" where
  "utxo_key anonymous txid vout = ascii (if anonymous then ''a:'' else ''u:'') @ txid @ u32_be vout"

section \<open>Anonymous transactions\<close>

definition commitment_point :: "('p, 'a) env_scheme \<Rightarrow> bytes option \<Rightarrow> 'p result" where
  "commitment_point e comm =
     rbind (or_err comm InvalidCommitment) (\<lambda>bs. or_err (decompress e bs) InvalidCommitment)"

record 'p anon_acc =
  seen_key_images :: "bytes list"
  anon_input_sum :: u64
  input_commitments :: "'p list"

definition anon_input ::
  "('p, 'a) env_scheme \<Rightarrow> rocksdb \<Rightarrow> (outpoint \<rightharpoonup> txoutput) \<Rightarrow> transaction \<Rightarrow> 'p anon_acc \<Rightarrow> txinput \<Rightarrow> 'p anon_acc result" where
  "anon_input e db anonymous_outputs tx acc vin =
     rbind (bail_if (length (script_sig vin) < 32) InvalidScript) (\<lambda>_.
     let key_image = take 32 (script_sig vin); clsag_data = drop 32 (script_sig vin)
     in rbind (bail_if (\<not> key_image_ok e key_image) InvalidKeyImage) (\<lambda>_.
        rbind (bail_if (key_image \<in> set (seen_key_images acc)) DoubleSpend) (\<lambda>_.
        rbind (bail_if (db_get db (''key_images'', key_image) \<noteq> None) DoubleSpend) (\<lambda>_.
        rbind (or_err (clsag_ring e clsag_data) (Anyhow ''Deserialize clsag error'')) (\<lambda>ring_len.
        rbind (bail_if (ring_len > MAX_RING_SIZE \<or> ring_len = 0) InvalidScript) (\<lambda>_.
        rbind (bail_if (\<not> clsag_verify e clsag_data (tx_hash e tx) key_image) (Anyhow ''Clsag verify error'')) (\<lambda>_.
        rbind (or_err (anonymous_outputs (outpoint vin)) MissingUTXO) (\<lambda>out.
        rbind (or_err (checked_add (anon_input_sum acc) (out_value out)) ValueOverflow) (\<lambda>input_sum.
        rbind (commitment_point e (commitment out)) (\<lambda>comm.
        Inr \<lparr>seen_key_images = key_image # seen_key_images acc, anon_input_sum = input_sum,
              input_commitments = input_commitments acc @ [comm]\<rparr>))))))))))"

definition queue_proof ::
  "('p, 'a) env_scheme \<Rightarrow> (bytes \<times> 'p \<times> u64) list \<Rightarrow> txoutput \<times> bytes \<Rightarrow> (bytes \<times> 'p \<times> u64) list result" where
  "queue_proof e batch = (\<lambda>(out, proof_bytes).
     rbind (bail_if (\<not> proof_ok e proof_bytes) (Anyhow ''Deserialize proof error'')) (\<lambda>_.
     rbind (commitment_point e (commitment out)) (\<lambda>comm.
     Inr (batch @ [(proof_bytes, comm, out_value out)]))))"

definition validate_anonymous_tx ::
  "('p::ab_group_add, 'a) env_scheme \<Rightarrow> rocksdb \<Rightarrow> (outpoint \<rightharpoonup> txoutput) \<Rightarrow> transaction \<Rightarrow> unit result" where
  "validate_anonymous_tx e db anonymous_outputs tx =
     rbind (try_fold (anon_input e db anonymous_outputs tx)
              \<lparr>seen_key_images = [], anon_input_sum = 0, input_commitments = []\<rparr> (inputs tx)) (\<lambda>acc.
     rbind (or_err (checked_sum (map out_value (outputs tx))) ValueOverflow) (\<lambda>output_sum.
     rbind (or_err (checked_sub (anon_input_sum acc) output_sum) ValueOverflow) (\<lambda>fee.
     rbind (try_fold (queue_proof e) [] (zip (outputs tx) (range_proofs tx))) (\<lambda>batch.
     rbind (or_err (proofs_verify e batch) InvalidRangeProof) (\<lambda>verified.
     rbind (bail_if (\<not> verified) InvalidRangeProof) (\<lambda>_.
     let sum_input_comm = foldl (+) (pedersen e 0) (input_commitments acc)
     in rbind (try_fold (\<lambda>sum out. rbind (commitment_point e (commitment out)) (\<lambda>comm. Inr (sum + comm)))
                 (pedersen e 0) (outputs tx)) (\<lambda>sum_output_comm.
        bail_if (sum_input_comm \<noteq> sum_output_comm + pedersen e fee) InvalidCommitment)))))))"

section \<open>Transaction validation\<close>

definition scan_input ::
  "rocksdb \<Rightarrow> usize \<Rightarrow> outpoint list \<Rightarrow> txinput \<Rightarrow> outpoint list result" where
  "scan_input db height seen vin =
     rbind (bail_if (outpoint vin \<in> set seen) DoubleSpend) (\<lambda>_.
     case db_get db (''coinbase'', in_txid vin) of
       None \<Rightarrow> Inr (outpoint vin # seen)
     | Some cb_height_bytes \<Rightarrow>
         rbind (bail_if (length cb_height_bytes \<noteq> 8) (Anyhow ''Invalid cb height bytes'')) (\<lambda>_.
         rbind (bail_if (saturating_sub height (u64_from_be cb_height_bytes) < COINBASE_MATURITY) CoinbaseImmature) (\<lambda>_.
         Inr (outpoint vin # seen))))"

definition fetch_utxo ::
  "'a codec_scheme \<Rightarrow> rocksdb \<Rightarrow> u64 \<times> (outpoint \<rightharpoonup> txoutput) \<Rightarrow> bytes \<Rightarrow> (u64 \<times> (outpoint \<rightharpoonup> txoutput)) result" where
  "fetch_utxo e db = (\<lambda>(input_sum, outs) db_key.
     rbind (or_err (db_get db (''utxo'', db_key)) MissingUTXO) (\<lambda>v.
     rbind (or_err (de_output e v) (Anyhow ''Deserialize utxo failed'')) (\<lambda>utxo.
     let txid = take 32 (drop 2 db_key); vout = u32_from_be (take 4 (drop 34 db_key))
     in rbind (or_err (checked_add input_sum (out_value utxo)) ValueOverflow) (\<lambda>input_sum.
        Inr (input_sum, outs((txid, vout) \<mapsto> utxo))))))"

definition fetch_anon ::
  "'a codec_scheme \<Rightarrow> rocksdb \<Rightarrow> (outpoint \<rightharpoonup> txoutput) \<Rightarrow> txinput \<Rightarrow> (outpoint \<rightharpoonup> txoutput) result" where
  "fetch_anon e db outs vin =
     (case db_get db (''anonymous'', utxo_key True (in_txid vin) (in_vout vin)) of
        None \<Rightarrow> Inr outs
      | Some v \<Rightarrow>
          rbind (or_err (de_output e v) (Anyhow ''Deserialize anon failed'')) (\<lambda>output.
          Inr (outs(outpoint vin \<mapsto> output))))"

definition required_fee :: "'a codec_scheme \<Rightarrow> transaction \<Rightarrow> u64 result" where
  "required_fee e tx =
     (if is_anonymous tx
      then Inr (of_nat ((tx_size e tx * unat MIN_FEE_PER_BYTE * ANON_FEE_MULTIPLIER_NUMERATOR
             + (ANON_FEE_MULTIPLIER_DENOMINATOR - 1)) div ANON_FEE_MULTIPLIER_DENOMINATOR))
      else or_err (checked_mul (of_nat (tx_size e tx)) MIN_FEE_PER_BYTE) ValueOverflow)"

definition validate_transaction ::
  "('p::ab_group_add, 'a) env_scheme \<Rightarrow> rocksdb \<Rightarrow> usize \<Rightarrow> transaction \<Rightarrow> usize \<Rightarrow> unit result" where
  "validate_transaction e db best_height tx height =
     (if is_coinbase tx then Inr ()
      else
        rbind (bail_if (lock_time tx > ucast best_height \<and> (\<exists>i\<in>set (inputs tx). in_sequence i \<noteq> u32_max)) InvalidLockTime) (\<lambda>_.
        rbind (or_err (cf_handle db ''utxo'') (Anyhow ''utxo'')) (\<lambda>_.
        rbind (or_err (cf_handle db ''anonymous'') (Anyhow ''anonymous'')) (\<lambda>_.
        rbind (or_err (cf_handle db ''key_images'') (Anyhow ''key_images'')) (\<lambda>_.
        rbind (or_err (cf_handle db ''coinbase'') (Anyhow ''coinbase'')) (\<lambda>_.
        rbind (try_fold (scan_input db height) [] (inputs tx)) (\<lambda>_.
        rbind (if is_anonymous tx then Inr (0, Map.empty)
               else try_fold (fetch_utxo e db) (0, Map.empty)
                      (map (\<lambda>vin. utxo_key False (in_txid vin) (in_vout vin)) (inputs tx))) (\<lambda>(input_sum, outs).
        rbind (if is_anonymous tx
               then rbind (try_fold (fetch_anon e db) Map.empty (inputs tx)) (\<lambda>anon_outputs.
                      validate_anonymous_tx e db anon_outputs tx)
               else Inr ()) (\<lambda>_.
        rbind (or_err (checked_sum (map out_value (outputs tx))) ValueOverflow) (\<lambda>output_sum.
        rbind (bail_if (output_sum > input_sum) (InvalidTx ''Outputs exceed inputs'')) (\<lambda>_.
        rbind (or_err (checked_sub input_sum output_sum) ValueOverflow) (\<lambda>fee.
        rbind (required_fee e tx) (\<lambda>required.
        bail_if (fee < required) InsufficientFee)))))))))))))"

section \<open>Coinbase and genesis\<close>

definition create_coinbase :: "'a crypto_scheme \<Rightarrow> usize \<Rightarrow> bytes \<Rightarrow> bytes \<Rightarrow> transaction" where
  "create_coinbase c height extra pubkey =
     \<lparr>tx_version = 1, is_anonymous = False,
      inputs = [\<lparr>in_txid = zero_hash, in_vout = u32_max, script_sig = u64_le height @ extra, in_sequence = u32_max\<rparr>],
      outputs = [\<lparr>out_value = 0, script_pubkey = p2pkh_script c pubkey, commitment = None\<rparr>],
      lock_time = 0, range_proofs = []\<rparr>"

function mine_nonce :: "'a codec_scheme \<Rightarrow> block_header \<Rightarrow> nat \<Rightarrow> u64 \<Rightarrow> block_header result" where
  "mine_nonce e hdr target n =
     rbind (header_hash e (hdr\<lparr>nonce := n\<rparr>)) (\<lambda>hash.
       if u256_from_be hash \<le> target then Inr (hdr\<lparr>nonce := n\<rparr>)
       else if n + 1 = 0 then bail (Anyhow ''Impossible to mine genesis'')
       else mine_nonce e hdr target (n + 1))"
  by pat_completeness auto
termination
proof (relation "measure (\<lambda>(e, hdr, target, n). 2 ^ 64 - unat n)", goal_cases)
  case (2 e hdr target n hash)
  then have "unat (n + 1) = unat n + 1" by (simp add: unat_eq_zero unatSuc add.commute)
  then show ?case using unat_u64_less [of "n + 1"] by simp
qed simp

declare mine_nonce.simps [simp del]

definition genesis_message :: bytes where
  "genesis_message = ascii ''Lyrion Network '' @ [0xe2, 0x80, 0x93] @ ascii '' Privacy by Design '' @
     [0xe2, 0x80, 0x93] @ ascii '' Launched November 20, 2025''"

definition create_genesis_block :: "'a codec_scheme \<Rightarrow> bytes \<Rightarrow> block result" where
  "create_genesis_block e pubkey =
     (let coinbase_tx =
            \<lparr>tx_version = 1, is_anonymous = False,
             inputs = [\<lparr>in_txid = zero_hash, in_vout = u32_max, script_sig = genesis_message, in_sequence = u32_max\<rparr>],
             outputs = [\<lparr>out_value = subsidy 0, script_pubkey = p2pkh_script e pubkey, commitment = None\<rparr>],
             lock_time = 0, range_proofs = []\<rparr>;
          hdr = \<lparr>hdr_version = 1, prev_hash = zero_hash, merkle_root = compute_merkle_root e [coinbase_tx],
                 timestamp = GENESIS_TIMESTAMP, hdr_bits = 0x1d00ffff, nonce = 0\<rparr>
      in rbind (compact_to_target (hdr_bits hdr)) (\<lambda>target.
         rbind (mine_nonce e hdr target 0) (\<lambda>header.
         Inr \<lparr>header = header, txs = [coinbase_tx]\<rparr>)))"

section \<open>Data for the witnesses\<close>

definition demo_tx :: transaction where
  "demo_tx = \<lparr>tx_version = 1, is_anonymous = False,
     inputs = [\<lparr>in_txid = replicate 32 7, in_vout = 0, script_sig = [1], in_sequence = 0\<rparr>],
     outputs = [\<lparr>out_value = 100, script_pubkey = [], commitment = None\<rparr>], lock_time = 0, range_proofs = []\<rparr>"

definition demo_spend :: transaction where
  "demo_spend = demo_tx\<lparr>lock_time := 4\<rparr>"

definition demo_coin :: txoutput where
  "demo_coin = \<lparr>out_value = 9000, script_pubkey = [], commitment = None\<rparr>"

definition demo_db :: rocksdb where
  "demo_db = \<lparr>cfs = [default_cf, ''utxo'', ''anonymous'', ''key_images'', ''coinbase'', ''addr_index'', ''tx_index''],
     tables = (\<lambda>_. [])(''utxo'' := [(utxo_key False (replicate 32 7) 0, ser_output demo_env demo_coin)])\<rparr>"

lemma demo_spend_size: "tx_size demo_env demo_spend = 103"
  by (simp add: tx_size_def demo_env_def demo_spend_def demo_tx_def put_tx_def put_list_Cons put_output_def put_input_def)

lemmas demo_simps = demo_spend_def demo_tx_def demo_coin_def tx_size_def demo_env_def put_tx_def put_list_Cons
  put_output_def put_input_def is_coinbase_def

section \<open>Hash cache\<close>

definition cache_ok :: "'a codec_scheme \<Rightarrow> (bytes \<rightharpoonup> hash256) \<Rightarrow> bool" where
  "cache_ok e cache \<longleftrightarrow> (\<forall>s h. cache s = Some h \<longrightarrow> h = sha256d e s)"

text \<open>Memoising transaction hashes is transparent: as long as the cache holds only true hashes and
  eviction only drops entries, the cached lookup returns the double SHA-256 of the serialised
  transaction and keeps the cache true.\<close>

theorem tx_hash_cached_correct:
  assumes "cache_ok e cache" "evict cache \<subseteq>\<^sub>m cache"
  shows "fst (tx_hash_cached e evict cache tx) = tx_hash e tx \<and>
    cache_ok e (snd (tx_hash_cached e evict cache tx))"
  using assms
  by (auto simp: tx_hash_cached_def tx_hash_def cache_ok_def Let_def map_le_def dom_def split: option.splits)

theorem tx_hash_cached_correct_witness:
  "fst (tx_hash_cached demo_env (\<lambda>_. Map.empty) [[1] \<mapsto> sha256d demo_env [1]] demo_tx) = tx_hash demo_env demo_tx \<and>
   cache_ok demo_env (snd (tx_hash_cached demo_env (\<lambda>_. Map.empty) [[1] \<mapsto> sha256d demo_env [1]] demo_tx))"
  by (rule tx_hash_cached_correct) (simp_all add: cache_ok_def)

text \<open>A signature hash does not depend on any \<^verbatim>\<open>script_sig\<close>: writing a
  signature into an input leaves every signature hash of the transaction as it was, so inputs can be
  signed one after the other.\<close>

theorem sighash_stable_under_signing:
  "sighash e (tx\<lparr>inputs := (inputs tx)[j := (inputs tx ! j)\<lparr>script_sig := s\<rparr>]\<rparr>) i spk ty =
   sighash e tx i spk ty"
proof -
  have "map (script_sig_update (\<lambda>_. [])) ((inputs tx)[j := (inputs tx ! j)\<lparr>script_sig := s\<rparr>]) =
    map (script_sig_update (\<lambda>_. [])) (inputs tx)"
    by (cases "j < length (inputs tx)")
      (auto simp: list_eq_iff_nth_eq nth_list_update list_update_beyond)
  then show ?thesis by (simp add: sighash_def clear_script_sigs_def)
qed

section \<open>Merkle\<close>

lemma merkle_loop_single [simp]: "merkle_loop c [h] = [h]"
  by (simp add: merkle_loop.simps)

lemma merkle_loop_step: "1 < length hs \<Longrightarrow> merkle_loop c hs = merkle_loop c (merkle_level c hs)"
  by (simp add: merkle_loop.simps [of c hs])

lemma length_merkle_loop: "hs \<noteq> [] \<Longrightarrow> length (merkle_loop c hs) = 1"
proof (induction c hs rule: merkle_loop.induct)
  case (1 c hs)
  show ?case
  proof (cases "length hs > 1")
    case True
    then have "merkle_level c hs \<noteq> []" by (auto simp flip: length_greater_0_conv simp: length_merkle_level)
    with 1 True show ?thesis by (simp add: merkle_loop_step)
  next
    case False
    with 1(2) show ?thesis by (cases hs) (auto simp: merkle_loop.simps)
  qed
qed

lemma merkle_pairs_append:
  "even (length xs) \<Longrightarrow> merkle_pairs c (xs @ ys) = merkle_pairs c xs @ merkle_pairs c ys"
  by (induction c xs rule: merkle_pairs.induct) auto

text \<open>The Merkle root does not determine the number of transactions: repeating the last one of an odd
  list of more than one gives the same root.\<close>

theorem merkle_duplicate_last:
  assumes "odd (length ts)" "1 < length ts"
  shows "compute_merkle_root e (ts @ [last ts]) = compute_merkle_root e ts"
proof -
  let ?hs = "map (tx_hash e) ts"
  have ne: "ts \<noteq> []" using assms by auto
  have "merkle_level e (?hs @ [tx_hash e (last ts)]) = merkle_level e ?hs"
    using assms ne by (simp add: merkle_level_def last_map)
  then have "merkle_loop e (?hs @ [tx_hash e (last ts)]) = merkle_loop e ?hs"
    using assms ne by (simp add: merkle_loop_step)
  then show ?thesis using ne by (simp add: compute_merkle_root_def Let_def)
qed

theorem merkle_duplicate_last_witness:
  "compute_merkle_root demo_env ([demo_tx, demo_tx, demo_spend] @ [last [demo_tx, demo_tx, demo_spend]]) =
   compute_merkle_root demo_env [demo_tx, demo_tx, demo_spend]"
  by (rule merkle_duplicate_last) simp_all

definition collision :: "'a crypto_scheme \<Rightarrow> bool" where
  "collision c \<longleftrightarrow> (\<exists>a b. length a = 64 \<and> length b = 64 \<and> a \<noteq> b \<and> sha256d c a = sha256d c b)"

lemma merkle_pairs_inject:
  assumes "length xs = length ys" "even (length xs)" "\<forall>h\<in>set xs \<union> set ys. length h = 32"
    and "merkle_pairs c xs = merkle_pairs c ys"
  shows "xs = ys \<or> collision c"
  using assms
proof (induction c xs arbitrary: ys rule: merkle_pairs.induct)
  case (1 c a b hs)
  then obtain a' b' hs' where ys: "ys = a' # b' # hs'" by (metis length_Suc_conv)
  have "hs = hs' \<or> collision c" using 1 by (auto simp: ys)
  moreover have "a = a' \<and> b = b' \<or> collision c"
  proof (cases "a @ b = a' @ b'")
    case True
    then show ?thesis using 1 by (auto simp: ys)
  next
    case False
    moreover have "sha256d c (a @ b) = sha256d c (a' @ b')" using 1(5) by (simp add: ys)
    moreover have "length (a @ b) = 64" "length (a' @ b') = 64" using 1(4) by (auto simp: ys)
    ultimately show ?thesis by (auto simp only: collision_def)
  qed
  ultimately show ?case by (auto simp: ys)
qed auto

lemma merkle_level_inject:
  assumes "length xs = length ys" "\<forall>h\<in>set xs \<union> set ys. length h = 32"
    and "merkle_level c xs = merkle_level c ys"
  shows "xs = ys \<or> collision c"
proof (cases "odd (length xs)")
  case True
  then have ne: "xs \<noteq> []" "ys \<noteq> []" using assms(1) by auto
  have "xs @ [last xs] = ys @ [last ys] \<or> collision c"
    using assms True ne by (intro merkle_pairs_inject) (auto simp: merkle_level_def)
  then show ?thesis by auto
next
  case False
  then show ?thesis using assms merkle_pairs_inject [of xs ys c] by (auto simp: merkle_level_def)
qed

lemma merkle_level_lengths: "crypto_ok c \<Longrightarrow> h \<in> set (merkle_level c hs) \<Longrightarrow> length h = 32"
proof -
  assume ok: "crypto_ok c"
  have "\<forall>h\<in>set (merkle_pairs c xs). length h = 32" for xs
    using ok by (induction c xs rule: merkle_pairs.induct) auto
  then show "h \<in> set (merkle_level c hs) \<Longrightarrow> length h = 32" by (simp add: merkle_level_def)
qed

lemma merkle_loop_inject:
  assumes "crypto_ok c" "length xs = length ys" "xs \<noteq> []" "\<forall>h\<in>set xs \<union> set ys. length h = 32"
    and "merkle_loop c xs = merkle_loop c ys"
  shows "xs = ys \<or> collision c"
  using assms
proof (induction c xs arbitrary: ys rule: merkle_loop.induct)
  case (1 c xs)
  show ?case
  proof (cases "length xs > 1")
    case True
    let ?l = "merkle_level c"
    have "?l xs \<noteq> []" using True by (auto simp flip: length_greater_0_conv simp: length_merkle_level)
    then have "?l xs = ?l ys \<or> collision c"
      using 1 True by (intro "1.IH") (auto simp: length_merkle_level merkle_loop_step merkle_level_lengths)
    then show ?thesis using merkle_level_inject 1 by blast
  next
    case False
    then have "length xs = 1" "length ys = 1" using 1 by (auto simp: le_Suc_eq not_less)
    then show ?thesis using 1(6) by (auto simp: length_Suc_conv)
  qed
qed

text \<open>C10. The Merkle root binds the transaction hashes at a given length: two lists of the same length
  with the same root and different hashes exhibit a collision of double SHA-256 on 64-byte inputs.\<close>

theorem merkle_root_binding:
  assumes "crypto_ok e" "length ts = length us" "compute_merkle_root e ts = compute_merkle_root e us"
    and "map (tx_hash e) ts \<noteq> map (tx_hash e) us"
  shows "\<exists>a b. length a = 64 \<and> length b = 64 \<and> a \<noteq> b \<and> sha256d e a = sha256d e b"
proof -
  have ne: "ts \<noteq> []" "us \<noteq> []" using assms by auto
  let ?xs = "map (tx_hash e) ts" and ?ys = "map (tx_hash e) us"
  have "length (merkle_loop e ?xs) = 1" "length (merkle_loop e ?ys) = 1"
    using ne by (simp_all add: length_merkle_loop)
  moreover have "hd (merkle_loop e ?xs) = hd (merkle_loop e ?ys)"
    using assms(3) ne by (simp add: compute_merkle_root_def Let_def)
  ultimately have "merkle_loop e ?xs = merkle_loop e ?ys" by (auto simp: length_Suc_conv)
  then have "?xs = ?ys \<or> collision e"
    using assms ne by (intro merkle_loop_inject) (auto simp: tx_hash_def)
  then show ?thesis using assms(4) by (simp add: collision_def)
qed

definition weak_env :: "int env" where
  "weak_env = demo_env\<lparr>sha256 := (\<lambda>d. if length d = 64 then zero_hash else take 32 (d @ zero_hash)),
     ser_tx := (\<lambda>t. replicate 32 (if is_anonymous t then 1 else 0))\<rparr>"

theorem merkle_root_binding_witness:
  "\<exists>a b. length a = 64 \<and> length b = 64 \<and> a \<noteq> b \<and> sha256d weak_env a = sha256d weak_env b"
proof (rule merkle_root_binding)
  let ?t = "demo_tx\<lparr>is_anonymous := True\<rparr>"
  have hash: "tx_hash weak_env t = replicate 32 (if is_anonymous t then 1 else 0)" for t
    by (simp add: tx_hash_def sha256d_def weak_env_def)
  have node: "sha256d weak_env (replicate 32 a @ replicate 32 b) = zero_hash" for a b
    by (simp add: sha256d_def weak_env_def)
  show "crypto_ok weak_env"
    using demo_env_crypto_ok by (auto simp: crypto_ok_def weak_env_def min_def)
  show "compute_merkle_root weak_env [demo_tx, ?t] = compute_merkle_root weak_env [demo_tx, demo_tx]"
    by (simp add: compute_merkle_root_def hash merkle_loop_step merkle_level_def node)
  show "map (tx_hash weak_env) [demo_tx, ?t] \<noteq> map (tx_hash weak_env) [demo_tx, demo_tx]"
    by (simp add: hash demo_tx_def)
qed simp

text \<open>Reference: the recursive tree over a power of two of leaves.\<close>

fun merkle_tree :: "'a crypto_scheme \<Rightarrow> nat \<Rightarrow> hash256 list \<Rightarrow> hash256" where
  "merkle_tree c 0 hs = hd hs"
| "merkle_tree c (Suc k) hs =
     sha256d c (merkle_tree c k (take (2 ^ k) hs) @ merkle_tree c k (drop (2 ^ k) hs))"

lemma merkle_pairs_take: "merkle_pairs c (take (2 * n) hs) = take n (merkle_pairs c hs)"
proof (induction n arbitrary: hs)
  case (Suc n)
  show ?case by (cases "(c, hs)" rule: merkle_pairs.cases) (auto simp: Suc)
qed simp

lemma merkle_pairs_drop: "merkle_pairs c (drop (2 * n) hs) = drop n (merkle_pairs c hs)"
proof (induction n arbitrary: hs)
  case (Suc n)
  show ?case by (cases "(c, hs)" rule: merkle_pairs.cases) (auto simp: Suc)
qed simp

lemma merkle_tree_pairs:
  "length hs = 2 ^ Suc k \<Longrightarrow> merkle_tree c (Suc k) hs = merkle_tree c k (merkle_pairs c hs)"
proof (induction k arbitrary: hs)
  case 0
  then obtain a b where "hs = [a, b]" by (auto simp: length_Suc_conv numeral_2_eq_2)
  then show ?case by simp
next
  case (Suc k)
  let ?l = "take (2 ^ Suc k) hs" and ?r = "drop (2 ^ Suc k) hs"
  have "merkle_tree c (Suc k) ?l = merkle_tree c k (merkle_pairs c ?l)"
       "merkle_tree c (Suc k) ?r = merkle_tree c k (merkle_pairs c ?r)"
    using Suc.prems by (intro Suc.IH; simp)+
  then show ?case
    using merkle_pairs_take [of c "2 ^ k" hs] merkle_pairs_drop [of c "2 ^ k" hs]
    by (simp del: merkle_tree.simps(2) add: merkle_tree.simps(2) [of c "Suc k" hs] merkle_tree.simps(2) [of c k "merkle_pairs c hs"])
qed

lemma merkle_loop_tree: "length hs = 2 ^ k \<Longrightarrow> merkle_loop c hs = [merkle_tree c k hs]"
proof (induction k arbitrary: hs)
  case 0
  then show ?case by (auto simp: length_Suc_conv)
next
  case (Suc k)
  have "1 \<le> (2::nat) ^ k" by simp
  then have "1 < length hs" unfolding Suc.prems power_Suc by linarith
  then have "merkle_loop c hs = merkle_loop c (merkle_level c hs)" by (rule merkle_loop_step)
  also have "merkle_level c hs = merkle_pairs c hs" using Suc.prems by (simp add: merkle_level_def)
  also have "merkle_loop c (merkle_pairs c hs) = [merkle_tree c k (merkle_pairs c hs)]"
    using Suc.prems by (intro Suc.IH) (simp add: length_merkle_pairs)
  finally show ?case by (simp only: merkle_tree_pairs [OF Suc.prems])
qed

text \<open>For a power of two of transactions the level-by-level loop computes the root of the balanced
  binary hash tree.\<close>

theorem merkle_root_is_tree:
  assumes "length ts = 2 ^ k"
  shows "compute_merkle_root e ts = merkle_tree e k (map (tx_hash e) ts)"
proof -
  have "ts \<noteq> []" using assms by auto
  then show ?thesis using assms by (simp add: compute_merkle_root_def Let_def merkle_loop_tree)
qed

theorem merkle_root_is_tree_witness:
  "compute_merkle_root demo_env [demo_tx, demo_spend, demo_spend, demo_tx] =
   merkle_tree demo_env 2 (map (tx_hash demo_env) [demo_tx, demo_spend, demo_spend, demo_tx])"
  by (rule merkle_root_is_tree) simp

section \<open>Fees\<close>

lemma fee_eq:
  assumes "\<forall>vin\<in>set (inputs tx). outs (outpoint vin) \<noteq> None"
    and "(\<Sum>vin\<leftarrow>inputs tx. unat (out_value (the (outs (outpoint vin))))) < 2 ^ 64"
  shows "unat (fee tx outs) =
    (\<Sum>vin\<leftarrow>inputs tx. unat (out_value (the (outs (outpoint vin))))) - (\<Sum>o'\<leftarrow>outputs tx. unat (out_value o'))"
proof -
  let ?v = "\<lambda>vin. case outs (outpoint vin) of Some o' \<Rightarrow> out_value o' | None \<Rightarrow> 0"
  have eq: "map (unat \<circ> ?v) (inputs tx) = map (\<lambda>vin. unat (out_value (the (outs (outpoint vin))))) (inputs tx)"
    using assms(1) by auto
  define I where "I = (\<Sum>vin\<leftarrow>inputs tx. unat (out_value (the (outs (outpoint vin)))))"
  define O' where "O' = (\<Sum>o'\<leftarrow>outputs tx. unat (out_value o'))"
  have i: "checked_sum (map ?v (inputs tx)) = Some (of_nat I)"
    using assms(2) unfolding checked_fold_eq map_map eq by (simp add: I_def)
  show ?thesis
  proof (cases "O' < 2 ^ 64")
    case True
    then have "checked_sum (map out_value (outputs tx)) = Some (of_nat O')"
      by (simp add: checked_fold_eq O'_def comp_def)
    with i True assms(2) show ?thesis
      by (simp add: fee_def unat_saturating_sub unat_of_nat I_def O'_def)
  next
    case False
    then have "checked_sum (map out_value (outputs tx)) = None"
      by (simp add: checked_fold_eq O'_def comp_def)
    with i False assms(2) show ?thesis by (simp add: fee_def I_def O'_def)
  qed
qed


text \<open>When every spent output is known and the inputs do not overflow, the fee is exactly inputs minus
  outputs, and 0 when the outputs exceed the inputs.\<close>

theorem fee_exact:
  assumes "\<forall>vin\<in>set (inputs tx). outs (outpoint vin) \<noteq> None"
    and "(\<Sum>vin\<leftarrow>inputs tx. unat (out_value (the (outs (outpoint vin))))) < 2 ^ 64"
  shows "unat (fee tx outs) =
    (\<Sum>vin\<leftarrow>inputs tx. unat (out_value (the (outs (outpoint vin))))) - (\<Sum>o'\<leftarrow>outputs tx. unat (out_value o'))"
  by (rule fee_eq [OF assms])

theorem fee_exact_witness:
  "unat (fee demo_spend [(replicate 32 7, 0) \<mapsto> demo_coin]) =
    (\<Sum>vin\<leftarrow>inputs demo_spend. unat (out_value (the ([(replicate 32 7, 0) \<mapsto> demo_coin] (outpoint vin))))) -
    (\<Sum>o'\<leftarrow>outputs demo_spend. unat (out_value o'))"
  by (rule fee_exact) (simp_all add: demo_spend_def demo_tx_def demo_coin_def)

section \<open>Scripts\<close>

lemma index_eq_Inr [result_simps]: "index xs i = Inr x \<longleftrightarrow> i < length xs \<and> x = xs ! i"
  by (auto simp: index_def)

lemma slice_eq_Inr [result_simps]:
  "slice xs a b = Inr ys \<longleftrightarrow> a \<le> b \<and> b \<le> length xs \<and> ys = take (b - a) (drop a xs)"
  by (auto simp: slice_def)

lemma take_pushes:
  assumes "1 + n < length s"
  shows "take (2 + n + m) s = (s ! 0) # take n (drop 1 s) @ (s ! (1 + n)) # take m (drop (2 + n) s)"
proof -
  have "take (2 + n + m) s = take (Suc (1 + n)) s @ take m (drop (2 + n) s)"
    using take_add [of "2 + n" m s] by simp
  also have "take (Suc (1 + n)) s = take (1 + n) s @ [s ! (1 + n)]"
    using assms by (simp add: take_Suc_conv_app_nth)
  also have "take (1 + n) s = (s ! 0) # take n (drop 1 s)"
    using assms by (cases s) auto
  finally show ?thesis by simp
qed

text \<open>C17. A spend of a pay-to-public-key-hash output that the script check accepts carries a key with the
  committed hash and a signature by that key over the signature hash of this input.\<close>

theorem p2pkh_accept_sound:
  assumes "validate_script_with_timeout e t input output tx i = Inr ()"
    and "script_pubkey output = p2pkh_script e pk0" "crypto_ok e"
  shows "\<exists>sig pk h. hash160 e pk = hash160 e pk0 \<and> sig \<noteq> [] \<and>
    sighash e tx i (script_pubkey output) (ucast (last sig)) = Inr h \<and>
    verify_ecdsa e h (butlast sig) pk \<and>
    prefix ([of_nat (length sig)] @ sig @ [of_nat (length pk)] @ pk) (script_sig input)"
proof -
  have len: "length (script_pubkey output) = 25" using assms by (simp add: p2pkh_script_def)
  have pkh: "take 20 (drop 3 (script_pubkey output)) = hash160 e pk0"
    using assms by (simp add: p2pkh_script_def)
  have "validate_p2pkh e input output tx i = Inr ()"
    using assms(1) len by (simp add: validate_script_with_timeout_def Let_def split: if_splits)
  then obtain h where
    n0: "0 < length (script_sig input)" "unat (script_sig input ! 0) + 1 \<le> length (script_sig input)"
        "1 + unat (script_sig input ! 0) < length (script_sig input)"
    and n1: "2 + unat (script_sig input ! 0) + unat (script_sig input ! (1 + unat (script_sig input ! 0)))
        \<le> length (script_sig input)"
    and rest: "hash160 e (take (unat (script_sig input ! (1 + unat (script_sig input ! 0))))
         (drop (2 + unat (script_sig input ! 0)) (script_sig input))) = take 20 (drop 3 (script_pubkey output))"
      "take (unat (script_sig input ! 0)) (drop 1 (script_sig input)) \<noteq> []"
      "sighash e tx i (script_pubkey output) (ucast (last (take (unat (script_sig input ! 0)) (drop 1 (script_sig input))))) = Inr h"
      "verify_ecdsa e h (butlast (take (unat (script_sig input ! 0)) (drop 1 (script_sig input))))
         (take (unat (script_sig input ! (1 + unat (script_sig input ! 0))))
         (drop (2 + unat (script_sig input ! 0)) (script_sig input)))"
    by (auto simp: validate_p2pkh_def check_signature_def Let_def result_simps not_less)
  let ?s = "script_sig input"
  let ?n = "unat (?s ! 0)"
  let ?m = "unat (?s ! (1 + ?n))"
  let ?sig = "take ?n (drop 1 ?s)" and ?pk = "take ?m (drop (2 + ?n) ?s)"
  have "[of_nat (length ?sig)] @ ?sig @ [of_nat (length ?pk)] @ ?pk = take (2 + ?n + ?m) ?s"
    using take_pushes [of ?n ?s ?m] n0 n1 by (simp add: min_absorb2)
  then show ?thesis using rest pkh by (metis take_is_prefix)
qed

theorem p2pkh_accept_sound_witness:
  "\<exists>sig pk h. hash160 demo_env pk = hash160 demo_env (replicate 33 2) \<and> sig \<noteq> [] \<and>
    sighash demo_env demo_spend 0 (p2pkh_script demo_env (replicate 33 2)) (ucast (last sig)) = Inr h \<and>
    verify_ecdsa demo_env h (butlast sig) pk \<and>
    prefix ([of_nat (length sig)] @ sig @ [of_nat (length pk)] @ pk)
      ([7] @ replicate 6 2 @ [1] @ [33] @ replicate 33 2)"
proof -
  let ?spk = "p2pkh_script demo_env (replicate 33 2)"
  let ?out = "\<lparr>out_value = 0, script_pubkey = ?spk, commitment = None\<rparr>"
  let ?vin = "\<lparr>in_txid = zero_hash, in_vout = 0,
    script_sig = [7] @ replicate 6 2 @ [1] @ [33] @ replicate 33 2, in_sequence = 0\<rparr>"
  have "validate_script_with_timeout demo_env False ?vin ?out demo_spend 0 = Inr ()"
    by (simp add: validate_script_with_timeout_def validate_p2pkh_def check_signature_def Let_def slice_def index_def
      p2pkh_script_def nth_append sighash_def clear_script_sigs_def demo_spend_def demo_tx_def)
  then show ?thesis
    using p2pkh_accept_sound [of demo_env False ?vin ?out demo_spend 0 "replicate 33 2"] by simp
qed

section \<open>Validation\<close>

text \<open>The unspent output an input refers to, as the database has it.\<close>

definition unspent :: "'a codec_scheme \<Rightarrow> rocksdb \<Rightarrow> bool \<Rightarrow> outpoint \<Rightarrow> txoutput option" where
  "unspent e db anon = (\<lambda>(txid, vout).
     Option.bind (db_get db (if anon then ''anonymous'' else ''utxo'', utxo_key anon txid vout)) (de_output e))"

definition mature :: "rocksdb \<Rightarrow> usize \<Rightarrow> hash256 \<Rightarrow> bool" where
  "mature db height txid \<longleftrightarrow> (case db_get db (''coinbase'', txid) of
     None \<Rightarrow> True
   | Some bs \<Rightarrow> length bs = 8 \<and> COINBASE_MATURITY \<le> saturating_sub height (u64_from_be bs))"

lemma scan_input_eq_Inr:
  "scan_input db h seen vin = Inr seen' \<longleftrightarrow>
     outpoint vin \<notin> set seen \<and> mature db h (in_txid vin) \<and> seen' = outpoint vin # seen"
  by (auto simp: scan_input_def mature_def result_simps not_less split: option.splits)

lemma scan_inputs_eq_Inr:
  "try_fold (scan_input db h) seen vins = Inr seen' \<longleftrightarrow>
     distinct (map outpoint vins) \<and> set (map outpoint vins) \<inter> set seen = {} \<and>
     (\<forall>vin\<in>set vins. mature db h (in_txid vin)) \<and> seen' = rev (map outpoint vins) @ seen"
  by (induction vins arbitrary: seen) (auto simp: result_simps scan_input_eq_Inr)

abbreviation spend_keys :: "txinput list \<Rightarrow> bytes list" where
  "spend_keys \<equiv> map (\<lambda>vin. utxo_key False (in_txid vin) (in_vout vin))"

definition in_value :: "'a codec_scheme \<Rightarrow> rocksdb \<Rightarrow> txinput list \<Rightarrow> nat" where
  "in_value e db vins = (\<Sum>vin\<leftarrow>vins. unat (out_value (the (unspent e db False (outpoint vin)))))"

definition out_sum :: "transaction \<Rightarrow> nat" where
  "out_sum tx = (\<Sum>o'\<leftarrow>outputs tx. unat (out_value o'))"

lemma fetch_utxo_iff:
  "(\<exists>m'. fetch_utxo e db (s, m) (utxo_key False (in_txid vin) (in_vout vin)) = Inr (t, m')) \<longleftrightarrow>
     (\<exists>u. unspent e db False (outpoint vin) = Some u \<and> unat t = unat s + unat (out_value u))"
  by (auto simp: fetch_utxo_def Let_def result_simps unspent_def checked_add_eq_Some bind_eq_Some_conv)

lemma unat_split:
  "(\<exists>w :: u64. unat w = a \<and> P \<and> unat t = unat w + b) \<longleftrightarrow> P \<and> unat (t :: u64) = a + b"
proof
  assume r: "P \<and> unat t = a + b"
  then have "unat (of_nat a :: u64) = a" using unat_u64_less [of t] by (intro unat_of_nat_u64) linarith
  with r show "\<exists>w :: u64. unat w = a \<and> P \<and> unat t = unat w + b" by metis
qed auto

lemma fetch_utxos_iff:
  "(\<exists>m'. try_fold (fetch_utxo e db) (s, m) (spend_keys vins) = Inr (t, m')) \<longleftrightarrow>
     (\<forall>vin\<in>set vins. unspent e db False (outpoint vin) \<noteq> None) \<and> unat t = unat s + in_value e db vins"
proof (induction vins arbitrary: s m)
  case Nil
  then show ?case by (auto simp: in_value_def word_unat_eq_iff)
next
  case (Cons vin vins)
  let ?k = "utxo_key False (in_txid vin) (in_vout vin)"
  have "(\<exists>m'. try_fold (fetch_utxo e db) (s, m) (spend_keys (vin # vins)) = Inr (t, m')) \<longleftrightarrow>
    (\<exists>w. (\<exists>m'. fetch_utxo e db (s, m) ?k = Inr (w, m')) \<and>
      (\<forall>vin\<in>set vins. unspent e db False (outpoint vin) \<noteq> None) \<and> unat t = unat w + in_value e db vins)"
    using Cons.IH by (auto simp: result_simps) blast+
  also have "\<dots> \<longleftrightarrow> (\<exists>u. unspent e db False (outpoint vin) = Some u \<and>
      (\<exists>w :: u64. unat w = unat s + unat (out_value u) \<and>
        (\<forall>vin\<in>set vins. unspent e db False (outpoint vin) \<noteq> None) \<and> unat t = unat w + in_value e db vins))"
    unfolding fetch_utxo_iff by blast
  also have "\<dots> \<longleftrightarrow> (\<forall>v\<in>set (vin # vins). unspent e db False (outpoint v) \<noteq> None) \<and>
      unat t = unat s + in_value e db (vin # vins)"
    unfolding unat_split by (auto simp: in_value_def)
  finally show ?case .
qed

lemma required_fee_transparent:
  assumes "\<not> is_anonymous tx" "tx_size e tx < 2 ^ 64"
  shows "required_fee e tx = Inr r \<longleftrightarrow> unat r = 10 * tx_size e tx"
proof -
  have "r = of_nat (tx_size e tx) * 10 \<longleftrightarrow> unat r = 10 * tx_size e tx"
    if "tx_size e tx * 10 < 2 ^ 64"
    using that assms(2) unat_mult_exact [of "of_nat (tx_size e tx) :: u64" 10]
    by (auto simp: unat_of_nat_u64 word_unat_eq_iff)
  moreover have "unat r \<noteq> 10 * tx_size e tx" if "\<not> tx_size e tx * 10 < 2 ^ 64"
    using that unat_u64_less [of r] by linarith
  ultimately show ?thesis
    using assms by (auto simp: required_fee_def checked_mul_def constants unat_of_nat_u64 result_simps)
qed

definition final_at :: "usize \<Rightarrow> transaction \<Rightarrow> bool" where
  "final_at best tx \<longleftrightarrow> lock_time tx \<le> ucast best \<or> (\<forall>i\<in>set (inputs tx). in_sequence i = u32_max)"

lemma le_minus_iff: "unat b + unat c \<le> unat a \<longleftrightarrow> b \<le> a \<and> c \<le> a - (b :: u64)"
  by (auto simp: word_le_nat_alt unat_sub_exact)

lemma unat_witnesses:
  "(\<exists>(i :: u64) (o' :: u64) (r :: u64). unat i = a \<and> unat o' = b \<and> unat r = c \<and> unat o' + unat r \<le> unat i) \<longleftrightarrow>
     a < 2 ^ 64 \<and> b + c \<le> a"
proof
  assume "a < 2 ^ 64 \<and> b + c \<le> a"
  then have "unat (of_nat a :: u64) = a" "unat (of_nat b :: u64) = b" "unat (of_nat c :: u64) = c" "b + c \<le> a"
    by (simp_all add: unat_of_nat_u64)
  then show "\<exists>(i :: u64) (o' :: u64) (r :: u64). unat i = a \<and> unat o' = b \<and> unat r = c \<and> unat o' + unat r \<le> unat i"
    by metis
qed (use unat_u64_less in auto)

lemma transparent_accept_iff:
  assumes "\<not> is_coinbase tx" "\<not> is_anonymous tx" "tx_size e tx < 2 ^ 64"
    and "{''utxo'', ''anonymous'', ''key_images'', ''coinbase''} \<subseteq> set (cfs db)"
  shows "validate_transaction e db best tx h = Inr () \<longleftrightarrow>
    final_at best tx \<and> distinct (map outpoint (inputs tx)) \<and>
    (\<forall>vin\<in>set (inputs tx). mature db h (in_txid vin) \<and> unspent e db False (outpoint vin) \<noteq> None) \<and>
    in_value e db (inputs tx) < 2 ^ 64 \<and>
    out_sum tx + 10 * tx_size e tx \<le> in_value e db (inputs tx)" (is "?l \<longleftrightarrow> ?r")
proof -
  let ?fetched = "\<lambda>isum. \<exists>m. try_fold (fetch_utxo e db) (0, Map.empty) (spend_keys (inputs tx)) = Inr (isum, m)"
  have "?l \<longleftrightarrow> final_at best tx \<and> distinct (map outpoint (inputs tx)) \<and>
      (\<forall>vin\<in>set (inputs tx). mature db h (in_txid vin)) \<and>
      (\<exists>isum osum req. ?fetched isum \<and> checked_sum (map out_value (outputs tx)) = Some osum \<and>
        osum \<le> isum \<and> required_fee e tx = Inr req \<and> req \<le> isum - osum)"
    using assms(1,2,4)
    by (auto simp: validate_transaction_def final_at_def result_simps checked_sub_eq_Some not_less
        scan_inputs_eq_Inr cf_handle_def)
  also have "(\<exists>isum osum req. ?fetched isum \<and> checked_sum (map out_value (outputs tx)) = Some osum \<and>
        osum \<le> isum \<and> required_fee e tx = Inr req \<and> req \<le> isum - osum) \<longleftrightarrow>
      (\<forall>vin\<in>set (inputs tx). unspent e db False (outpoint vin) \<noteq> None) \<and>
      (\<exists>(isum :: u64) (osum :: u64) (req :: u64). unat isum = in_value e db (inputs tx) \<and> unat osum = out_sum tx \<and>
        unat req = 10 * tx_size e tx \<and> unat osum + unat req \<le> unat isum)"
    unfolding fetch_utxos_iff required_fee_transparent [OF assms(2,3)] out_sum_def le_minus_iff
    by (simp add: checked_sum_Some comp_def) blast
  also note unat_witnesses
  finally show ?thesis by auto
qed

text \<open>C1. Exact acceptance of a transaction that is not anonymous.  A coinbase is accepted as it is.  Any other transaction is
  accepted exactly when it is final, spends distinct, mature, unspent outputs whose values do not overflow, and leaves at least 10
  units for each of its bytes; neither inputs nor outputs are required.\<close>

theorem validate_transaction_iff:
  assumes "\<not> is_anonymous tx" "tx_size e tx < 2 ^ 64"
    and "{''utxo'', ''anonymous'', ''key_images'', ''coinbase''} \<subseteq> set (cfs db)"
  shows "validate_transaction e db best tx h = Inr () \<longleftrightarrow> is_coinbase tx \<or>
    final_at best tx \<and> distinct (map outpoint (inputs tx)) \<and>
    (\<forall>vin\<in>set (inputs tx). mature db h (in_txid vin) \<and> unspent e db False (outpoint vin) \<noteq> None) \<and>
    in_value e db (inputs tx) < 2 ^ 64 \<and>
    out_sum tx + 10 * tx_size e tx \<le> in_value e db (inputs tx)"
proof (cases "is_coinbase tx")
  case False
  from transparent_accept_iff [OF this assms] False show ?thesis by simp
qed (simp add: validate_transaction_def)

theorem validate_transaction_iff_witness:
  "validate_transaction demo_env demo_db 5 demo_spend 6 = Inr () \<and>
   validate_transaction demo_env demo_db 3 demo_spend 6 \<noteq> Inr ()"
proof -
  have coin: "unspent demo_env demo_db False (replicate 32 7, 0) = Some demo_coin"
    using demo_env_bincode_ok by (simp add: unspent_def demo_db_def db_get_def tbl_get_def bincode_ok_def)
  have "mature demo_db 6 (replicate 32 7)"
    by (simp add: mature_def demo_db_def db_get_def tbl_get_def)
  with coin show ?thesis
    using validate_transaction_iff [of demo_spend demo_env demo_db]
    by (simp add: demo_spend_size is_coinbase_def)
      (simp add: demo_spend_def demo_tx_def demo_coin_def demo_db_def final_at_def out_sum_def in_value_def)
qed

text \<open>No anonymous transaction is ever accepted: its inputs are never summed, so the fee it is
  credited with is 0.\<close>

theorem anonymous_always_rejected:
  assumes "is_anonymous tx" "\<not> is_coinbase tx" "0 < tx_size e tx" "tx_size e tx < 2 ^ 60"
  shows "validate_transaction e db best tx h \<noteq> Inr ()"
proof
  assume "validate_transaction e db best tx h = Inr ()"
  with assms obtain req where req: "required_fee e tx = Inr req" "\<not> 0 < req"
    by (auto simp: validate_transaction_def result_simps checked_sub_eq_Some)
  have "req = of_nat (15 * tx_size e tx)"
    using req(1) assms(1) by (simp add: required_fee_def constants)
  then have "unat req = 15 * tx_size e tx" using assms(4) unat_of_nat_u64 [of "15 * tx_size e tx"] by simp
  with req(2) assms(3) show False by (simp add: word_less_nat_alt)
qed

theorem anonymous_always_rejected_witness:
  "validate_transaction demo_env demo_db 5 (demo_spend\<lparr>is_anonymous := True\<rparr>) 6 \<noteq> Inr ()"
  by (rule anonymous_always_rejected) (simp_all add: demo_simps)

text \<open>The validation of a transparent transaction never looks at the scripts: replacing every
  \<^verbatim>\<open>script_sig\<close> by any other of the same total size leaves the verdict
  unchanged.\<close>

theorem transparent_scripts_not_checked:
  assumes "\<not> is_anonymous tx" "tx_size e (tx\<lparr>inputs := map f (inputs tx)\<rparr>) = tx_size e tx"
    and "\<forall>vin. in_txid (f vin) = in_txid vin \<and> in_vout (f vin) = in_vout vin \<and> in_sequence (f vin) = in_sequence vin"
  shows "validate_transaction e db best (tx\<lparr>inputs := map f (inputs tx)\<rparr>) h = validate_transaction e db best tx h"
proof -
  have cb: "is_coinbase (tx\<lparr>inputs := map f (inputs tx)\<rparr>) = is_coinbase tx"
    using assms(3) by (auto simp: is_coinbase_def split: list.splits)
  have "scan_input db h seen (f vin) = scan_input db h seen vin" for seen vin
    using assms(3) by (simp add: scan_input_def split: option.split)
  then have "try_fold (scan_input db h) seen (map f vins) = try_fold (scan_input db h) seen vins" for seen vins
    by (induction vins arbitrary: seen) auto
  moreover have keys: "map ((\<lambda>vin. utxo_key False (in_txid vin) (in_vout vin)) \<circ> f) (inputs tx)
      = map (\<lambda>vin. utxo_key False (in_txid vin) (in_vout vin)) (inputs tx)"
    using assms(3) by auto
  ultimately show ?thesis
    using assms by (simp add: validate_transaction_def cb required_fee_def keys)
qed

theorem transparent_scripts_not_checked_witness:
  "validate_transaction demo_env demo_db 5
     (demo_spend\<lparr>inputs := map (\<lambda>vin. vin\<lparr>script_sig := replicate (length (script_sig vin)) 9\<rparr>) (inputs demo_spend)\<rparr>) 6 =
   validate_transaction demo_env demo_db 5 demo_spend 6"
  by (rule transparent_scripts_not_checked) (simp_all add: demo_simps)

end
