(* ===== verification/Utxo.thy ===== *)
theory Utxo
  imports Tx
begin

text \<open>
  The unspent output set of \<^verbatim>\<open>chain.rs\<close>: \<^verbatim>\<open>hash_utxo_entry\<close>,
  \<^verbatim>\<open>xor_hash\<close>, \<^verbatim>\<open>handle_utxo_action\<close>, \<^verbatim>\<open>apply_utxo_changes\<close> and
  \<^verbatim>\<open>compute_cf_supply\<close>.  The write batch, the rollback list, the running set hash and the
  running supply that the code threads by mutable reference are the fields of \<open>utxo_acc\<close>; all reads
  go to the snapshot taken before the block.  \<^verbatim>\<open>handle_utxo_action\<close> names the variables
  \<^verbatim>\<open>height\<close> and \<^verbatim>\<open>cf_key_images\<close> of its caller: they are the height of the block and the
  column family \<^verbatim>\<open>key_images\<close>.
\<close>

section \<open>Operations\<close>

datatype action = Connect | Disconnect

record utxo_acc =
  batch :: write_batch
  rollback_ops :: "(dbkey \<times> bytes option) list"
  current_set_hash :: hash256
  current_supply :: u64

definition hash_utxo_entry :: "'a crypto_scheme \<Rightarrow> hash256 \<Rightarrow> u32 \<Rightarrow> txoutput \<Rightarrow> hash256" where
  "hash_utxo_entry c txid vout output =
     sha256d c (txid @ u32_be vout @ u64_be (out_value output) @ script_pubkey output @
       (case commitment output of Some comm \<Rightarrow> comm | None \<Rightarrow> []))"

definition xor_hash :: "hash256 \<Rightarrow> hash256 \<Rightarrow> hash256" where
  "xor_hash = map2 (\<lambda>x y. x XOR y)"

definition utxo_cf :: "bool \<Rightarrow> string" where
  "utxo_cf anonymous = (if anonymous then ''anonymous'' else ''utxo'')"

definition addr_key :: "'a crypto_scheme \<Rightarrow> bytes \<Rightarrow> hash256 \<Rightarrow> u32 \<Rightarrow> bytes" where
  "addr_key c spk txid vout = ascii ''addr:'' @ hash160 c spk @ txid @ u32_be vout"

definition record_ops :: "write_batch \<Rightarrow> (dbkey \<times> bytes option) list \<Rightarrow> utxo_acc \<Rightarrow> utxo_acc" where
  "record_ops ops undo acc = acc\<lparr>batch := batch acc @ ops, rollback_ops := rollback_ops acc @ undo\<rparr>"

definition remembered :: "rocksdb \<Rightarrow> dbkey \<Rightarrow> (dbkey \<times> bytes option) list" where
  "remembered snapshot k = (case db_get snapshot k of Some prev \<Rightarrow> [(k, Some prev)] | None \<Rightarrow> [])"

definition coinbase_action ::
  "'a codec_scheme \<Rightarrow> rocksdb \<Rightarrow> usize \<Rightarrow> transaction \<Rightarrow> action \<Rightarrow> utxo_acc \<Rightarrow> utxo_acc result" where
  "coinbase_action e snapshot height tx action acc =
     rbind (unwrap (cf_handle snapshot ''coinbase'')) (\<lambda>cf_coinbase.
     let k = (cf_coinbase, tx_hash e tx)
     in Inr (case action of
          Connect \<Rightarrow> record_ops [Put k (u64_be height)] [(k, None)] acc
        | Disconnect \<Rightarrow> record_ops [Delete k] (remembered snapshot k) acc))"

definition key_image_action ::
  "('p, 'a) env_scheme \<Rightarrow> rocksdb \<Rightarrow> usize \<Rightarrow> action \<Rightarrow> txinput \<Rightarrow> utxo_acc \<Rightarrow> utxo_acc result" where
  "key_image_action e snapshot height action vin acc =
     rbind (bail_if (length (script_sig vin) < 32) InvalidScript) (\<lambda>_.
     let key_image = take 32 (script_sig vin); k = (''key_images'', key_image)
     in rbind (bail_if (\<not> key_image_ok e key_image) InvalidKeyImage) (\<lambda>_.
        rbind (bail_if (db_get snapshot k \<noteq> None \<and> action = Connect) DoubleSpend) (\<lambda>_.
        Inr (case action of
          Connect \<Rightarrow> record_ops [Put k (u64_be height)] [(k, None)] acc
        | Disconnect \<Rightarrow> record_ops [Delete k] (remembered snapshot k) acc))))"

definition spend_action ::
  "'a codec_scheme \<Rightarrow> rocksdb \<Rightarrow> bool \<Rightarrow> action \<Rightarrow> txinput \<Rightarrow> utxo_acc \<Rightarrow> utxo_acc result" where
  "spend_action e snapshot anonymous action vin acc =
     (let k = (utxo_cf anonymous, utxo_key anonymous (in_txid vin) (in_vout vin))
      in rbind (or_err (db_get snapshot k) MissingUTXO) (\<lambda>prev.
         rbind (or_err (de_output e prev) (Anyhow ''Deserialize prev_out failed'')) (\<lambda>prev_out.
         let element_hash = hash_utxo_entry e (in_txid vin) (in_vout vin) prev_out;
             acc = acc\<lparr>current_set_hash := xor_hash (current_set_hash acc) element_hash\<rparr>
         in case action of
              Connect \<Rightarrow>
                rbind (or_err (checked_sub (current_supply acc) (out_value prev_out)) ValueOverflow) (\<lambda>supply.
                Inr (record_ops [Delete k] [(k, Some prev)] (acc\<lparr>current_supply := supply\<rparr>)))
            | Disconnect \<Rightarrow>
                rbind (or_err (checked_add (current_supply acc) (out_value prev_out)) ValueOverflow) (\<lambda>supply.
                Inr (record_ops [Put k prev] [(k, None)] (acc\<lparr>current_supply := supply\<rparr>))))))"

definition input_action ::
  "('p, 'a) env_scheme \<Rightarrow> rocksdb \<Rightarrow> usize \<Rightarrow> bool \<Rightarrow> action \<Rightarrow> utxo_acc \<Rightarrow> txinput \<Rightarrow> utxo_acc result" where
  "input_action e snapshot height anonymous action acc vin =
     rbind (if anonymous then key_image_action e snapshot height action vin acc else Inr acc)
       (spend_action e snapshot anonymous action vin)"

definition addr_action ::
  "'a crypto_scheme \<Rightarrow> rocksdb \<Rightarrow> hash256 \<Rightarrow> u32 \<Rightarrow> txoutput \<Rightarrow> action \<Rightarrow> utxo_acc \<Rightarrow> utxo_acc" where
  "addr_action c snapshot txid vout out action acc =
     (let k = (''addr_index'', addr_key c (script_pubkey out) txid vout)
      in case action of
           Connect \<Rightarrow> record_ops [Put k (u64_be (out_value out))] [(k, None)] acc
         | Disconnect \<Rightarrow> record_ops [Delete k] (remembered snapshot k) acc)"

definition output_action ::
  "'a codec_scheme \<Rightarrow> rocksdb \<Rightarrow> transaction \<Rightarrow> action \<Rightarrow> utxo_acc \<Rightarrow> nat \<times> txoutput \<Rightarrow> utxo_acc result" where
  "output_action e snapshot tx action acc = (\<lambda>(i, out).
     let vout = of_nat i; txid = tx_hash e tx;
         k = (utxo_cf (is_anonymous tx), utxo_key (is_anonymous tx) txid vout);
         element_hash = hash_utxo_entry e txid vout out;
         acc = acc\<lparr>current_set_hash := xor_hash (current_set_hash acc) element_hash\<rparr>
     in rbind
          (case action of
             Connect \<Rightarrow>
               rbind (or_err (checked_add (current_supply acc) (out_value out)) ValueOverflow) (\<lambda>supply.
               Inr (record_ops [Put k (ser_output e out)] [(k, None)] (acc\<lparr>current_supply := supply\<rparr>)))
           | Disconnect \<Rightarrow>
               rbind (or_err (checked_sub (current_supply acc) (out_value out)) ValueOverflow) (\<lambda>supply.
               Inr (record_ops [Delete k] (remembered snapshot k) (acc\<lparr>current_supply := supply\<rparr>))))
          (\<lambda>acc. Inr (if is_anonymous tx then acc else addr_action e snapshot txid vout out action acc)))"

definition handle_utxo_action ::
  "('p, 'a) env_scheme \<Rightarrow> rocksdb \<Rightarrow> usize \<Rightarrow> action \<Rightarrow> utxo_acc \<Rightarrow> transaction \<Rightarrow> utxo_acc result" where
  "handle_utxo_action e snapshot height action acc tx =
     (if is_coinbase tx then coinbase_action e snapshot height tx action acc
      else
        rbind (try_fold (input_action e snapshot height (is_anonymous tx) action) acc (inputs tx)) (\<lambda>acc.
        try_fold (output_action e snapshot tx action) acc
          (enumerate 0 (if action = Connect then outputs tx else rev (outputs tx)))))"

definition DB_KEY_UTXO_SET_HASH :: dbkey where "DB_KEY_UTXO_SET_HASH = (default_cf, ascii ''utxo_set_hash'')"
definition DB_KEY_TOTAL_SUPPLY :: dbkey where "DB_KEY_TOTAL_SUPPLY = (default_cf, ascii ''total_supply'')"

definition apply_utxo_changes ::
  "('p, 'a) env_scheme \<Rightarrow> rocksdb \<Rightarrow> hash256 \<Rightarrow> u64 \<Rightarrow> block \<Rightarrow> usize \<Rightarrow> action \<Rightarrow> write_batch \<Rightarrow> utxo_acc result" where
  "apply_utxo_changes e snapshot set_hash supply block height action batch0 =
     rbind (try_fold (handle_utxo_action e snapshot height action)
              \<lparr>batch = batch0, rollback_ops = [], current_set_hash = set_hash, current_supply = supply\<rparr>
              (txs block)) (\<lambda>acc.
     Inr (acc\<lparr>batch := batch acc @ [Put DB_KEY_UTXO_SET_HASH (current_set_hash acc),
                                  Put DB_KEY_TOTAL_SUPPLY (u64_be (current_supply acc))]\<rparr>))"

text \<open>The batch that \<^verbatim>\<open>apply_block_action\<close> writes when the write of the block fails.\<close>

definition rollback_batch :: "(dbkey \<times> bytes option) list \<Rightarrow> write_batch" where
  "rollback_batch undo = map (\<lambda>(k, value). case value of Some v \<Rightarrow> Put k v | None \<Rightarrow> Delete k) (rev undo)"

definition compute_cf_supply :: "'a codec_scheme \<Rightarrow> rocksdb \<Rightarrow> string \<Rightarrow> u64 result" where
  "compute_cf_supply e db cf =
     try_fold (\<lambda>sum (k, v).
         rbind (or_err (de_output e v) (Anyhow ''Deserialize failed in supply validation'')) (\<lambda>out.
         or_err (checked_add sum (out_value out)) ValueOverflow)) 0 (tables db cf)"

section \<open>Measures of a table\<close>

text \<open>
  The set hash and the supply are both sums over the entries of a table, in the two commutative
  structures of XOR on hashes and of addition.
\<close>

locale table_measure =
  fixes add :: "'g \<Rightarrow> 'g \<Rightarrow> 'g" and zero :: 'g and contrib :: "bytes \<Rightarrow> bytes \<Rightarrow> 'g"
  assumes add_left_commute: "add a (add b c) = add b (add a c)"
begin

abbreviation measure_of :: "table \<Rightarrow> 'g" where
  "measure_of t \<equiv> foldr (\<lambda>(k, v). add (contrib k v)) t zero"

lemma measure_put:
  "tbl_ok t \<Longrightarrow> tbl_get t k = None \<Longrightarrow> measure_of (tbl_put k v t) = add (contrib k v) (measure_of t)"
proof (induction k v t rule: tbl_put.induct)
  case (2 k v k' v' t)
  then show ?case
    by (cases "k = k'") (auto simp: tbl_get_def tbl_ok_def add_left_commute)
qed simp

lemma measure_del:
  "tbl_ok t \<Longrightarrow> tbl_get t k = Some v \<Longrightarrow> add (contrib k v) (measure_of (tbl_del k t)) = measure_of t"
proof (induction t)
  case (Cons x t)
  obtain k' v' where x: "x = (k', v')" by (cases x)
  show ?case
  proof (cases "k = k'")
    case True
    then have "tbl_del k t = t"
      using Cons.prems(1) by (force simp: x tbl_ok_def tbl_del_def intro: filter_True)
    then show ?thesis using Cons.prems(2) True by (simp add: x tbl_get_def tbl_del_def)
  next
    case False
    have "add (contrib k v) (measure_of (tbl_del k t)) = measure_of t"
      using Cons False by (auto simp: x tbl_ok_def tbl_get_def)
    moreover have "measure_of (tbl_del k (x # t)) = add (contrib k' v') (measure_of (tbl_del k t))"
      using False by (simp add: x tbl_del_def)
    ultimately show ?thesis
      using add_left_commute [of "contrib k v" "contrib k' v'" "measure_of (tbl_del k t)"] by (simp add: x)
  qed
qed (simp add: tbl_get_def)

end

section \<open>Set hash and supply of a database\<close>

definition entry_digest :: "'a codec_scheme \<Rightarrow> bytes \<Rightarrow> bytes \<Rightarrow> hash256" where
  "entry_digest e k v = (case de_output e v of
     Some out \<Rightarrow> sha256d e (drop 2 k @ u64_be (out_value out) @ script_pubkey out @
       (case commitment out of Some comm \<Rightarrow> comm | None \<Rightarrow> []))
   | None \<Rightarrow> zero_hash)"

definition entry_value :: "'a codec_scheme \<Rightarrow> bytes \<Rightarrow> bytes \<Rightarrow> nat" where
  "entry_value e k v = (case de_output e v of Some out \<Rightarrow> unat (out_value out) | None \<Rightarrow> 0)"

definition tbl_digest :: "'a codec_scheme \<Rightarrow> table \<Rightarrow> hash256" where
  "tbl_digest e t = foldr (\<lambda>(k, v). xor_hash (entry_digest e k v)) t zero_hash"

definition tbl_value :: "'a codec_scheme \<Rightarrow> table \<Rightarrow> nat" where
  "tbl_value e t = foldr (\<lambda>(k, v). (+) (entry_value e k v)) t 0"

lemma xor_hash_left_commute: "xor_hash a (xor_hash b c) = xor_hash b (xor_hash a c)"
  by (auto simp: xor_hash_def list_eq_iff_nth_eq min_def xor.left_commute)

lemma xor_hash_commute: "xor_hash a b = xor_hash b a"
  by (auto simp: xor_hash_def list_eq_iff_nth_eq xor.commute)

lemma xor_hash_assoc: "xor_hash (xor_hash a b) c = xor_hash a (xor_hash b c)"
  by (auto simp: xor_hash_def list_eq_iff_nth_eq min_def xor.assoc)

lemma xor_hash_swap:
  "xor_hash (xor_hash d a) b = xor_hash (xor_hash a b) d" "xor_hash a (xor_hash d b) = xor_hash (xor_hash a b) d"
  by (metis xor_hash_assoc xor_hash_commute)+

lemma length_xor_hash [simp]: "length (xor_hash a b) = min (length a) (length b)"
  by (simp add: xor_hash_def)

lemma xor_hash_cancel: "length b \<le> length a \<Longrightarrow> xor_hash a (xor_hash a b) = b"
  by (auto simp: xor_hash_def list_eq_iff_nth_eq simp flip: xor.assoc)

interpretation digest: table_measure xor_hash zero_hash "entry_digest e" for e :: "'a codec_scheme"
  by unfold_locales (rule xor_hash_left_commute)

interpretation total_value: table_measure "(+)" "0::nat" "entry_value e" for e :: "'a codec_scheme"
  by unfold_locales simp

lemma length_tbl_digest [simp]: "crypto_ok e \<Longrightarrow> length (tbl_digest e t) = 32"
  by (induction t) (auto simp: tbl_digest_def entry_digest_def split: option.splits)

lemma length_entry_digest [simp]: "crypto_ok e \<Longrightarrow> length (entry_digest e k v) = 32"
  by (simp add: entry_digest_def split: option.splits)

lemmas tbl_digest_put = digest.measure_put [folded tbl_digest_def]
  and tbl_value_put = total_value.measure_put [folded tbl_value_def]
  and tbl_value_del = total_value.measure_del [folded tbl_value_def]

lemma tbl_digest_del:
  assumes "crypto_ok e" "tbl_ok t" "tbl_get t k = Some v"
  shows "tbl_digest e (tbl_del k t) = xor_hash (entry_digest e k v) (tbl_digest e t)"
  using digest.measure_del [OF assms(2,3), of e, folded tbl_digest_def]
    xor_hash_cancel [of "tbl_digest e (tbl_del k t)" "entry_digest e k v"] assms(1) by simp

definition utxo_digest :: "'a codec_scheme \<Rightarrow> rocksdb \<Rightarrow> hash256" where
  "utxo_digest e db = xor_hash (tbl_digest e (tables db ''utxo'')) (tbl_digest e (tables db ''anonymous''))"

definition utxo_total :: "'a codec_scheme \<Rightarrow> rocksdb \<Rightarrow> nat" where
  "utxo_total e db = tbl_value e (tables db ''utxo'') + tbl_value e (tables db ''anonymous'')"

definition utxo_cfs :: "string set" where "utxo_cfs = {''utxo'', ''anonymous''}"

lemma utxo_cf_in [simp]: "utxo_cf a \<in> utxo_cfs"
  by (simp add: utxo_cf_def utxo_cfs_def)

lemma measures_frame:
  assumes "fst k \<notin> utxo_cfs"
  shows "utxo_digest e (db_put k v db) = utxo_digest e db" "utxo_total e (db_put k v db) = utxo_total e db"
    "utxo_digest e (db_del k db) = utxo_digest e db" "utxo_total e (db_del k db) = utxo_total e db"
  using assms by (auto simp: utxo_digest_def utxo_total_def db_put_def db_del_def utxo_cfs_def)

lemma measures_put:
  assumes "db_ok db" "fst k \<in> utxo_cfs" "db_get db k = None"
  shows "utxo_digest e (db_put k v db) = xor_hash (utxo_digest e db) (entry_digest e (snd k) v)"
    "utxo_total e (db_put k v db) = utxo_total e db + entry_value e (snd k) v"
proof -
  let ?t = "tables db (fst k)"
  have "tbl_ok ?t" "tbl_get ?t (snd k) = None" using assms by (simp_all add: db_ok_def db_get_def)
  then have put: "tbl_digest e (tbl_put (snd k) v ?t) = xor_hash (entry_digest e (snd k) v) (tbl_digest e ?t)"
    "tbl_value e (tbl_put (snd k) v ?t) = entry_value e (snd k) v + tbl_value e ?t"
    by (simp_all only: tbl_digest_put tbl_value_put)
  from assms(2) have cf: "fst k = ''utxo'' \<or> fst k = ''anonymous''" by (simp add: utxo_cfs_def)
  then consider "fst k = ''utxo''" | "fst k = ''anonymous''" by blast
  then show "utxo_digest e (db_put k v db) = xor_hash (utxo_digest e db) (entry_digest e (snd k) v)"
  proof cases
    case 1
    with put(1) show ?thesis by (simp add: utxo_digest_def db_put_def) (rule xor_hash_swap)
  next
    case 2
    with put(1) show ?thesis by (simp add: utxo_digest_def db_put_def) (rule xor_hash_swap)
  qed
  show "utxo_total e (db_put k v db) = utxo_total e db + entry_value e (snd k) v"
    using cf put(2) by (elim disjE) (simp_all add: utxo_total_def db_put_def)
qed

lemma measures_del:
  assumes "crypto_ok e" "db_ok db" "fst k \<in> utxo_cfs" "db_get db k = Some v"
  shows "utxo_digest e (db_del k db) = xor_hash (utxo_digest e db) (entry_digest e (snd k) v)"
    "utxo_total e db = utxo_total e (db_del k db) + entry_value e (snd k) v"
proof -
  let ?t = "tables db (fst k)"
  have t: "tbl_ok ?t" "tbl_get ?t (snd k) = Some v" using assms by (simp_all add: db_ok_def db_get_def)
  note del = tbl_digest_del [OF assms(1) t] tbl_value_del [OF t, of e]
  from assms(3) have cf: "fst k = ''utxo'' \<or> fst k = ''anonymous''" by (simp add: utxo_cfs_def)
  then consider "fst k = ''utxo''" | "fst k = ''anonymous''" by blast
  then show "utxo_digest e (db_del k db) = xor_hash (utxo_digest e db) (entry_digest e (snd k) v)"
  proof cases
    case 1
    with del(1) show ?thesis by (simp add: utxo_digest_def db_del_def) (rule xor_hash_swap)
  next
    case 2
    with del(1) show ?thesis by (simp add: utxo_digest_def db_del_def) (rule xor_hash_swap)
  qed
  show "utxo_total e db = utxo_total e (db_del k db) + entry_value e (snd k) v"
    using cf del(2) by (elim disjE) (simp_all add: utxo_total_def db_del_def)
qed

section \<open>The set hash and the supply follow the database\<close>

definition spends :: "transaction \<Rightarrow> dbkey list" where
  "spends tx = (if is_coinbase tx then []
     else map (\<lambda>vin. (utxo_cf (is_anonymous tx), utxo_key (is_anonymous tx) (in_txid vin) (in_vout vin))) (inputs tx))"

definition creates :: "'a codec_scheme \<Rightarrow> transaction \<Rightarrow> dbkey list" where
  "creates e tx = (if is_coinbase tx then []
     else map (\<lambda>i. (utxo_cf (is_anonymous tx), utxo_key (is_anonymous tx) (tx_hash e tx) (of_nat i))) [0..<length (outputs tx)])"

text \<open>
  \<open>tracks e db touched acc\<close>: the running set hash and supply are those of the database with the batch
  written, and keys outside \<open>touched\<close> still hold what the snapshot holds.
\<close>

definition tracks :: "'a codec_scheme \<Rightarrow> rocksdb \<Rightarrow> dbkey set \<Rightarrow> utxo_acc \<Rightarrow> bool" where
  "tracks e db touched acc \<longleftrightarrow>
     current_set_hash acc = utxo_digest e (db_write (batch acc) db) \<and>
     unat (current_supply acc) = utxo_total e (db_write (batch acc) db) \<and>
     (\<forall>k. fst k \<in> utxo_cfs \<and> k \<notin> touched \<longrightarrow> db_get (db_write (batch acc) db) k = db_get db k)"

lemma db_write_snoc: "db_write (ops @ [op]) db = run_op db_put db_del op (db_write ops db)"
  by (simp add: db_write_def run_batch_def)

lemma batch_record_ops [simp]:
  "batch (record_ops ops undo acc) = batch acc @ ops"
  "current_set_hash (record_ops ops undo acc) = current_set_hash acc"
  "current_supply (record_ops ops undo acc) = current_supply acc"
  "rollback_ops (record_ops ops undo acc) = rollback_ops acc @ undo"
  by (simp_all add: record_ops_def)

lemma tracks_frame:
  assumes "tracks e db touched acc" "db_ok db" "fst (op_key op) \<notin> utxo_cfs"
  shows "tracks e db touched (record_ops [op] undo acc)"
  using assms db_ok_write [of db "batch acc"]
  by (cases op) (auto simp: tracks_def db_write_snoc measures_frame db_get_put db_get_del)

lemma entry_digest_key:
  "de_output e v = Some out \<Longrightarrow> entry_digest e (utxo_key a txid vout) v = hash_utxo_entry e txid vout out"
  by (simp add: entry_digest_def utxo_key_def ascii_def hash_utxo_entry_def)

lemma tracks_spend:
  assumes "crypto_ok e" "db_ok db" "tracks e db touched acc"
    and "spend_action e db anon Connect vin acc = Inr acc'"
    and "(utxo_cf anon, utxo_key anon (in_txid vin) (in_vout vin)) \<notin> touched"
  shows "tracks e db (insert (utxo_cf anon, utxo_key anon (in_txid vin) (in_vout vin)) touched) acc'"
proof -
  let ?k = "(utxo_cf anon, utxo_key anon (in_txid vin) (in_vout vin))" and ?d = "db_write (batch acc) db"
  obtain prev out s where
    prev: "db_get db ?k = Some prev" "de_output e prev = Some out"
      "checked_sub (current_supply acc) (out_value out) = Some s" and
    acc': "acc' = record_ops [Delete ?k] [(?k, Some prev)]
      (acc\<lparr>current_set_hash := xor_hash (current_set_hash acc) (hash_utxo_entry e (in_txid vin) (in_vout vin) out),
           current_supply := s\<rparr>)"
    using assms(4) by (auto simp: spend_action_def Let_def result_simps)
  have "db_get ?d ?k = Some prev" using assms(3,5) prev(1) by (auto simp: tracks_def)
  then have "utxo_digest e (db_del ?k ?d) = xor_hash (utxo_digest e ?d) (entry_digest e (snd ?k) prev)"
    "utxo_total e ?d = utxo_total e (db_del ?k ?d) + entry_value e (snd ?k) prev"
    using measures_del [of e ?d ?k prev] assms(1,2) by (simp_all add: db_ok_write)
  then show ?thesis
    using assms(2,3) prev
    by (auto simp: acc' tracks_def db_write_snoc db_get_del db_ok_write entry_digest_key entry_value_def
        checked_sub_eq_Some unat_sub_exact)
qed

lemma tracks_key_image:
  assumes "db_ok db" "tracks e db touched acc" "key_image_action e db h Connect vin acc = Inr acc'"
  shows "tracks e db touched acc'"
  using assms by (auto simp: key_image_action_def Let_def result_simps utxo_cfs_def intro!: tracks_frame)

lemma tracks_input:
  assumes "crypto_ok e" "db_ok db" "tracks e db touched acc"
    and "input_action e db h anon Connect acc vin = Inr acc'"
    and "(utxo_cf anon, utxo_key anon (in_txid vin) (in_vout vin)) \<notin> touched"
  shows "tracks e db (insert (utxo_cf anon, utxo_key anon (in_txid vin) (in_vout vin)) touched) acc'"
proof -
  obtain acc1 where "(if anon then key_image_action e db h Connect vin acc else Inr acc) = Inr acc1"
    "spend_action e db anon Connect vin acc1 = Inr acc'"
    using assms(4) by (auto simp: input_action_def result_simps)
  moreover from this(1) have "tracks e db touched acc1"
    using assms(2,3) by (auto split: if_splits intro: tracks_key_image)
  ultimately show ?thesis using assms tracks_spend by blast
qed

lemma tracks_inputs:
  fixes anon defines "key \<equiv> \<lambda>vin. (utxo_cf anon, utxo_key anon (in_txid vin) (in_vout vin))"
  assumes "crypto_ok e" "db_ok db" "tracks e db touched acc"
    and "try_fold (input_action e db h anon Connect) acc vins = Inr acc'"
    and "distinct (map key vins)" "set (map key vins) \<inter> touched = {}"
  shows "tracks e db (set (map key vins) \<union> touched) acc'"
  using assms(4-)
proof (induction vins arbitrary: acc touched)
  case (Cons vin vins)
  obtain acc1 where "input_action e db h anon Connect acc vin = Inr acc1"
    "try_fold (input_action e db h anon Connect) acc1 vins = Inr acc'"
    using Cons.prems(2) by (auto simp: result_simps)
  moreover from this(1) have "tracks e db (insert (key vin) touched) acc1"
    using tracks_input [OF assms(2,3) Cons.prems(1)] Cons.prems(4) by (simp add: key_def)
  ultimately show ?case using Cons.IH [of "insert (key vin) touched" acc1] Cons.prems(3,4) by auto
qed simp

lemma tracks_output:
  fixes tx and e :: "'a codec_scheme"
  defines "key \<equiv> \<lambda>i. (utxo_cf (is_anonymous tx), utxo_key (is_anonymous tx) (tx_hash e tx) (of_nat i))"
  assumes "crypto_ok e" "bincode_ok e" "db_ok db" "tracks e db touched acc"
    and "output_action e db tx Connect acc (i, out) = Inr acc'"
    and "key i \<notin> touched" "db_get db (key i) = None"
  shows "tracks e db (insert (key i) touched) acc'"
proof -
  let ?d = "db_write (batch acc) db"
  obtain s acc1 where s: "checked_add (current_supply acc) (out_value out) = Some s" and
    acc1: "acc1 = record_ops [Put (key i) (ser_output e out)] [(key i, None)]
        (acc\<lparr>current_set_hash := xor_hash (current_set_hash acc) (hash_utxo_entry e (tx_hash e tx) (of_nat i) out),
             current_supply := s\<rparr>)" and
    acc': "acc' = (if is_anonymous tx then acc1 else addr_action e db (tx_hash e tx) (of_nat i) out Connect acc1)"
    using assms(6) by (auto simp: output_action_def Let_def result_simps key_def)
  have "db_get ?d (key i) = None" using assms(5,7,8) by (auto simp: tracks_def key_def)
  then have put: "utxo_digest e (db_put (key i) (ser_output e out) ?d) =
      xor_hash (utxo_digest e ?d) (entry_digest e (snd (key i)) (ser_output e out))"
    "utxo_total e (db_put (key i) (ser_output e out) ?d) =
      utxo_total e ?d + entry_value e (snd (key i)) (ser_output e out)"
    using measures_put [of ?d "key i"] assms(4) by (simp_all add: db_ok_write key_def)
  have out: "de_output e (ser_output e out) = Some out" using assms(3) by (simp add: bincode_ok_def)
  have "entry_digest e (snd (key i)) (ser_output e out) = hash_utxo_entry e (tx_hash e tx) (of_nat i) out"
    "entry_value e (snd (key i)) (ser_output e out) = unat (out_value out)"
    using entry_digest_key [OF out] by (simp_all add: key_def entry_value_def out)
  then have "tracks e db (insert (key i) touched) acc1"
    using put s assms(4,5) by (auto simp: acc1 tracks_def db_write_snoc db_get_put db_ok_write checked_add_eq_Some)
  then show ?thesis
    using assms(4) by (auto simp: acc' addr_action_def Let_def utxo_cfs_def intro!: tracks_frame)
qed

lemma tracks_outputs:
  fixes tx and e :: "'a codec_scheme"
  defines "key \<equiv> \<lambda>i. (utxo_cf (is_anonymous tx), utxo_key (is_anonymous tx) (tx_hash e tx) (of_nat i))"
  assumes "crypto_ok e" "bincode_ok e" "db_ok db" "tracks e db touched acc"
    and "try_fold (output_action e db tx Connect) acc (enumerate n outs) = Inr acc'"
    and "distinct (map key [n..<n + length outs])" "set (map key [n..<n + length outs]) \<inter> touched = {}"
    and "\<forall>k\<in>set (map key [n..<n + length outs]). db_get db k = None"
  shows "tracks e db (set (map key [n..<n + length outs]) \<union> touched) acc'"
  using assms(5-)
proof (induction outs arbitrary: n acc touched)
  case (Cons out outs)
  have range: "[n..<n + length (out # outs)] = n # [Suc n..<Suc n + length outs]"
    by (simp add: upt_conv_Cons del: upt_Suc)
  obtain acc1 where step: "output_action e db tx Connect acc (n, out) = Inr acc1"
    "try_fold (output_action e db tx Connect) acc1 (enumerate (Suc n) outs) = Inr acc'"
    using Cons.prems(2) by (auto simp: result_simps)
  have "tracks e db (insert (key n) touched) acc1"
    using tracks_output [OF assms(2-4) Cons.prems(1) step(1)] Cons.prems(4,5) unfolding range by (simp add: key_def)
  then have "tracks e db (set (map key [Suc n..<Suc n + length outs]) \<union> insert (key n) touched) acc'"
    using Cons.prems(3-5) unfolding range by (intro Cons.IH [OF _ step(2)]) auto
  then show ?case unfolding range by simp
qed simp

lemma tracks_tx:
  assumes "crypto_ok e" "bincode_ok e" "db_ok db" "tracks e db touched acc"
    and "handle_utxo_action e db h Connect acc tx = Inr acc'"
    and "distinct (spends tx @ creates e tx)" "set (spends tx @ creates e tx) \<inter> touched = {}"
    and "\<forall>k\<in>set (creates e tx). db_get db k = None"
  shows "tracks e db (set (spends tx @ creates e tx) \<union> touched) acc'"
proof (cases "is_coinbase tx")
  case True
  then show ?thesis
    using assms(3-5)
    by (auto simp: handle_utxo_action_def coinbase_action_def spends_def creates_def result_simps cf_handle_def
        utxo_cfs_def Let_def split: if_splits intro!: tracks_frame)
next
  case False
  obtain acc1 where
    i: "try_fold (input_action e db h (is_anonymous tx) Connect) acc (inputs tx) = Inr acc1" and
    o: "try_fold (output_action e db tx Connect) acc1 (enumerate 0 (outputs tx)) = Inr acc'"
    using assms(5) False by (auto simp: handle_utxo_action_def result_simps)
  have "tracks e db (set (spends tx) \<union> touched) acc1"
    using tracks_inputs [OF assms(1,3,4) i] assms(6,7) False by (simp add: spends_def Int_Un_distrib2)
  then have "tracks e db (set (creates e tx) \<union> (set (spends tx) \<union> touched)) acc'"
    using tracks_outputs [OF assms(1-3) _ o, of "set (spends tx) \<union> touched"] assms(6-8) False
    by (simp add: creates_def Int_Un_distrib Int_Un_distrib2 Int_commute)
  then show ?thesis by (simp add: Un_ac)
qed

definition touches :: "'a codec_scheme \<Rightarrow> transaction list \<Rightarrow> dbkey list" where
  "touches e ts = concat (map (\<lambda>tx. spends tx @ creates e tx) ts)"

definition created :: "'a codec_scheme \<Rightarrow> transaction list \<Rightarrow> dbkey list" where
  "created e ts = concat (map (creates e) ts)"

lemma tracks_txs:
  assumes "crypto_ok e" "bincode_ok e" "db_ok db" "tracks e db touched acc"
    and "try_fold (handle_utxo_action e db h Connect) acc ts = Inr acc'"
    and "distinct (touches e ts)" "set (touches e ts) \<inter> touched = {}"
    and "\<forall>k\<in>set (created e ts). db_get db k = None"
  shows "tracks e db (set (touches e ts) \<union> touched) acc'"
  using assms(4-)
proof (induction ts arbitrary: acc touched)
  case (Cons tx ts)
  let ?ks = "set (spends tx @ creates e tx)"
  obtain acc1 where step: "handle_utxo_action e db h Connect acc tx = Inr acc1"
    "try_fold (handle_utxo_action e db h Connect) acc1 ts = Inr acc'"
    using Cons.prems(2) by (auto simp: result_simps)
  have keys: "touches e (tx # ts) = (spends tx @ creates e tx) @ touches e ts"
    "created e (tx # ts) = creates e tx @ created e ts"
    by (simp_all add: touches_def created_def)
  have "tracks e db (?ks \<union> touched) acc1"
    using Cons.prems(3-5) unfolding keys by (intro tracks_tx [OF assms(1-3) Cons.prems(1) step(1)]) auto
  then have "tracks e db (set (touches e ts) \<union> (?ks \<union> touched)) acc'"
    using Cons.prems(3-5) unfolding keys by (intro Cons.IH [OF _ step(2)]) auto
  then show ?case unfolding keys by (simp add: Un_ac)
qed (simp add: touches_def)

lemma apply_utxo_changes_eq_Inr:
  "apply_utxo_changes e db set_hash supply b h action batch0 = Inr acc \<longleftrightarrow>
     (\<exists>acc0. try_fold (handle_utxo_action e db h action)
        \<lparr>batch = batch0, rollback_ops = [], current_set_hash = set_hash, current_supply = supply\<rparr> (txs b) = Inr acc0 \<and>
      acc = acc0\<lparr>batch := batch acc0 @ [Put DB_KEY_UTXO_SET_HASH (current_set_hash acc0),
                                       Put DB_KEY_TOTAL_SUPPLY (u64_be (current_supply acc0))]\<rparr>)"
  by (auto simp: apply_utxo_changes_def result_simps)

lemma db_write_two: "db_write (ops @ [op1, op2]) db = run_op db_put db_del op2 (run_op db_put db_del op1 (db_write ops db))"
  by (simp add: db_write_def run_batch_def)

text \<open>C5. Connecting a block keeps the running set hash equal to the XOR digest of all unspent outputs,
  transparent and anonymous, and the running supply equal to the sum of their values, and stores both.
  This needs a block whose spent and created outputs are pairwise distinct and whose created outputs
  are new; a block that spends an output twice is connected as well and is not covered.\<close>

theorem connect_tracks_ledger:
  assumes "crypto_ok e" "bincode_ok e" "db_ok db"
    and "apply_utxo_changes e db (utxo_digest e db) supply b h Connect [] = Inr acc"
    and "unat supply = utxo_total e db"
    and "distinct (touches e (txs b))" "\<forall>k\<in>set (created e (txs b)). db_get db k = None"
  shows "current_set_hash acc = utxo_digest e (db_write (batch acc) db) \<and>
    unat (current_supply acc) = utxo_total e (db_write (batch acc) db) \<and>
    db_get (db_write (batch acc) db) DB_KEY_UTXO_SET_HASH = Some (utxo_digest e (db_write (batch acc) db)) \<and>
    db_get (db_write (batch acc) db) DB_KEY_TOTAL_SUPPLY = Some (u64_be (current_supply acc))"
proof -
  let ?acc = "\<lparr>batch = [], rollback_ops = [], current_set_hash = utxo_digest e db, current_supply = supply\<rparr>"
  obtain acc0 where acc0: "try_fold (handle_utxo_action e db h Connect) ?acc (txs b) = Inr acc0" and
    acc: "acc = acc0\<lparr>batch := batch acc0 @ [Put DB_KEY_UTXO_SET_HASH (current_set_hash acc0),
                                       Put DB_KEY_TOTAL_SUPPLY (u64_be (current_supply acc0))]\<rparr>"
    using assms(4) by (auto simp: apply_utxo_changes_eq_Inr)
  have "tracks e db {} ?acc" using assms(5) by (simp add: tracks_def db_write_def run_batch_def)
  then have "tracks e db (set (touches e (txs b)) \<union> {}) acc0"
    using assms by (intro tracks_txs [OF assms(1-3) _ acc0]) auto
  moreover have "db_ok (db_write (batch acc0) db)" by (rule db_ok_write [OF assms(3)])
  ultimately show ?thesis
    by (simp add: acc tracks_def db_write_two measures_frame db_get_put rdb.invar_put DB_KEY_UTXO_SET_HASH_def
        DB_KEY_TOTAL_SUPPLY_def utxo_cfs_def ascii_def)
qed

section \<open>Refinement of the abstract ledger\<close>

type_synonym utxo_set = "bool \<times> outpoint \<Rightarrow> txoutput option"

definition utxo_map :: "'a codec_scheme \<Rightarrow> rocksdb \<Rightarrow> utxo_set" where
  "utxo_map e db = (\<lambda>(anon, op). unspent e db anon op)"

text \<open>The ledger as it is meant to be: every transaction takes away the outputs it spends and adds the outputs it creates.\<close>

definition ledger_tx :: "'a codec_scheme \<Rightarrow> transaction \<Rightarrow> utxo_set \<Rightarrow> utxo_set" where
  "ledger_tx e tx U =
     fold (\<lambda>(i, out) U. U((is_anonymous tx, tx_hash e tx, of_nat i) \<mapsto> out)) (enumerate 0 (outputs tx))
       (fold (\<lambda>vin U. U((is_anonymous tx, outpoint vin) := None)) (inputs tx) U)"

lemma utxo_key_eq_iff [simp]: "utxo_key a t v = utxo_key a' t' v' \<longleftrightarrow> a = a' \<and> t = t' \<and> v = v'"
  by (auto simp: utxo_key_def ascii_def)

lemma utxo_map_get: "utxo_map e db (a, t, v) = Option.bind (db_get db (utxo_cf a, utxo_key a t v)) (de_output e)"
  by (simp add: utxo_map_def unspent_def utxo_cf_def)

lemma utxo_map_del:
  "db_ok db \<Longrightarrow> utxo_map e (db_del (utxo_cf a, utxo_key a t v) db) = (utxo_map e db)((a, t, v) := None)"
  by (auto simp: fun_eq_iff utxo_map_get db_get_del)

lemma utxo_map_put:
  "db_ok db \<Longrightarrow> bincode_ok e \<Longrightarrow>
   utxo_map e (db_put (utxo_cf a, utxo_key a t v) (ser_output e out) db) = (utxo_map e db)((a, t, v) \<mapsto> out)"
  by (auto simp: fun_eq_iff utxo_map_get db_get_put bincode_ok_def)

lemma utxo_map_put_frame: "db_ok db \<Longrightarrow> fst k \<notin> utxo_cfs \<Longrightarrow> utxo_map e (db_put k v db) = utxo_map e db"
  by (auto simp: fun_eq_iff utxo_map_get db_get_put utxo_cf_def utxo_cfs_def)

lemma spend_connectE:
  assumes "spend_action e db a Connect vin acc = Inr acc'"
  obtains prev out where
    "db_get db (utxo_cf a, utxo_key a (in_txid vin) (in_vout vin)) = Some prev" "de_output e prev = Some out"
    "batch acc' = batch acc @ [Delete (utxo_cf a, utxo_key a (in_txid vin) (in_vout vin))]"
    "rollback_ops acc' = rollback_ops acc @ [((utxo_cf a, utxo_key a (in_txid vin) (in_vout vin)), Some prev)]"
  using assms by (auto simp: spend_action_def Let_def result_simps)

lemma input_connectE:
  assumes "input_action e db h a Connect acc vin = Inr acc'"
  obtains prev out kis where
    "db_get db (utxo_cf a, utxo_key a (in_txid vin) (in_vout vin)) = Some prev" "de_output e prev = Some out"
    "kis = (if a then [(''key_images'', take 32 (script_sig vin))] else [])"
    "\<forall>k\<in>set kis. db_get db k = None"
    "batch acc' = batch acc @ map (\<lambda>k. Put k (u64_be h)) kis @
       [Delete (utxo_cf a, utxo_key a (in_txid vin) (in_vout vin))]"
    "rollback_ops acc' = rollback_ops acc @ map (\<lambda>k. (k, None)) kis @
       [((utxo_cf a, utxo_key a (in_txid vin) (in_vout vin)), Some prev)]"
proof -
  obtain acc1 where acc1: "(if a then key_image_action e db h Connect vin acc else Inr acc) = Inr acc1"
    "spend_action e db a Connect vin acc1 = Inr acc'"
    using assms by (auto simp: input_action_def result_simps)
  from acc1(2) show ?thesis
  proof (rule spend_connectE)
    fix prev out
    assume "db_get db (utxo_cf a, utxo_key a (in_txid vin) (in_vout vin)) = Some prev" "de_output e prev = Some out"
      "batch acc' = batch acc1 @ [Delete (utxo_cf a, utxo_key a (in_txid vin) (in_vout vin))]"
      "rollback_ops acc' = rollback_ops acc1 @ [((utxo_cf a, utxo_key a (in_txid vin) (in_vout vin)), Some prev)]"
    then show ?thesis
      using acc1(1) that [of prev out "if a then [(''key_images'', take 32 (script_sig vin))] else []"]
      by (auto simp: key_image_action_def Let_def result_simps split: if_splits)
  qed
qed

lemma output_connectE:
  assumes "output_action e db tx Connect acc (i, out) = Inr acc'"
  obtains addrs where
    "addrs = (if is_anonymous tx then [] else [(''addr_index'', addr_key e (script_pubkey out) (tx_hash e tx) (of_nat i))])"
    "batch acc' = batch acc @
       [Put (utxo_cf (is_anonymous tx), utxo_key (is_anonymous tx) (tx_hash e tx) (of_nat i)) (ser_output e out)] @
       map (\<lambda>k. Put k (u64_be (out_value out))) addrs"
    "rollback_ops acc' = rollback_ops acc @
       [((utxo_cf (is_anonymous tx), utxo_key (is_anonymous tx) (tx_hash e tx) (of_nat i)), None)] @
       map (\<lambda>k. (k, None)) addrs"
  using assms by (auto simp: output_action_def addr_action_def Let_def result_simps)

lemma utxo_map_input:
  assumes "db_ok db" "input_action e db0 h a Connect acc vin = Inr acc'"
  shows "utxo_map e (db_write (batch acc') db) = (utxo_map e (db_write (batch acc) db))((a, outpoint vin) := None)"
  using assms(2)
proof (rule input_connectE)
  fix kis
  assume kis: "kis = (if a then [(''key_images'', take 32 (script_sig vin))] else [])"
    and b: "batch acc' = batch acc @ map (\<lambda>k. Put k (u64_be h)) kis @
       [Delete (utxo_cf a, utxo_key a (in_txid vin) (in_vout vin))]"
  then show ?thesis
    using assms(1)
    by (simp add: db_write_snoc db_write_two utxo_map_del utxo_map_put_frame db_ok_write rdb.invar_put utxo_cfs_def)
qed

lemma utxo_map_output:
  assumes "db_ok db" "bincode_ok e" "output_action e db0 tx Connect acc (i, out) = Inr acc'"
  shows "utxo_map e (db_write (batch acc') db) =
    (utxo_map e (db_write (batch acc) db))((is_anonymous tx, tx_hash e tx, of_nat i) \<mapsto> out)"
  using assms(3)
  by (rule output_connectE)
    (use assms(1,2) in \<open>simp add: db_write_snoc db_write_two utxo_map_put utxo_map_put_frame db_ok_write
      rdb.invar_put utxo_cfs_def split: if_splits\<close>)

lemma utxo_map_inputs:
  assumes "db_ok db" "try_fold (input_action e db0 h a Connect) acc vins = Inr acc'"
  shows "utxo_map e (db_write (batch acc') db) =
    fold (\<lambda>vin U. U((a, outpoint vin) := None)) vins (utxo_map e (db_write (batch acc) db))"
  using assms(2)
  by (induction vins arbitrary: acc) (auto simp: result_simps utxo_map_input [OF assms(1)])

lemma utxo_map_outputs:
  assumes "db_ok db" "bincode_ok e" "try_fold (output_action e db0 tx Connect) acc outs = Inr acc'"
  shows "utxo_map e (db_write (batch acc') db) =
    fold (\<lambda>(i, out) U. U((is_anonymous tx, tx_hash e tx, of_nat i) \<mapsto> out)) outs (utxo_map e (db_write (batch acc) db))"
  using assms(3)
  by (induction outs arbitrary: acc) (auto simp: result_simps utxo_map_output [OF assms(1,2)])

lemma utxo_map_txs:
  assumes "db_ok db" "bincode_ok e" "try_fold (handle_utxo_action e db0 h Connect) acc ts = Inr acc'"
  shows "utxo_map e (db_write (batch acc') db) =
    fold (ledger_tx e) (filter (\<lambda>tx. \<not> is_coinbase tx) ts) (utxo_map e (db_write (batch acc) db))"
  using assms(3)
proof (induction ts arbitrary: acc)
  case (Cons tx ts)
  obtain acc1 where step: "handle_utxo_action e db0 h Connect acc tx = Inr acc1"
    "try_fold (handle_utxo_action e db0 h Connect) acc1 ts = Inr acc'"
    using Cons.prems by (auto simp: result_simps)
  have "utxo_map e (db_write (batch acc1) db) =
      (if is_coinbase tx then id else ledger_tx e tx) (utxo_map e (db_write (batch acc) db))"
  proof (cases "is_coinbase tx")
    case True
    then show ?thesis
      using step(1) assms(1)
      by (auto simp: handle_utxo_action_def coinbase_action_def Let_def result_simps cf_handle_def
          db_write_snoc utxo_map_put_frame db_ok_write utxo_cfs_def split: if_splits)
  next
    case False
    then obtain acc2 where
      i: "try_fold (input_action e db0 h (is_anonymous tx) Connect) acc (inputs tx) = Inr acc2" and
      o: "try_fold (output_action e db0 tx Connect) acc2 (enumerate 0 (outputs tx)) = Inr acc1"
      using step(1) by (auto simp: handle_utxo_action_def result_simps)
    show ?thesis
      using False utxo_map_inputs [OF assms(1) i] utxo_map_outputs [OF assms(1,2) o] by (simp add: ledger_tx_def)
  qed
  with Cons.IH [OF step(2)] show ?case by simp
qed simp

lemma connected_utxo_map:
  assumes "bincode_ok e" "db_ok db"
    and "apply_utxo_changes e db set_hash supply b h Connect [] = Inr acc"
  shows "utxo_map e (db_write (batch acc) db) = fold (ledger_tx e) (filter (\<lambda>tx. \<not> is_coinbase tx) (txs b)) (utxo_map e db)"
proof -
  obtain acc0 where acc0: "try_fold (handle_utxo_action e db h Connect)
      \<lparr>batch = [], rollback_ops = [], current_set_hash = set_hash, current_supply = supply\<rparr> (txs b) = Inr acc0" and
    acc: "acc = acc0\<lparr>batch := batch acc0 @ [Put DB_KEY_UTXO_SET_HASH (current_set_hash acc0),
                                       Put DB_KEY_TOTAL_SUPPLY (u64_be (current_supply acc0))]\<rparr>"
    using assms(3) by (auto simp: apply_utxo_changes_eq_Inr)
  have "utxo_map e (db_write (batch acc) db) = utxo_map e (db_write (batch acc0) db)"
    using assms(2) by (simp add: acc db_write_two utxo_map_put_frame rdb.invar_put db_ok_write utxo_cfs_def
        DB_KEY_UTXO_SET_HASH_def DB_KEY_TOTAL_SUPPLY_def)
  also have "\<dots> = fold (ledger_tx e) (filter (\<lambda>tx. \<not> is_coinbase tx) (txs b)) (utxo_map e db)"
    using utxo_map_txs [OF assms(2,1) acc0] by (simp add: db_write_def run_batch_def)
  finally show ?thesis .
qed

text \<open>C4. Connecting a block refines the ledger on all transactions but coinbases: the unspent outputs of the database after
  the batch are those before it with, transaction by transaction, the spent outputs removed and the created ones added.  The outputs of
  a coinbase, which the ledger would add, never become unspent outputs.\<close>

theorem connect_refines_ledger:
  assumes "bincode_ok e" "db_ok db"
    and "apply_utxo_changes e db set_hash supply b h Connect [] = Inr acc"
  shows "utxo_map e (db_write (batch acc) db) = fold (ledger_tx e) (filter (\<lambda>tx. \<not> is_coinbase tx) (txs b)) (utxo_map e db)"
  by (rule connected_utxo_map [OF assms])

section \<open>Rollback\<close>

text \<open>Every key the batch writes is on the rollback list, with the value the snapshot had or with none.\<close>

definition undoable :: "rocksdb \<Rightarrow> utxo_acc \<Rightarrow> bool" where
  "undoable db acc \<longleftrightarrow>
     (\<forall>k v. (k, Some v) \<in> set (rollback_ops acc) \<longrightarrow> db_get db k = Some v) \<and>
     op_key ` set (batch acc) \<subseteq> fst ` set (rollback_ops acc)"

lemma undoable_record:
  assumes "undoable db acc" "\<And>k v. (k, Some v) \<in> set undo \<Longrightarrow> db_get db k = Some v"
    and "op_key ` set ops \<subseteq> fst ` set undo"
  shows "undoable db (record_ops ops undo acc)"
  using assms by (auto simp: undoable_def)

lemma undoable_input:
  "input_action e db h a Connect acc vin = Inr acc' \<Longrightarrow> undoable db acc \<Longrightarrow> undoable db acc'"
  by (erule input_connectE) (auto simp: undoable_def)

lemma undoable_output:
  "output_action e db tx Connect acc out = Inr acc' \<Longrightarrow> undoable db acc \<Longrightarrow> undoable db acc'"
  by (cases out, hypsubst, erule output_connectE) (auto simp: undoable_def)

lemma undoable_tx:
  assumes "handle_utxo_action e db h Connect acc tx = Inr acc'" "undoable db acc"
  shows "undoable db acc'"
proof (cases "is_coinbase tx")
  case True
  then show ?thesis
    using assms
    by (auto simp: handle_utxo_action_def coinbase_action_def Let_def result_simps intro!: undoable_record)
next
  case False
  then obtain acc2 where
    i: "try_fold (input_action e db h (is_anonymous tx) Connect) acc (inputs tx) = Inr acc2" and
    o: "try_fold (output_action e db tx Connect) acc2 (enumerate 0 (outputs tx)) = Inr acc'"
    using assms(1) by (auto simp: handle_utxo_action_def result_simps)
  from i assms(2) have "undoable db acc2"
    by (rule try_fold_invariant [where I = "undoable db"]) (rule undoable_input)
  with o show ?thesis
    by (rule try_fold_invariant [where I = "undoable db"]) (rule undoable_output)
qed

lemma db_get_rollback:
  assumes "db_ok d" "\<forall>(k, v)\<in>set undo. db_get db k = v"
  shows "db_get (db_write (rollback_batch undo) d) k = (if k \<in> fst ` set undo then db_get db k else db_get d k)"
  using assms(2)
proof (induction undo)
  case (Cons x undo)
  obtain k' v where x: "x = (k', v)" by (cases x)
  have "db_ok (db_write (rollback_batch undo) d)" by (rule db_ok_write [OF assms(1)])
  moreover have "rollback_batch (x # undo) = rollback_batch undo @ [case v of Some v \<Rightarrow> Put k' v | None \<Rightarrow> Delete k']"
    by (simp add: rollback_batch_def x)
  ultimately show ?case
    using Cons by (auto simp: x db_write_snoc db_get_put db_get_del split: option.splits)
qed (simp add: rollback_batch_def db_write_def run_batch_def)

text \<open>C9. The rollback list undoes the batch of \<^verbatim>\<open>apply_utxo_changes\<close>: writing it after that batch, or when the batch was
  not written at all, gives back the old value of every key outside the default column family, provided
  that the keys the list deletes were absent before.  The set hash and the supply, which are in the default
  column family, are not on the list.\<close>

theorem rollback_restores:
  assumes "db_ok db" "apply_utxo_changes e db set_hash supply b h Connect [] = Inr acc"
    and "\<forall>(k, v)\<in>set (rollback_ops acc). v = None \<longrightarrow> db_get db k = None" "fst k \<noteq> default_cf"
  shows "db_get (db_write (rollback_batch (rollback_ops acc)) (db_write (batch acc) db)) k = db_get db k \<and>
    db_get (db_write (rollback_batch (rollback_ops acc)) db) k = db_get db k"
proof -
  obtain acc0 where acc0: "try_fold (handle_utxo_action e db h Connect)
      \<lparr>batch = [], rollback_ops = [], current_set_hash = set_hash, current_supply = supply\<rparr> (txs b) = Inr acc0" and
    acc: "acc = acc0\<lparr>batch := batch acc0 @ [Put DB_KEY_UTXO_SET_HASH (current_set_hash acc0),
                                       Put DB_KEY_TOTAL_SUPPLY (u64_be (current_supply acc0))]\<rparr>"
    using assms(2) by (auto simp: apply_utxo_changes_eq_Inr)
  have "undoable db acc0"
    by (rule try_fold_invariant [where I = "undoable db", OF acc0])
      (simp add: undoable_def, erule undoable_tx)
  then have some: "\<forall>k v. (k, Some v) \<in> set (rollback_ops acc) \<longrightarrow> db_get db k = Some v"
    and keys: "op_key ` set (batch acc0) \<subseteq> fst ` set (rollback_ops acc)"
    by (simp_all add: undoable_def acc)
  have "db_get db k = v" if "(k, v) \<in> set (rollback_ops acc)" for k v
    using that some assms(3) by (cases v) fastforce+
  then have undo: "\<forall>(k, v)\<in>set (rollback_ops acc). db_get db k = v" by blast
  have "db_get (db_write (batch acc) db) k = db_get db k" if "k \<notin> fst ` set (rollback_ops acc)"
    using that keys assms(1,4)
    by (intro db_get_write_frame) (auto simp: acc DB_KEY_UTXO_SET_HASH_def DB_KEY_TOTAL_SUPPLY_def)
  then show ?thesis
    using db_get_rollback [OF db_ok_write [OF assms(1)] undo, of "batch acc" k]
      db_get_rollback [OF assms(1) undo, of k] by auto
qed

section \<open>Disconnecting a block\<close>

lemma input_action_unspent:
  "input_action e db h a action acc vin = Inr acc' \<Longrightarrow> utxo_map e db (a, outpoint vin) \<noteq> None"
  by (cases action) (auto simp: input_action_def spend_action_def Let_def result_simps utxo_map_get)

lemma applied_inputs_unspent:
  assumes "apply_utxo_changes e db set_hash supply b h action batch0 = Inr acc"
    and "tx \<in> set (txs b)" "\<not> is_coinbase tx" "vin \<in> set (inputs tx)"
  shows "utxo_map e db (is_anonymous tx, outpoint vin) \<noteq> None"
proof -
  obtain t t' where "handle_utxo_action e db h action t tx = Inr t'"
    using assms(1,2) by (auto simp: apply_utxo_changes_eq_Inr dest: try_fold_step)
  then obtain t'' where "try_fold (input_action e db h (is_anonymous tx) action) t (inputs tx) = Inr t''"
    using assms(3) by (auto simp: handle_utxo_action_def result_simps)
  then obtain u u' where "input_action e db h (is_anonymous tx) action u vin = Inr u'"
    using assms(4) by (auto dest: try_fold_step)
  then show ?thesis by (rule input_action_unspent)
qed

lemma fold_spend: "fold (\<lambda>vin U. U((a, outpoint vin) := None)) vins U x =
    (if x \<in> (\<lambda>vin. (a, outpoint vin)) ` set vins then None else U x)"
  by (induction vins arbitrary: U) auto

lemma fold_create:
  fixes x :: "bool \<times> outpoint"
  assumes "x \<notin> (\<lambda>i. (a, txid, of_nat i)) ` {n..<n + length outs}"
  shows "fold (\<lambda>(i, out) U. U((a, txid, of_nat i) \<mapsto> out)) (enumerate n outs) U x = U x"
  using assms
proof (induction outs arbitrary: n U)
  case (Cons out outs)
  then have "x \<noteq> (a, txid, of_nat n)" "x \<notin> (\<lambda>i. (a, txid, of_nat i)) ` {Suc n..<Suc n + length outs}"
    by (auto simp: image_iff)
  with Cons.IH show ?case by simp
qed simp

lemma ledger_tx_not_created:
  assumes "\<not> is_coinbase tx" "(utxo_cf a, utxo_key a t v) \<notin> set (creates e tx)"
  shows "ledger_tx e tx U (a, t, v) =
    (if (a, t, v) \<in> (\<lambda>vin. (is_anonymous tx, outpoint vin)) ` set (inputs tx) then None else U (a, t, v))"
proof -
  have "(a, t, v) \<notin> (\<lambda>i. (is_anonymous tx, tx_hash e tx, of_nat i)) ` {0..<0 + length (outputs tx)}"
    using assms by (auto simp: creates_def)
  from fold_create [OF this] show ?thesis by (simp add: ledger_tx_def fold_spend)
qed

lemma fold_ledger_None:
  assumes "U (a, t, v) = None" "(utxo_cf a, utxo_key a t v) \<notin> set (created e ts)"
  shows "fold (ledger_tx e) (filter (\<lambda>tx. \<not> is_coinbase tx) ts) U (a, t, v) = None"
  using assms by (induction ts arbitrary: U) (auto simp: created_def ledger_tx_not_created)

lemma fold_ledger_spent:
  assumes "tx \<in> set ts" "\<not> is_coinbase tx" "vin \<in> set (inputs tx)"
    and "(utxo_cf (is_anonymous tx), utxo_key (is_anonymous tx) (in_txid vin) (in_vout vin)) \<notin> set (created e ts)"
  shows "fold (ledger_tx e) (filter (\<lambda>tx. \<not> is_coinbase tx) ts) U (is_anonymous tx, outpoint vin) = None"
  using assms(1,4)
proof (induction ts arbitrary: U)
  case (Cons t ts)
  have ks: "created e (t # ts) = creates e t @ created e ts" by (simp add: created_def)
  show ?case
  proof (cases "tx = t")
    case True
    then have "ledger_tx e t U (is_anonymous tx, outpoint vin) = None"
      using Cons.prems(2) assms(2,3) unfolding ks by (simp add: ledger_tx_not_created)
    then show ?thesis using True Cons.prems(2) assms(2) unfolding ks by (simp add: fold_ledger_None)
  next
    case False
    then show ?thesis using Cons unfolding ks by simp
  qed
qed simp

text \<open>A block that spends anything cannot be disconnected again: the inputs it restores are looked up
  in the snapshot, from which connecting the block has deleted them.\<close>

theorem connected_block_cannot_be_disconnected:
  assumes "bincode_ok e" "db_ok db"
    and "apply_utxo_changes e db set_hash supply b h Connect [] = Inr acc"
    and "tx \<in> set (txs b)" "\<not> is_coinbase tx" "vin \<in> set (inputs tx)"
    and "(utxo_cf (is_anonymous tx), utxo_key (is_anonymous tx) (in_txid vin) (in_vout vin)) \<notin> set (created e (txs b))"
  shows "apply_utxo_changes e (db_write (batch acc) db) set_hash' supply' b h Disconnect batch0 \<noteq> Inr acc'"
proof
  assume "apply_utxo_changes e (db_write (batch acc) db) set_hash' supply' b h Disconnect batch0 = Inr acc'"
  then have "utxo_map e (db_write (batch acc) db) (is_anonymous tx, outpoint vin) \<noteq> None"
    using assms(4-6) by (rule applied_inputs_unspent)
  then show False
    using connected_utxo_map [OF assms(1-3)] fold_ledger_spent [OF assms(4-7)] by simp
qed

section \<open>Supply of a column family\<close>

lemma compute_cf_supply_fold:
  assumes "try_fold (\<lambda>sum (k, v). rbind (or_err (de_output e v) (Anyhow m)) (\<lambda>out.
      or_err (checked_add sum (out_value out)) ValueOverflow)) s t = Inr s'"
  shows "unat s' = unat s + tbl_value e t"
  using assms
proof (induction t arbitrary: s)
  case (Cons x t)
  obtain k v where x: "x = (k, v)" by (cases x)
  obtain out r where "de_output e v = Some out" "checked_add s (out_value out) = Some r"
    "unat s' = unat r + tbl_value e t"
    using Cons by (auto simp: x result_simps)
  then show ?case by (simp add: x tbl_value_def entry_value_def checked_add_eq_Some)
qed (simp add: tbl_value_def)

lemma compute_cf_supply_Inr: "compute_cf_supply e db cf = Inr s \<Longrightarrow> unat s = tbl_value e (tables db cf)"
  unfolding compute_cf_supply_def by (drule compute_cf_supply_fold) simp

section \<open>Data for the witnesses\<close>

definition demo_block :: block where
  "demo_block = \<lparr>header = \<lparr>hdr_version = 1, prev_hash = zero_hash, merkle_root = zero_hash, timestamp = 5,
     hdr_bits = 0x1d00ffff, nonce = 0\<rparr>, txs = [create_coinbase demo_env 1 [] [], demo_spend]\<rparr>"

lemma last_be_bytes: "0 < k \<Longrightarrow> last (be_bytes k x) = of_nat x"
  by (cases k) simp_all

lemma u8_of_nat_two: "y mod 256 = 1 \<Longrightarrow> (of_nat (y + 1) :: u8) = 2"
proof -
  assume "y mod 256 = 1"
  then have "(y + 1) mod 256 = 2" by (simp add: mod_Suc)
  then have "(of_nat (y + 1) :: u8) = of_nat 2"
    unfolding word_of_nat_eq_iff take_bit_eq_mod by simp
  then show ?thesis by simp
qed

lemma last_byte_two: "0 < n \<Longrightarrow> (of_nat ((x * 256 + 1) mod 256 ^ n + 1) :: u8) = 2"
proof (rule u8_of_nat_two)
  assume "0 < n"
  then have "(256 :: nat) dvd 256 ^ n" by (simp add: dvd_power)
  then have "(x * 256 + 1) mod 256 ^ n mod 256 = (x * 256 + 1) mod 256" by (rule mod_mod_cancel)
  also have "\<dots> = 1" by (simp add: mod_Suc)
  finally show "(x * 256 + 1) mod 256 ^ n mod 256 = 1" .
qed

lemma demo_spend_hash: "last (tx_hash demo_env demo_spend) = 2"
proof -
  obtain xs where xs: "ser_tx demo_env demo_spend = xs @ [0]"
    by (simp add: demo_env_def put_tx_def demo_spend_def demo_tx_def)
  have sha: "sha256 demo_env d = be_bytes 32 (nat_of_be d + 1)" for d
    by (simp add: demo_env_def demo_crypto_def)
  have "tx_hash demo_env demo_spend = be_bytes 32 ((nat_of_be xs * 256 + 1) mod 256 ^ 32 + 1)"
    by (simp only: tx_hash_def sha256d_def xs sha nat_of_be_bytes nat_of_be_append unsigned_0 add_0_right)
  then show ?thesis by (simp only: last_be_bytes last_byte_two zero_less_numeral)
qed

lemma demo_spend_hash_fresh [simp]:
  "tx_hash demo_env demo_spend \<noteq> replicate 32 7" "replicate 32 7 \<noteq> tx_hash demo_env demo_spend"
proof -
  have "last (replicate 32 (7 :: u8)) \<noteq> last (tx_hash demo_env demo_spend)" by (simp add: demo_spend_hash)
  then show "tx_hash demo_env demo_spend \<noteq> replicate 32 7" "replicate 32 7 \<noteq> tx_hash demo_env demo_spend"
    by metis+
qed

lemma demo_db_get:
  "db_get demo_db k = (if k = (''utxo'', utxo_key False (replicate 32 7) 0) then Some (ser_output demo_env demo_coin) else None)"
  by (cases k) (auto simp: demo_db_def db_get_def tbl_get_def)

lemma demo_coin_decode: "de_output demo_env (ser_output demo_env demo_coin) = Some demo_coin"
  using demo_env_bincode_ok by (simp add: bincode_ok_def)

lemma demo_db_ok: "db_ok demo_db"
  by (simp add: db_ok_def demo_db_def tbl_ok_def)

lemma demo_fields [simp]:
  "inputs demo_spend = [\<lparr>in_txid = replicate 32 7, in_vout = 0, script_sig = [1], in_sequence = 0\<rparr>]"
  "outputs demo_spend = [\<lparr>out_value = 100, script_pubkey = [], commitment = None\<rparr>]"
  "is_anonymous demo_spend = False" "is_coinbase demo_spend = False" "out_value demo_coin = 9000"
  "cf_handle demo_db ''coinbase'' = Some ''coinbase''"
  "is_coinbase (create_coinbase c n x pk)"
  by (simp_all add: demo_spend_def demo_tx_def is_coinbase_def demo_coin_def demo_db_def cf_handle_def create_coinbase_def)

lemma demo_connects: "\<exists>acc. apply_utxo_changes demo_env demo_db h 9000 demo_block 1 Connect [] = Inr acc"
  by (simp add: apply_utxo_changes_def demo_block_def handle_utxo_action_def coinbase_action_def input_action_def
    spend_action_def output_action_def Let_def demo_db_get demo_coin_decode utxo_cf_def checked_sub_def checked_add_def
    record_ops_def)

lemma demo_touches:
  "touches demo_env (txs demo_block) = [(''utxo'', utxo_key False (replicate 32 7) 0),
     (''utxo'', utxo_key False (tx_hash demo_env demo_spend) 0)]"
  "created demo_env (txs demo_block) = [(''utxo'', utxo_key False (tx_hash demo_env demo_spend) 0)]"
  by (simp_all add: touches_def created_def demo_block_def spends_def creates_def utxo_cf_def)

theorem connect_tracks_ledger_witness:
  "\<exists>acc. apply_utxo_changes demo_env demo_db (utxo_digest demo_env demo_db) 9000 demo_block 1 Connect [] = Inr acc \<and>
    current_set_hash acc = utxo_digest demo_env (db_write (batch acc) demo_db) \<and>
    unat (current_supply acc) = utxo_total demo_env (db_write (batch acc) demo_db)"
proof -
  obtain acc where acc: "apply_utxo_changes demo_env demo_db (utxo_digest demo_env demo_db) 9000 demo_block 1 Connect [] = Inr acc"
    using demo_connects by blast
  have "unat (9000 :: u64) = utxo_total demo_env demo_db"
    by (simp add: utxo_total_def tbl_value_def entry_value_def demo_db_def demo_coin_decode)
  then show ?thesis
    using connect_tracks_ledger [OF demo_env_crypto_ok demo_env_bincode_ok demo_db_ok acc] acc
    by (auto simp: demo_touches demo_db_get)
qed

theorem connect_refines_ledger_witness:
  "\<exists>acc. apply_utxo_changes demo_env demo_db zero_hash 9000 demo_block 1 Connect [] = Inr acc \<and>
    utxo_map demo_env (db_write (batch acc) demo_db) = fold (ledger_tx demo_env) (filter (\<lambda>tx. \<not> is_coinbase tx) (txs demo_block)) (utxo_map demo_env demo_db)"
  using demo_connects connect_refines_ledger [OF demo_env_bincode_ok demo_db_ok] by blast

theorem rollback_restores_witness:
  "\<exists>acc. apply_utxo_changes demo_env demo_db zero_hash 9000 demo_block 1 Connect [] = Inr acc \<and>
    db_get (db_write (rollback_batch (rollback_ops acc)) (db_write (batch acc) demo_db)) (''utxo'', utxo_key False (replicate 32 7) 0) =
      Some (ser_output demo_env demo_coin)"
proof -
  obtain acc where acc: "apply_utxo_changes demo_env demo_db zero_hash 9000 demo_block 1 Connect [] = Inr acc"
    using demo_connects by blast
  then have "\<forall>(k, v)\<in>set (rollback_ops acc). v = None \<longrightarrow> db_get demo_db k = None"
    by (auto simp: apply_utxo_changes_def demo_block_def handle_utxo_action_def coinbase_action_def input_action_def
      spend_action_def output_action_def addr_action_def Let_def demo_db_get demo_coin_decode utxo_cf_def checked_sub_def
      checked_add_def record_ops_def)
  from rollback_restores [OF demo_db_ok acc this, of "(''utxo'', utxo_key False (replicate 32 7) 0)"] acc
  show ?thesis by (auto simp: demo_db_get)
qed

theorem connected_block_cannot_be_disconnected_witness:
  "\<exists>acc. apply_utxo_changes demo_env demo_db zero_hash 9000 demo_block 1 Connect [] = Inr acc \<and>
    (\<forall>acc'. apply_utxo_changes demo_env (db_write (batch acc) demo_db) zero_hash 100 demo_block 1 Disconnect [] \<noteq> Inr acc')"
proof -
  obtain acc where acc: "apply_utxo_changes demo_env demo_db zero_hash 9000 demo_block 1 Connect [] = Inr acc"
    using demo_connects by blast
  moreover have "demo_spend \<in> set (txs demo_block)" by (simp add: demo_block_def)
  moreover have "(utxo_cf False, utxo_key False (replicate 32 7) 0) \<notin> set (created demo_env (txs demo_block))"
    by (simp add: demo_touches)
  ultimately show ?thesis
    using connected_block_cannot_be_disconnected [OF demo_env_bincode_ok demo_db_ok acc, of demo_spend] by auto
qed

definition double_spend_block :: block where
  "double_spend_block = demo_block\<lparr>txs := [create_coinbase demo_env 1 [] [], demo_spend, demo_spend\<lparr>lock_time := 1\<rparr>]\<rparr>"

text \<open>Inputs are checked against the snapshot only: a block with two different transactions that spend
  the same output is connected.\<close>

theorem in_block_double_spend_accepted:
  "inputs demo_spend = inputs (demo_spend\<lparr>lock_time := 1\<rparr>) \<and> demo_spend \<noteq> demo_spend\<lparr>lock_time := 1\<rparr> \<and>
   (\<exists>acc. apply_utxo_changes demo_env demo_db zero_hash 20000 double_spend_block 1 Connect [] = Inr acc)"
proof (intro conjI)
  have "lock_time demo_spend \<noteq> lock_time (demo_spend\<lparr>lock_time := 1\<rparr>)" by (simp add: demo_spend_def)
  then show "demo_spend \<noteq> demo_spend\<lparr>lock_time := 1\<rparr>" by metis
  have "is_coinbase (demo_spend\<lparr>lock_time := 1\<rparr>) = False" by (simp add: is_coinbase_def)
  then show "\<exists>acc. apply_utxo_changes demo_env demo_db zero_hash 20000 double_spend_block 1 Connect [] = Inr acc"
    by (simp add: apply_utxo_changes_def double_spend_block_def demo_block_def handle_utxo_action_def
      coinbase_action_def input_action_def spend_action_def output_action_def addr_action_def Let_def demo_db_get
      demo_coin_decode utxo_cf_def checked_sub_def checked_add_def record_ops_def)
qed simp

end
