(* ===== verification/Chain_Db.thy ===== *)
theory Chain_Db
  imports Utxo
begin

text \<open>
  The parts of \<^verbatim>\<open>chain.rs\<close> that read the stored chain: blocks and headers by height,
  \<^verbatim>\<open>save_block\<close>, \<^verbatim>\<open>get_headers\<close>, the median time, the difficulty rule, the supply
  audits and \<^verbatim>\<open>validate_block\<close>.  The clock is an argument: \<open>None\<close> is the failure of
  \<^verbatim>\<open>now_ms\<close>.
\<close>

section \<open>Blocks and headers by height\<close>

definition DB_KEY_TIP :: dbkey where "DB_KEY_TIP = (default_cf, ascii ''tip'')"
definition DB_KEY_HEIGHT :: dbkey where "DB_KEY_HEIGHT = (default_cf, ascii ''height'')"
definition DB_KEY_GENESIS_HASH :: dbkey where "DB_KEY_GENESIS_HASH = (default_cf, ascii ''genesis_hash'')"
definition DB_KEY_STATE_TOTAL_SUPPLY :: dbkey where
  "DB_KEY_STATE_TOTAL_SUPPLY = (default_cf, ascii ''state:total_supply'')"

definition height_key :: "usize \<Rightarrow> dbkey" where "height_key h = (default_cf, ascii ''h:'' @ u64_be h)"
definition block_key :: "bytes \<Rightarrow> dbkey" where "block_key hash = (default_cf, ascii ''b:'' @ hash)"
definition hdr_key :: "usize \<Rightarrow> dbkey" where "hdr_key h = (default_cf, ascii ''hdr:'' @ u64_be h)"

definition load_current_height :: "rocksdb \<Rightarrow> usize result" where
  "load_current_height db =
     rbind (or_err (db_get db DB_KEY_HEIGHT) (Anyhow ''Missing height'')) (\<lambda>height_bytes.
     rbind (bail_if (length height_bytes \<noteq> 4) (Anyhow ''Invalid height bytes'')) (\<lambda>_.
     Inr (ucast (u32_from_be height_bytes))))"

definition copy_hash :: "bytes \<Rightarrow> hash256 result" where
  "copy_hash bs = (if length bs = 32 then Inr bs else Inl Panic)"

definition load_current_tip :: "rocksdb \<Rightarrow> hash256 result" where
  "load_current_tip db = rbind (or_err (db_get db DB_KEY_TIP) (Anyhow ''Missing tip'')) copy_hash"

definition load_block_from_db :: "'a codec_scheme \<Rightarrow> rocksdb \<Rightarrow> usize \<Rightarrow> block result" where
  "load_block_from_db e db height =
     rbind (or_err (db_get db (height_key height)) (Anyhow ''Missing hash'')) (\<lambda>hash_bytes.
     rbind (or_err (db_get db (block_key hash_bytes)) (Anyhow ''Missing block'')) (\<lambda>block_bytes.
     or_err (de_block e block_bytes) (Anyhow ''Deserialize block failed'')))"

definition load_header :: "'a codec_scheme \<Rightarrow> rocksdb \<Rightarrow> usize \<Rightarrow> block_header result" where
  "load_header e db height =
     (case db_get db (hdr_key height) of
        Some bytes \<Rightarrow> or_err (de_header e bytes) Bincode
      | None \<Rightarrow> rbind (load_block_from_db e db height) (\<lambda>block. Inr (header block)))"

definition save_block :: "'a codec_scheme \<Rightarrow> rocksdb \<Rightarrow> usize \<Rightarrow> block \<Rightarrow> rocksdb result" where
  "save_block e db height block =
     rbind (header_hash e (header block)) (\<lambda>hash.
     Inr (db_write [Put (block_key hash) (ser_block e block), Put (height_key height) hash,
                    Put DB_KEY_TIP hash, Put DB_KEY_HEIGHT (u32_be (ucast height))] db))"

definition heights_between :: "usize \<Rightarrow> usize \<Rightarrow> usize list" where
  "heights_between lo hi = map of_nat [unat lo..<Suc (unat hi)]"

definition max_headers :: nat where "max_headers = 2000"

fun collect_headers ::
  "'a codec_scheme \<Rightarrow> rocksdb \<Rightarrow> hash256 \<Rightarrow> usize list \<Rightarrow> block_header list \<Rightarrow> block_header list result" where
  "collect_headers e db stop [] headers = Inr headers"
| "collect_headers e db stop (height # hs) headers =
     (if length headers \<ge> max_headers then Inr headers
      else
        rbind (load_header e db height) (\<lambda>header.
        rbind (header_hash e header) (\<lambda>hash.
        if hash = stop then Inr (headers @ [header])
        else collect_headers e db stop hs (headers @ [header]))))"

definition get_headers ::
  "'a codec_scheme \<Rightarrow> rocksdb \<Rightarrow> (hash256 \<rightharpoonup> usize) \<Rightarrow> usize \<Rightarrow> hash256 \<Rightarrow> hash256 \<Rightarrow> block_header list result" where
  "get_headers e db hash_to_height best_height locator stop =
     (case hash_to_height locator of
        None \<Rightarrow> Inr []
      | Some h \<Rightarrow> collect_headers e db stop (heights_between (h + 1) best_height) [])"

section \<open>Median time and difficulty\<close>

definition median_step :: "'a codec_scheme \<Rightarrow> rocksdb \<Rightarrow> u32 list \<Rightarrow> usize \<Rightarrow> u32 list result" where
  "median_step e db stamps i =
     (case db_get db (height_key i) of
        None \<Rightarrow> Inr stamps
      | Some hash_bytes \<Rightarrow>
          (case db_get db (block_key hash_bytes) of
             None \<Rightarrow> Inr stamps
           | Some block_bytes \<Rightarrow>
               rbind (unwrap (de_block e block_bytes)) (\<lambda>block. Inr (stamps @ [timestamp (header block)]))))"

definition middle :: "u32 list \<Rightarrow> u32" where
  "middle stamps = (if stamps = [] then 0 else sort stamps ! (length stamps div 2))"

definition get_median_timestamp :: "'a codec_scheme \<Rightarrow> rocksdb \<Rightarrow> usize \<Rightarrow> u32 result" where
  "get_median_timestamp e db height =
     rbind (try_fold (median_step e db) [] (rev (heights_between (saturating_sub height 10) height)))
       (\<lambda>stamps. Inr (middle stamps))"

definition clamp :: "nat \<Rightarrow> nat \<Rightarrow> nat \<Rightarrow> nat" where
  "clamp x lo hi = max lo (min x hi)"

definition retarget :: "nat \<Rightarrow> nat \<Rightarrow> nat \<Rightarrow> nat" where
  "retarget genesis_target old_target elapsed =
     (let actual_time = clamp elapsed (EXPECTED_TIME div 4) (EXPECTED_TIME * 4);
          new_target = old_target * actual_time div EXPECTED_TIME;
          max_target = old_target * 4;
          min_target = old_target div 4;
          new_target = (if new_target > max_target then max_target else new_target);
          new_target = (if new_target < min_target then min_target else new_target)
      in if new_target > genesis_target then genesis_target else new_target)"

definition unwrapped :: "'a result \<Rightarrow> 'a result" where
  "unwrapped r = (case r of Inl (Err e) \<Rightarrow> Inl Panic | _ \<Rightarrow> r)"

definition calculate_next_bits :: "'a codec_scheme \<Rightarrow> rocksdb \<Rightarrow> usize \<Rightarrow> u32 result" where
  "calculate_next_bits e db height =
     (if height mod DIFFICULTY_ADJUST_INTERVAL \<noteq> 0
      then rbind (unwrapped (load_header e db (height - 1))) (\<lambda>header. Inr (hdr_bits header))
      else
        rbind (unwrapped (load_header e db (height - DIFFICULTY_ADJUST_INTERVAL))) (\<lambda>start_header.
        rbind (unwrapped (load_header e db (height - 1))) (\<lambda>end_header.
        rbind (compact_to_target (hdr_bits end_header)) (\<lambda>old_target.
        rbind (compact_to_target 0x1d00ffff) (\<lambda>genesis_target.
        rbind (get_median_timestamp e db (height - 1)) (\<lambda>median_time.
        let new_target = retarget genesis_target old_target (unat (timestamp end_header - timestamp start_header));
            new_target = (if timestamp end_header \<le> median_time then old_target else new_target)
        in Inr (target_to_compact new_target)))))))"

section \<open>Supply audits\<close>

definition validate_state :: "rocksdb \<Rightarrow> u64 \<Rightarrow> unit result" where
  "validate_state db state_supply =
     (case db_get db DB_KEY_TOTAL_SUPPLY of
        None \<Rightarrow> Inr ()
      | Some bytes \<Rightarrow>
          rbind (bail_if (length bytes \<noteq> 8) (Anyhow ''try_into'')) (\<lambda>_.
          bail_if (u64_from_be bytes \<noteq> state_supply) SupplyMismatch))"

definition validate_state_full :: "'a codec_scheme \<Rightarrow> rocksdb \<Rightarrow> usize \<Rightarrow> unit result" where
  "validate_state_full e db best_height =
     rbind (or_err (cf_handle db ''utxo'') (Anyhow ''UTXO CF missing'')) (\<lambda>cf_utxo.
     rbind (or_err (cf_handle db ''anonymous'') (Anyhow ''Anonymous CF missing'')) (\<lambda>cf_anonymous.
     rbind (compute_cf_supply e db cf_utxo) (\<lambda>utxo_res.
     rbind (compute_cf_supply e db cf_anonymous) (\<lambda>anon_res.
     let full_supply = utxo_res + anon_res
     in rbind (or_err (issued_supply best_height) ValueOverflow) (\<lambda>total_supply.
        bail_if (full_supply \<noteq> total_supply) (InvalidBlock ''Supply mismatch''))))))"

definition validate_supply_full :: "'a codec_scheme \<Rightarrow> rocksdb \<Rightarrow> usize \<Rightarrow> unit result" where
  "validate_supply_full e db best_height =
     rbind (or_err (cf_handle db ''utxo'') (Anyhow ''UTXO CF missing'')) (\<lambda>cf_utxo.
     rbind (or_err (cf_handle db ''anonymous'') (Anyhow ''Anonymous CF missing'')) (\<lambda>cf_anonymous.
     rbind (compute_cf_supply e db cf_utxo) (\<lambda>utxo_supply.
     rbind (compute_cf_supply e db cf_anonymous) (\<lambda>anon_supply.
     rbind (or_err (issued_supply best_height) ValueOverflow) (\<lambda>calculated_supply.
     bail_if (utxo_supply + anon_supply \<noteq> calculated_supply) SupplyMismatch)))))"

text \<open>
  \<^verbatim>\<open>validate_supply_smart\<close> returns the set hash and the supply that it stores in the state, or
  \<open>None\<close> when it falls back to the full audit and leaves the state alone.
\<close>

definition validate_supply_smart ::
  "'a codec_scheme \<Rightarrow> rocksdb \<Rightarrow> usize \<Rightarrow> (hash256 \<times> u64) option result" where
  "validate_supply_smart e db best_height =
     (case (db_get db DB_KEY_UTXO_SET_HASH, db_get db DB_KEY_TOTAL_SUPPLY) of
        (Some hash_bytes, Some supply_bytes) \<Rightarrow>
          rbind (copy_hash hash_bytes) (\<lambda>hash.
          rbind (bail_if (length supply_bytes \<noteq> 8) (Anyhow ''try_into'')) (\<lambda>_.
          let supply = u64_from_be supply_bytes;
              calculated_supply = (\<Sum>height\<leftarrow>heights_upto best_height. unat (subsidy height))
          in if calculated_supply \<noteq> unat supply then bail SupplyMismatch
             else Inr (Some (hash, supply))))
      | _ \<Rightarrow> rbind (validate_supply_full e db best_height) (\<lambda>_. Inr None))"

section \<open>Block validation\<close>

definition fetch_block_input ::
  "'a codec_scheme \<Rightarrow> rocksdb \<Rightarrow> bool \<Rightarrow> (outpoint \<rightharpoonup> txoutput) \<times> (outpoint \<rightharpoonup> txoutput) \<Rightarrow> txinput \<Rightarrow>
     ((outpoint \<rightharpoonup> txoutput) \<times> (outpoint \<rightharpoonup> txoutput)) result" where
  "fetch_block_input e db anonymous = (\<lambda>(utxos, anon_outputs) vin.
     case db_get db (utxo_cf anonymous, utxo_key anonymous (in_txid vin) (in_vout vin)) of
       None \<Rightarrow> Inr (utxos, anon_outputs)
     | Some value \<Rightarrow>
         rbind (or_err (de_output e value) (Anyhow ''Deserialize output failed'')) (\<lambda>output.
         Inr (if anonymous then (utxos, anon_outputs(outpoint vin \<mapsto> output))
              else (utxos(outpoint vin \<mapsto> output), anon_outputs))))"

record 'p commitment_acc =
  block_input_commitments :: "'p list"
  block_output_commitments :: "'p list"
  batch_verifier :: "(bytes \<times> 'p \<times> u64) list"

definition decompress_all :: "('p, 'a) env_scheme \<Rightarrow> txoutput list \<Rightarrow> 'p list result" where
  "decompress_all e outs =
     try_fold (\<lambda>acc out. case commitment out of
         None \<Rightarrow> Inr acc
       | Some comm \<Rightarrow> rbind (or_err (decompress e comm) InvalidCommitment) (\<lambda>comm. Inr (acc @ [comm])))
       [] outs"

definition gather_commitments ::
  "('p, 'a) env_scheme \<Rightarrow> (outpoint \<rightharpoonup> txoutput) \<Rightarrow> 'p commitment_acc \<Rightarrow> transaction \<Rightarrow> 'p commitment_acc result" where
  "gather_commitments e anon_outputs acc tx =
     (if is_anonymous tx
      then
        rbind (decompress_all e (List.map_filter (\<lambda>vin. anon_outputs (outpoint vin)) (inputs tx))) (\<lambda>ins.
        rbind (decompress_all e (outputs tx)) (\<lambda>outs.
        rbind (try_fold (queue_proof e) (batch_verifier acc) (zip (outputs tx) (range_proofs tx))) (\<lambda>proofs.
        Inr \<lparr>block_input_commitments = block_input_commitments acc @ ins,
              block_output_commitments = block_output_commitments acc @ outs, batch_verifier = proofs\<rparr>)))
      else Inr acc)"

definition check_commitments ::
  "('p::ab_group_add, 'a) env_scheme \<Rightarrow> (outpoint \<rightharpoonup> txoutput) \<Rightarrow> u64 \<Rightarrow> transaction list \<Rightarrow> unit result" where
  "check_commitments e anon_outputs total_fees ts =
     rbind (try_fold (gather_commitments e anon_outputs)
              \<lparr>block_input_commitments = [], block_output_commitments = [], batch_verifier = []\<rparr> ts) (\<lambda>acc.
     rbind (bail_if (proofs_verify e (batch_verifier acc) = None) InvalidRangeProof) (\<lambda>_.
     let sum_block_inputs = foldl (+) (pedersen e 0) (block_input_commitments acc);
         sum_block_outputs = foldl (+) (pedersen e 0) (block_output_commitments acc)
     in bail_if (sum_block_inputs \<noteq> sum_block_outputs + pedersen e total_fees) InvalidCommitment))"

definition block_fees :: "(outpoint \<rightharpoonup> txoutput) \<Rightarrow> (outpoint \<rightharpoonup> txoutput) \<Rightarrow> transaction list \<Rightarrow> u64 option" where
  "block_fees utxos anon_outputs ts =
     checked_sum (map (\<lambda>tx. fee tx (if is_anonymous tx then anon_outputs else utxos)) ts)"

definition validate_block ::
  "('p::ab_group_add, 'a) env_scheme \<Rightarrow> rocksdb \<Rightarrow> usize \<Rightarrow> (usize \<rightharpoonup> hash256) \<Rightarrow> nat option \<Rightarrow> block \<Rightarrow> usize \<Rightarrow> unit result" where
  "validate_block e db best_height checkpoint_hashes now block height =
     rbind (bail_if (block_size e block > MAX_BLOCK_SIZE) (InvalidBlock ''Block too large'')) (\<lambda>_.
     rbind (header_hash e (header block)) (\<lambda>hash.
     rbind (compact_to_target (hdr_bits (header block))) (\<lambda>target.
     rbind (bail_if (u256_from_be hash > target) InsufficientPoW) (\<lambda>_.
     rbind (calculate_next_bits e db height) (\<lambda>bits.
     rbind (bail_if (hdr_bits (header block) \<noteq> bits) (InvalidBlock ''Invalid bits'')) (\<lambda>_.
     rbind (bail_if (merkle_root (header block) \<noteq> compute_merkle_root e (txs block)) (InvalidBlock ''Invalid Merkle root'')) (\<lambda>_.
     rbind (bail_if (txs block = [] \<or> \<not> is_coinbase (hd (txs block))) (InvalidBlock ''No coinbase'')) (\<lambda>_.
     rbind (or_err (cf_handle db ''utxo'') (Anyhow ''utxo'')) (\<lambda>_.
     rbind (or_err (cf_handle db ''anonymous'') (Anyhow ''anonymous'')) (\<lambda>_.
     rbind (try_fold (\<lambda>maps tx. try_fold (fetch_block_input e db (is_anonymous tx)) maps (inputs tx))
              (Map.empty, Map.empty) (tl (txs block))) (\<lambda>(utxos, anon_outputs).
     rbind (try_fold (\<lambda>_ tx. validate_transaction e db best_height tx height) () (tl (txs block))) (\<lambda>_.
     rbind (or_err (block_fees utxos anon_outputs (tl (txs block))) InvalidCoinbaseFee) (\<lambda>total_fees.
     rbind (or_err (checked_add (subsidy height) total_fees) InvalidCoinbaseFee) (\<lambda>expected.
     rbind (bail_if (outputs (hd (txs block)) = [] \<or> out_value (hd (outputs (hd (txs block)))) \<noteq> expected)
              InvalidCoinbaseFee) (\<lambda>_.
     rbind (check_commitments e anon_outputs total_fees (txs block)) (\<lambda>_.
     rbind (get_median_timestamp e db (height - 1)) (\<lambda>median_time.
     rbind (or_err now InvalidTimestamp) (\<lambda>now_ms.
     let current_time = of_nat (now_ms div 1000) :: u32; ts = timestamp (header block)
     in rbind (bail_if (ts \<le> median_time \<or> ts > current_time + 7200) InvalidTimestamp) (\<lambda>_.
        case checkpoint_hashes height of
          None \<Rightarrow> Inr ()
        | Some expected_hash \<Rightarrow> bail_if (hash \<noteq> expected_hash) AttackDetected)))))))))))))))))))"

section \<open>Saving and loading blocks\<close>

lemma db_write_Nil [simp]: "db_write [] db = db"
  by (simp add: db_write_def run_batch_def)

lemma db_write_Cons [simp]: "db_write (op # ops) db = db_write ops (run_op db_put db_del op db)"
  by (simp add: db_write_def run_batch_def)

lemma chain_keys_distinct [simp]:
  "block_key x = block_key y \<longleftrightarrow> x = y" "height_key h = height_key h' \<longleftrightarrow> h = h'"
  "height_key h \<noteq> block_key x" "block_key x \<noteq> height_key h"
  "DB_KEY_TIP \<noteq> block_key x" "DB_KEY_TIP \<noteq> height_key h" "DB_KEY_HEIGHT \<noteq> block_key x" "DB_KEY_HEIGHT \<noteq> height_key h"
  "block_key x \<noteq> DB_KEY_TIP" "height_key h \<noteq> DB_KEY_TIP" "block_key x \<noteq> DB_KEY_HEIGHT" "height_key h \<noteq> DB_KEY_HEIGHT"
  "DB_KEY_TIP \<noteq> DB_KEY_HEIGHT" "DB_KEY_HEIGHT \<noteq> DB_KEY_TIP"
  "hdr_key h \<noteq> DB_KEY_TIP" "hdr_key h \<noteq> DB_KEY_HEIGHT" "hdr_key h \<noteq> block_key x" "hdr_key h \<noteq> height_key h'"
  "block_key x \<noteq> hdr_key h" "height_key h' \<noteq> hdr_key h" "hdr_key h = hdr_key h' \<longleftrightarrow> h = h'"
  by (auto simp: block_key_def height_key_def hdr_key_def DB_KEY_TIP_def DB_KEY_HEIGHT_def ascii_def)

lemma header_hash_length: "crypto_ok e \<Longrightarrow> header_hash e h = Inr hash \<Longrightarrow> length hash = 32"
  by (auto simp: header_hash_def pow_hash_def crypto_ok_def result_simps)

lemma db_get_saved:
  assumes "db_ok db" "header_hash e (header b) = Inr hash" "save_block e db h b = Inr db'"
  shows "db_get db' k =
    (if k = DB_KEY_HEIGHT then Some (u32_be (ucast h)) else if k = DB_KEY_TIP then Some hash
     else if k = height_key h then Some hash else if k = block_key hash then Some (ser_block e b) else db_get db k)"
  using assms by (auto simp: save_block_def db_get_put rdb.invar_put)

text \<open>C15. A saved block is loaded back at its height, becomes the tip, and the stored height is its height
  modulo 2^32; blocks at other heights with another hash are loaded as before.\<close>

theorem save_block_roundtrip:
  assumes "crypto_ok e" "bincode_ok e" "db_ok db" "save_block e db h b = Inr db'"
  shows "load_block_from_db e db' h = Inr b \<and> load_current_height db' = Inr (h mod 2 ^ 32) \<and>
    load_current_tip db' = header_hash e (header b) \<and>
    (\<forall>h'. h' \<noteq> h \<and> db_get db (height_key h') \<noteq> db_get db' DB_KEY_TIP \<longrightarrow>
       load_block_from_db e db' h' = load_block_from_db e db h')"
proof -
  obtain hash where hash: "header_hash e (header b) = Inr hash"
    using assms(4) by (auto simp: save_block_def result_simps)
  note get = db_get_saved [OF assms(3) hash assms(4)]
  have "load_block_from_db e db' h = Inr b"
    using assms(2) by (simp add: load_block_from_db_def get bincode_ok_def)
  moreover have "load_current_tip db' = Inr hash"
    using header_hash_length [OF assms(1) hash] by (simp add: load_current_tip_def get copy_hash_def)
  moreover have "load_current_height db' = Inr (h mod 2 ^ 32)"
    by (simp add: load_current_height_def get word_eq_iff_unsigned unsigned_ucast_eq take_bit_eq_mod)
  moreover have "load_block_from_db e db' h' = load_block_from_db e db h'"
    if "h' \<noteq> h" "db_get db (height_key h') \<noteq> db_get db' DB_KEY_TIP" for h'
    using that by (auto simp: load_block_from_db_def get result_simps intro!: rbind_cong)
  ultimately show ?thesis by (simp add: hash)
qed

section \<open>Headers\<close>

lemma collect_headers_sound:
  assumes "collect_headers e db stop hs acc = Inr r" "length acc \<le> max_headers"
  shows "\<exists>xs. r = acc @ xs \<and> length r \<le> max_headers \<and> length xs \<le> length hs \<and>
    (\<forall>i<length xs. load_header e db (hs ! i) = Inr (xs ! i) \<and>
       (Suc i < length xs \<longrightarrow> header_hash e (xs ! i) \<noteq> Inr stop)) \<and>
    (length r = max_headers \<or> length xs = length hs \<or> xs \<noteq> [] \<and> header_hash e (last xs) = Inr stop)"
  using assms
proof (induction hs arbitrary: acc)
  case (Cons h hs)
  show ?case
  proof (cases "length acc \<ge> max_headers")
    case True
    with Cons.prems show ?thesis by auto
  next
    case False
    then obtain hdr hash where hdr: "load_header e db h = Inr hdr" "header_hash e hdr = Inr hash"
      using Cons.prems(1) by (auto simp: result_simps)
    show ?thesis
    proof (cases "hash = stop")
      case True
      with False hdr Cons.prems(1) have "r = acc @ [hdr]" by simp
      with True hdr False show ?thesis by (intro exI [of _ "[hdr]"]) auto
    next
      case neq: False
      with False hdr Cons.prems(1) have "collect_headers e db stop hs (acc @ [hdr]) = Inr r" by simp
      from Cons.IH [OF this] False obtain xs where xs:
        "r = (acc @ [hdr]) @ xs" "length r \<le> max_headers" "length xs \<le> length hs"
        "\<forall>i<length xs. load_header e db (hs ! i) = Inr (xs ! i) \<and>
           (Suc i < length xs \<longrightarrow> header_hash e (xs ! i) \<noteq> Inr stop)"
        "length r = max_headers \<or> length xs = length hs \<or> xs \<noteq> [] \<and> header_hash e (last xs) = Inr stop"
        by auto
      show ?thesis
        using xs hdr neq
        by (intro exI [of _ "hdr # xs"])
          (auto simp: nth_Cons split: nat.split)
    qed
  qed
qed auto

text \<open>C18. A header request answers with at most 2000 headers, the consecutive headers that follow the
  locator, ends early only at the stop hash, and is otherwise complete up to the best height.\<close>

theorem get_headers_sound:
  assumes "get_headers e db hash_to_height best locator stop = Inr headers" "hash_to_height locator = Some h"
  shows "length headers \<le> 2000 \<and>
    (\<forall>i<length headers. load_header e db (h + 1 + of_nat i) = Inr (headers ! i) \<and>
       (Suc i < length headers \<longrightarrow> header_hash e (headers ! i) \<noteq> Inr stop)) \<and>
    (length headers = 2000 \<or> headers \<noteq> [] \<and> header_hash e (last headers) = Inr stop \<or>
     length headers = Suc (unat best) - unat (h + 1))"
proof -
  let ?hs = "heights_between (h + 1) best"
  have "collect_headers e db stop ?hs [] = Inr headers" using assms by (simp add: get_headers_def)
  from collect_headers_sound [OF this] have r:
    "length headers \<le> 2000" "length headers \<le> length ?hs"
    "\<forall>i<length headers. load_header e db (?hs ! i) = Inr (headers ! i) \<and>
       (Suc i < length headers \<longrightarrow> header_hash e (headers ! i) \<noteq> Inr stop)"
    "length headers = 2000 \<or> length headers = length ?hs \<or> headers \<noteq> [] \<and> header_hash e (last headers) = Inr stop"
    by (auto simp: max_headers_def)
  moreover have "?hs ! i = h + 1 + of_nat i" if "i < length ?hs" for i
    using that by (simp add: heights_between_def del: upt_Suc)
  moreover have "length ?hs = Suc (unat best) - unat (h + 1)" by (simp add: heights_between_def del: upt_Suc)
  ultimately show ?thesis by auto
qed

section \<open>Median time and difficulty\<close>

lemma count_less_nth:
  fixes xs :: "'a::linorder list"
  assumes "sorted xs" "k < length xs"
  shows "length (filter (\<lambda>x. x < xs ! k) xs) \<le> k" "length (filter (\<lambda>x. xs ! k < x) xs) \<le> length xs - 1 - k"
proof -
  have "filter (\<lambda>x. x < xs ! k) (drop k xs) = []" "filter (\<lambda>x. xs ! k < x) (take (Suc k) xs) = []"
    using assms by (auto simp: filter_empty_conv in_set_conv_nth sorted_nth_mono not_less)
  then have "filter (\<lambda>x. x < xs ! k) xs = filter (\<lambda>x. x < xs ! k) (take k xs)"
    "filter (\<lambda>x. xs ! k < x) xs = filter (\<lambda>x. xs ! k < x) (drop (Suc k) xs)"
    by (metis append_Nil2 append_take_drop_id filter_append, metis append_Nil append_take_drop_id filter_append)
  then show "length (filter (\<lambda>x. x < xs ! k) xs) \<le> k" "length (filter (\<lambda>x. xs ! k < x) xs) \<le> length xs - 1 - k"
    using assms(2) length_filter_le [of _ "take k xs"] length_filter_le [of _ "drop (Suc k) xs"]
    by (simp_all add: min_absorb2)
qed

lemma length_filter_sort: "length (filter P (sort xs)) = length (filter P xs)"
  by (simp add: filter_sort)

lemma middle_balanced:
  assumes "xs \<noteq> []"
  shows "middle xs \<in> set xs" "length (filter (\<lambda>x. x < middle xs) xs) \<le> length xs div 2"
    "length (filter (\<lambda>x. middle xs < x) xs) \<le> length xs div 2"
proof -
  have k: "length xs div 2 < length (sort xs)" using assms by simp
  have m: "middle xs = sort xs ! (length xs div 2)" using assms by (simp add: middle_def)
  show "middle xs \<in> set xs" using k nth_mem [OF k] by (simp add: m)
  show "length (filter (\<lambda>x. x < middle xs) xs) \<le> length xs div 2"
    using count_less_nth(1) [OF sorted_sort k] by (simp add: m length_filter_sort)
  show "length (filter (\<lambda>x. middle xs < x) xs) \<le> length xs div 2"
    using count_less_nth(2) [OF sorted_sort k] by (simp add: m length_filter_sort)
qed

lemma median_steps_length:
  assumes "try_fold (median_step e db) acc hs = Inr r"
  shows "length r \<le> length acc + length hs"
  using assms
proof (induction hs arbitrary: acc)
  case (Cons h hs)
  then obtain acc' where "median_step e db acc h = Inr acc'" "length r \<le> length acc' + length hs"
    by (auto simp: result_simps)
  then show ?case by (auto simp: median_step_def result_simps split: option.splits)
qed simp

text \<open>The median time is taken over at most the last eleven stored blocks, is one of their timestamps,
  and at most half of them lie strictly below and at most half strictly above it; it is 0 when none is
  stored.\<close>

theorem median_timestamp_balanced:
  assumes "get_median_timestamp e db h = Inr m"
  shows "\<exists>stamps. try_fold (median_step e db) [] (rev (heights_between (saturating_sub h 10) h)) = Inr stamps \<and>
    length stamps \<le> 11 \<and>
    (if stamps = [] then m = 0
     else m \<in> set stamps \<and> length (filter (\<lambda>t. t < m) stamps) \<le> length stamps div 2 \<and>
       length (filter (\<lambda>t. m < t) stamps) \<le> length stamps div 2)"
proof -
  obtain stamps where s: "try_fold (median_step e db) [] (rev (heights_between (saturating_sub h 10) h)) = Inr stamps"
    "m = middle stamps"
    using assms by (auto simp: get_median_timestamp_def result_simps)
  have "length (heights_between (saturating_sub h 10) h) \<le> 11"
    by (simp add: heights_between_def unat_saturating_sub)
  with median_steps_length [OF s(1)] have "length stamps \<le> 11" by simp
  with s middle_balanced [of stamps] show ?thesis by (auto simp: middle_def)
qed

text \<open>The difficulty rule is the old target scaled by the clamped time span and capped by the genesis
  target: its second pair of bounds never acts, and the target moves by a factor of at most four.\<close>

theorem retarget_formula:
  "retarget g old t = min g (old * clamp t 30240 483840 div 120960) \<and>
   min g (old div 4) \<le> retarget g old t \<and> retarget g old t \<le> min g (old * 4)"
proof -
  let ?a = "clamp t 30240 483840"
  have E: "EXPECTED_TIME = 120960" by (simp add: constants)
  have a: "30240 \<le> ?a" "?a \<le> 483840" by (simp_all add: clamp_def)
  have "old * 30240 div 120960 \<le> old * ?a div 120960" using a by (intro div_le_mono mult_le_mono2)
  moreover have "old * 30240 div 120960 = old div 4" by (simp add: div_mult2_eq [symmetric])
  moreover have "old * ?a div 120960 \<le> old * 483840 div 120960" using a by (intro div_le_mono mult_le_mono2)
  ultimately show ?thesis
    by (auto simp: retarget_def Let_def E min_def)
qed

section \<open>Supply audits\<close>

lemma issued_supply_Some: "issued_supply h = Some s \<longleftrightarrow> unat s = (\<Sum>i\<leftarrow>heights_upto h. unat (subsidy i))"
  by (simp add: issued_supply_def checked_sum_Some comp_def)

text \<open>A full supply audit that passes shows that the values of all unspent outputs, transparent and
  anonymous, add up to the sum of all subsidies up to the best height, modulo 2^64.\<close>

theorem validate_supply_full_sound:
  assumes "validate_supply_full e db best = Inr ()"
  shows "utxo_total e db mod 2 ^ 64 = (\<Sum>h\<leftarrow>heights_upto best. unat (subsidy h))"
proof -
  obtain u a s where
    "compute_cf_supply e db ''utxo'' = Inr u" "compute_cf_supply e db ''anonymous'' = Inr a"
    "issued_supply best = Some s" "u + a = s"
    using assms by (auto simp: validate_supply_full_def result_simps cf_handle_def split: if_splits)
  then show ?thesis
    using compute_cf_supply_Inr [of e db "''utxo''" u] compute_cf_supply_Inr [of e db "''anonymous''" a]
    by (auto simp: issued_supply_Some utxo_total_def unat_word_ariths)
qed

section \<open>Block validation\<close>

lemma checkpoint_eq_Inr:
  "(case c of None \<Rightarrow> Inr () | Some x \<Rightarrow> bail_if (hash \<noteq> x) er) = Inr () \<longleftrightarrow> c = None \<or> c = Some hash"
  by (auto simp: result_simps split: option.splits)

lemma validate_block_accepts:
  assumes "validate_block e db best checkpoints now b h = Inr ()"
  obtains hash target utxos anon_outputs fees median t cb rest out outs where
    "block_size e b \<le> MAX_BLOCK_SIZE" "header_hash e (header b) = Inr hash"
    "compact_to_target (hdr_bits (header b)) = Inr target" "u256_from_be hash \<le> target"
    "calculate_next_bits e db h = Inr (hdr_bits (header b))"
    "merkle_root (header b) = compute_merkle_root e (txs b)"
    "txs b = cb # rest" "is_coinbase cb" "outputs cb = out # outs"
    "try_fold (\<lambda>maps tx. try_fold (fetch_block_input e db (is_anonymous tx)) maps (inputs tx)) (Map.empty, Map.empty) rest
       = Inr (utxos, anon_outputs)"
    "\<forall>tx\<in>set rest. validate_transaction e db best tx h = Inr ()"
    "block_fees utxos anon_outputs rest = Some fees"
    "unat (out_value out) = unat (subsidy h) + unat fees"
    "check_commitments e anon_outputs fees (txs b) = Inr ()"
    "get_median_timestamp e db (h - 1) = Inr median" "median < timestamp (header b)" "now = Some t"
    "timestamp (header b) \<le> of_nat (t div 1000) + 7200" "checkpoints h = None \<or> checkpoints h = Some hash"
proof -
  have "txs b \<noteq> []" "outputs (hd (txs b)) \<noteq> []"
    using assms by (auto simp: validate_block_def result_simps Let_def)
  then obtain cb rest out outs where cb: "txs b = cb # rest" "outputs cb = out # outs"
    by (metis list.exhaust list.sel(1))
  have "\<exists>hash target utxos anon_outputs fees median t. block_size e b \<le> MAX_BLOCK_SIZE \<and>
    header_hash e (header b) = Inr hash \<and> compact_to_target (hdr_bits (header b)) = Inr target \<and>
    u256_from_be hash \<le> target \<and> calculate_next_bits e db h = Inr (hdr_bits (header b)) \<and>
    merkle_root (header b) = compute_merkle_root e (txs b) \<and> is_coinbase cb \<and>
    try_fold (\<lambda>maps tx. try_fold (fetch_block_input e db (is_anonymous tx)) maps (inputs tx)) (Map.empty, Map.empty) rest
       = Inr (utxos, anon_outputs) \<and>
    (\<forall>tx\<in>set rest. validate_transaction e db best tx h = Inr ()) \<and>
    block_fees utxos anon_outputs rest = Some fees \<and> unat (out_value out) = unat (subsidy h) + unat fees \<and>
    check_commitments e anon_outputs fees (txs b) = Inr () \<and>
    get_median_timestamp e db (h - 1) = Inr median \<and> median < timestamp (header b) \<and> now = Some t \<and>
    timestamp (header b) \<le> of_nat (t div 1000) + 7200 \<and> (checkpoints h = None \<or> checkpoints h = Some hash)"
    using assms
    by (auto simp: cb validate_block_def result_simps Let_def try_fold_unit not_less not_le checked_add_eq_Some
        checkpoint_eq_Inr)
  then show ?thesis using that cb by auto
qed

lemma check_commitments_Inr:
  "check_commitments e m fees ts = Inr () \<longleftrightarrow>
    (\<exists>acc. try_fold (gather_commitments e m) \<lparr>block_input_commitments = [], block_output_commitments = [], batch_verifier = []\<rparr> ts = Inr acc \<and>
      proofs_verify e (batch_verifier acc) \<noteq> None \<and>
      foldl (+) (pedersen e 0) (block_input_commitments acc) =
        foldl (+) (pedersen e 0) (block_output_commitments acc) + pedersen e fees)"
  by (auto simp: check_commitments_def result_simps Let_def)


definition pedersen_ok :: "('p::ab_group_add, 'a) env_scheme \<Rightarrow> bool" where
  "pedersen_ok e \<longleftrightarrow> (\<forall>v. pedersen e v = 0 \<longleftrightarrow> v = 0)"

lemma gather_transparent:
  "\<forall>tx\<in>set ts. \<not> is_anonymous tx \<Longrightarrow> try_fold (gather_commitments e m) acc ts = Inr acc"
  by (induction ts) (auto simp: gather_commitments_def)

lemma check_commitments_transparent:
  assumes "pedersen_ok e" "\<forall>tx\<in>set ts. \<not> is_anonymous tx" "check_commitments e m fees ts = Inr ()"
  shows "fees = 0"
proof -
  have "pedersen e 0 = pedersen e 0 + pedersen e fees"
    using assms(3) by (auto simp: check_commitments_def gather_transparent [OF assms(2)] result_simps Let_def)
  then show ?thesis using assms(1) by (simp add: pedersen_ok_def)
qed

lemma fetch_block_input_Inr:
  assumes "fetch_block_input e db a (m, n) vin = Inr (m', n')"
  shows "m' = (if a then m
    else case unspent e db False (outpoint vin) of None \<Rightarrow> m | Some out \<Rightarrow> m(outpoint vin \<mapsto> out))"
  using assms
  by (cases a) (auto simp: fetch_block_input_def unspent_def utxo_cf_def result_simps split: option.splits)

text \<open>The fetched map holds every unspent output that is spent.\<close>

definition fetched :: "'a codec_scheme \<Rightarrow> rocksdb \<Rightarrow> outpoint set \<Rightarrow> (outpoint \<rightharpoonup> txoutput) \<Rightarrow> bool" where
  "fetched e db S m \<longleftrightarrow> (\<forall>op\<in>S. unspent e db False op \<noteq> None \<longrightarrow> m op = unspent e db False op)"

lemma fetched_empty [simp]: "fetched e db {} m"
  by (simp add: fetched_def)

lemma fetched_input:
  assumes "fetch_block_input e db a (m, n) vin = Inr (m', n')" "fetched e db S m"
  shows "fetched e db S m'" "\<not> a \<Longrightarrow> fetched e db (insert (outpoint vin) S) m'"
  using assms(2) by (auto simp: fetched_def fetch_block_input_Inr [OF assms(1)] split: option.splits)

lemma fetched_inputs:
  assumes "try_fold (fetch_block_input e db a) (m, n) vins = Inr (m', n')" "fetched e db S m"
  shows "fetched e db S m'" "\<not> a \<Longrightarrow> fetched e db (outpoint ` set vins \<union> S) m'"
proof -
  have "fetched e db S m' \<and> (\<not> a \<longrightarrow> fetched e db (outpoint ` set vins \<union> S) m')"
    using assms
  proof (induction vins arbitrary: m n S)
    case (Cons vin vins)
    obtain m1 n1 where step: "fetch_block_input e db a (m, n) vin = Inr (m1, n1)"
      "try_fold (fetch_block_input e db a) (m1, n1) vins = Inr (m', n')"
      using Cons.prems(1) by (auto simp: result_simps)
    from Cons.IH [OF step(2) fetched_input(1) [OF step(1) Cons.prems(2)]]
      Cons.IH [OF step(2) fetched_input(2) [OF step(1) Cons.prems(2)]]
    show ?case by auto
  qed simp
  then show "fetched e db S m'" "\<not> a \<Longrightarrow> fetched e db (outpoint ` set vins \<union> S) m'" by auto
qed

lemma fetched_txs:
  assumes "try_fold (\<lambda>maps tx. try_fold (fetch_block_input e db (is_anonymous tx)) maps (inputs tx)) (m, n) ts = Inr (m', n')"
    and "fetched e db S m"
  shows "fetched e db (S \<union> {op. \<exists>tx\<in>set ts. \<not> is_anonymous tx \<and> op \<in> outpoint ` set (inputs tx)}) m'"
  using assms
proof (induction ts arbitrary: m n S)
  case (Cons tx ts)
  let ?new = "if is_anonymous tx then {} else outpoint ` set (inputs tx)"
  obtain m1 n1 where step: "try_fold (fetch_block_input e db (is_anonymous tx)) (m, n) (inputs tx) = Inr (m1, n1)"
    "try_fold (\<lambda>maps tx. try_fold (fetch_block_input e db (is_anonymous tx)) maps (inputs tx)) (m1, n1) ts = Inr (m', n')"
    using Cons.prems(1) by (auto simp: result_simps)
  have "fetched e db (?new \<union> S) m1"
    using fetched_inputs [OF step(1) Cons.prems(2)] by simp
  from Cons.IH [OF step(2) this] show ?case by (rule back_subst [of "\<lambda>S. fetched e db S m'"]) auto
qed simp

text \<open>A block of transparent transactions that contains any payment is rejected: the commitment
  balance of the block counts the fees of all transactions but only the commitments of anonymous ones.\<close>

theorem transparent_payments_rejected:
  assumes "pedersen_ok e" "\<forall>tx\<in>set (txs b). \<not> is_anonymous tx"
    and "tx \<in> set (tl (txs b))" "\<not> is_coinbase tx" "0 < tx_size e tx" "tx_size e tx < 2 ^ 60"
  shows "validate_block e db best checkpoints now b h \<noteq> Inr ()"
proof
  assume "validate_block e db best checkpoints now b h = Inr ()"
  then show False
  proof (rule validate_block_accepts)
    fix utxos anon_outputs fees cb rest
    assume b: "txs b = cb # rest"
      and maps: "try_fold (\<lambda>maps tx. try_fold (fetch_block_input e db (is_anonymous tx)) maps (inputs tx))
        (Map.empty, Map.empty) rest = Inr (utxos, anon_outputs)"
      and valid: "\<forall>tx\<in>set rest. validate_transaction e db best tx h = Inr ()"
      and fees: "block_fees utxos anon_outputs rest = Some fees"
      and comm: "check_commitments e anon_outputs fees (txs b) = Inr ()"
    have tx: "tx \<in> set rest" "\<not> is_anonymous tx" using assms(2,3) by (auto simp: b)
    have "{''utxo'', ''anonymous'', ''key_images'', ''coinbase''} \<subseteq> set (cfs db)"
      using valid tx(1) assms(4) by (auto simp: validate_transaction_def result_simps cf_handle_def split: if_splits)
    then have acc: "\<forall>vin\<in>set (inputs tx). unspent e db False (outpoint vin) \<noteq> None"
      "in_value e db (inputs tx) < 2 ^ 64" "out_sum tx + 10 * tx_size e tx \<le> in_value e db (inputs tx)"
      using transparent_accept_iff [OF assms(4) tx(2), of e db best h] valid tx(1) assms(6) by auto
    have "fetched e db ({} \<union> {op. \<exists>tx\<in>set rest. \<not> is_anonymous tx \<and> op \<in> outpoint ` set (inputs tx)}) utxos"
      by (rule fetched_txs [OF maps fetched_empty])
    then have m: "utxos (outpoint vin) = unspent e db False (outpoint vin)" if "vin \<in> set (inputs tx)" for vin
      using that acc(1) tx unfolding fetched_def by blast
    have sum: "(\<Sum>vin\<leftarrow>inputs tx. unat (out_value (the (utxos (outpoint vin))))) = in_value e db (inputs tx)"
      unfolding in_value_def by (intro arg_cong [of _ _ sum_list] map_cong) (simp_all add: m)
    have "unat (fee tx utxos) = in_value e db (inputs tx) - out_sum tx"
      unfolding out_sum_def using fee_eq [of tx utxos] acc(1,2) m sum by simp
    then have "0 < unat (fee tx utxos)" using acc(3) assms(5) by linarith
    moreover have "unat (fee tx utxos) \<le> unat fees"
      using fees tx
      by (auto simp: block_fees_def checked_sum_Some comp_def intro!: member_le_sum_list rev_image_eqI [OF tx(1)])
    moreover have "fees = 0"
      using check_commitments_transparent [OF assms(1,2) comm] .
    ultimately show False by simp
  qed
qed

section \<open>Witnesses\<close>

lemma demo_header_hash: "header_hash demo_env h = Inr (be_bytes 32 (nat_of_be (put_header h)))"
  by (simp add: header_hash_def pow_hash_def demo_env_def demo_crypto_def)

lemma demo_saves: "\<exists>db'. save_block demo_env demo_db 3 demo_block = Inr db'"
  by (simp add: save_block_def demo_header_hash)

theorem save_block_roundtrip_witness:
  "\<exists>db'. save_block demo_env demo_db 3 demo_block = Inr db' \<and> load_block_from_db demo_env db' 3 = Inr demo_block \<and>
     load_current_height db' = Inr 3"
proof -
  obtain db' where db': "save_block demo_env demo_db 3 demo_block = Inr db'" using demo_saves by blast
  from save_block_roundtrip [OF demo_env_crypto_ok demo_env_bincode_ok demo_db_ok db'] db' show ?thesis by simp
qed

definition demo_header :: block_header where
  "demo_header = \<lparr>hdr_version = 1, prev_hash = zero_hash, merkle_root = zero_hash, timestamp = 5,
     hdr_bits = 0x1d00ffff, nonce = 0\<rparr>"

definition header_db :: "usize \<Rightarrow> rocksdb" where
  "header_db h = db_put (hdr_key h) (ser_header demo_env demo_header) demo_db"

lemma header_db_get: "db_get (header_db h) k = (if k = hdr_key h then Some (put_header demo_header) else db_get demo_db k)"
  by (simp add: header_db_def db_get_put demo_db_ok demo_env_def)

lemma de_put_header: "de_header demo_env (put_header h) = Some h"
  using demo_env_bincode_ok by (simp add: bincode_ok_def demo_env_def)

theorem get_headers_sound_witness:
  "get_headers demo_env (header_db 1) [zero_hash \<mapsto> 0] 1 zero_hash [] = Inr [demo_header] \<and>
   load_header demo_env (header_db 1) 1 = Inr demo_header"
proof -
  have "be_bytes 32 n \<noteq> []" for n by (metis length_be_bytes list.size(3) zero_neq_numeral)
  then have run: "get_headers demo_env (header_db 1) [zero_hash \<mapsto> 0] 1 zero_hash [] = Inr [demo_header]"
    by (simp add: get_headers_def heights_between_def load_header_def header_db_get de_put_header demo_header_hash
        max_headers_def)
  with get_headers_sound [OF run, of 0] show ?thesis by simp
qed

lemma demo_db_chain: "db_get demo_db (height_key h) = None"
  by (simp add: demo_db_get height_key_def)

theorem median_timestamp_balanced_witness:
  "\<exists>db' stamps. save_block demo_env demo_db 3 demo_block = Inr db' \<and> get_median_timestamp demo_env db' 3 = Inr 5 \<and>
    try_fold (median_step demo_env db') [] (rev (heights_between (saturating_sub 3 10) 3)) = Inr stamps \<and>
    length stamps \<le> 11"
proof -
  obtain db' where db': "save_block demo_env demo_db 3 demo_block = Inr db'" using demo_saves by blast
  note get = db_get_saved [OF demo_db_ok demo_header_hash db']
  have "de_block demo_env (ser_block demo_env demo_block) = Some demo_block"
    using demo_env_bincode_ok by (simp add: bincode_ok_def)
  then have "get_median_timestamp demo_env db' 3 = Inr 5"
    by (simp add: get_median_timestamp_def heights_between_def saturating_sub_def median_step_def get demo_db_chain
        middle_def upt_rec)
      (simp add: demo_block_def)
  from median_timestamp_balanced [OF this] db' this show ?thesis by blast
qed

theorem validate_supply_full_sound_witness:
  "utxo_total demo_env (demo_db\<lparr>tables := (\<lambda>_. [])(''utxo'' := [([], put_output (demo_coin\<lparr>out_value := 10000000000\<rparr>))])\<rparr>)
     mod 2 ^ 64 = (\<Sum>h\<leftarrow>heights_upto 0. unat (subsidy h))"
proof (rule validate_supply_full_sound)
  have "de_output demo_env (put_output out) = Some out" for out
    using demo_env_bincode_ok by (simp add: bincode_ok_def demo_env_def)
  moreover have "issued_supply 0 = Some 10000000000"
    by (simp add: issued_supply_Some heights_upto_def subsidy_def constants checked_shr_def)
  ultimately show "validate_supply_full demo_env
    (demo_db\<lparr>tables := (\<lambda>_. [])(''utxo'' := [([], put_output (demo_coin\<lparr>out_value := 10000000000\<rparr>))])\<rparr>) 0 = Inr ()"
    by (simp add: validate_supply_full_def cf_handle_def demo_db_def compute_cf_supply_def checked_add_def)
qed

lemma demo_pedersen_ok: "pedersen_ok demo_env"
  by (simp add: pedersen_ok_def demo_env_def unsigned_eq_0_iff)

theorem transparent_payments_rejected_witness:
  "validate_block demo_env demo_db 5 Map.empty (Some 0) demo_block 6 \<noteq> Inr ()"
  by (rule transparent_payments_rejected [of _ _ demo_spend])
    (simp_all add: demo_pedersen_ok demo_block_def demo_spend_size, simp add: create_coinbase_def)

definition easy_env :: "int env" where
  "easy_env = demo_env\<lparr>randomx := (\<lambda>_. Some zero_hash)\<rparr>"

definition paid_coinbase :: transaction where
  "paid_coinbase = (create_coinbase easy_env 1 [] [])\<lparr>outputs := [\<lparr>out_value = 10000000000, script_pubkey = p2pkh_script easy_env [], commitment = None\<rparr>]\<rparr>"

definition easy_block :: block where
  "easy_block = \<lparr>header = demo_header\<lparr>prev_hash := replicate 32 1, merkle_root := compute_merkle_root easy_env [paid_coinbase]\<rparr>, txs = [paid_coinbase]\<rparr>"

lemma nat_of_be_zeros: "nat_of_be (replicate n 0) = 0"
  by (induction n) (simp_all add: nat_of_be_append replicate_append_same [symmetric])

lemma easy_hash: "header_hash easy_env h = Inr zero_hash"
  by (simp add: header_hash_def pow_hash_def easy_env_def)

lemma easy_block_size: "block_size easy_env easy_block \<le> 4000000"
proof -
  have "crypto_ok easy_env" using demo_env_crypto_ok by (auto simp: easy_env_def crypto_ok_def)
  then have "length (compute_merkle_root easy_env [paid_coinbase]) = 32" "length (p2pkh_script easy_env []) = 25"
    by (simp_all add: compute_merkle_root_def tx_hash_def p2pkh_script_def)
  then show ?thesis
    by (simp add: block_size_def easy_env_def demo_env_def easy_block_def demo_header_def paid_coinbase_def
        create_coinbase_def put_header_def put_tx_def put_list_Cons put_input_def put_output_def)
qed

lemma easy_bits: "calculate_next_bits easy_env (header_db 0) 1 = Inr 0x1d00ffff"
proof -
  have "de_header easy_env (put_header demo_header) = Some demo_header"
    using de_put_header by (simp add: easy_env_def)
  then show ?thesis
    by (simp add: calculate_next_bits_def constants unwrapped_def load_header_def header_db_get demo_header_def)
qed

lemma easy_block_accepted: "validate_block easy_env (header_db 0) best Map.empty (Some 10000) easy_block 1 = Inr ()"
proof -
  have cb: "is_coinbase paid_coinbase" "\<not> is_anonymous paid_coinbase"
    by (simp_all add: paid_coinbase_def create_coinbase_def is_coinbase_def)
  have "subsidy 1 = 10000000000"
    by (simp add: subsidy_def constants checked_shr_def)
  moreover have "cf_handle (header_db 0) ''utxo'' = Some ''utxo''" "cf_handle (header_db 0) ''anonymous'' = Some ''anonymous''"
    by (simp_all add: cf_handle_def header_db_def db_put_def demo_db_def)
  moreover have "get_median_timestamp easy_env (header_db 0) 0 = Inr 0"
    by (simp add: get_median_timestamp_def heights_between_def median_step_def header_db_get demo_db_chain middle_def)
  moreover have "check_commitments easy_env Map.empty 0 [paid_coinbase] = Inr ()"
    by (simp add: check_commitments_def gather_commitments_def cb easy_env_def demo_env_def)
  moreover have "txs easy_block = [paid_coinbase]" "hdr_bits (header easy_block) = 0x1d00ffff"
    "timestamp (header easy_block) = 5" "merkle_root (header easy_block) = compute_merkle_root easy_env [paid_coinbase]"
    "outputs paid_coinbase = [\<lparr>out_value = 10000000000, script_pubkey = p2pkh_script easy_env [], commitment = None\<rparr>]"
    by (simp_all add: easy_block_def demo_header_def paid_coinbase_def)
  moreover obtain target where "compact_to_target 0x1d00ffff = Inr target" by (simp add: compact_to_target_eq Let_def)
  ultimately show ?thesis
    using easy_block_size
    by (simp add: validate_block_def easy_hash easy_bits cb u256_from_be_def nat_of_be_zeros constants
        block_fees_def checked_add_def Let_def)
qed


end
