(* ===== verification/Mempool.thy ===== *)
theory Mempool
  imports Utxo
begin

text \<open>
  \<^verbatim>\<open>mempool.rs\<close>.  The concurrent maps are association lists, iterated in list order; a hash set is
  the list of its elements in iteration order.  The recursion of \<^verbatim>\<open>remove\<close> is run with an
  explicit stack of calls.  \<open>avg_lock\<close> says that the guard of \<^verbatim>\<open>avg_fee\<close> is held:
  \<^verbatim>\<open>insert\<close> holds it to its end, so the calls it makes afterwards cannot take it.  The fee cache,
  the LRU cache and the metrics are written and never read; they are left out.
\<close>

section \<open>State\<close>

record mempool_entry =
  entry_tx :: transaction
  fee_per_byte :: u64
  entry_time :: nat
  depends_on :: "hash256 list"
  entry_fee :: u64

record mempool =
  pool :: "(hash256 \<times> mempool_entry) list"
  heap :: "mempool_entry list"
  total_bytes :: usize
  by_parent :: "hash256 \<rightharpoonup> hash256 list"
  fee_index :: "(u64 \<times> hash256 list) list"
  ttl_heap :: "(nat \<times> hash256) list"
  max_size :: nat
  expiration_index :: "(nat \<times> hash256 list) list"
  avg_fee :: u64
  key_images :: "hash256 \<rightharpoonup> hash256"
  avg_lock :: bool

definition mempool_new :: "nat \<Rightarrow> mempool" where
  "mempool_new limit =
     \<lparr>pool = [], heap = [], total_bytes = 0, by_parent = Map.empty, fee_index = [], ttl_heap = [], max_size = limit,
      expiration_index = [], avg_fee = 0, key_images = Map.empty, avg_lock = False\<rparr>"

definition update_max_size :: "nat \<Rightarrow> mempool \<Rightarrow> mempool" where
  "update_max_size new_max mp = mp\<lparr>max_size := min new_max (256 * 1024 * 1024)\<rparr>"

section \<open>Association lists\<close>

definition al_delete :: "'k \<Rightarrow> ('k \<times> 'v) list \<Rightarrow> ('k \<times> 'v) list" where
  "al_delete k xs = filter (\<lambda>(k', _). k' \<noteq> k) xs"

definition al_insert :: "'k \<Rightarrow> 'v \<Rightarrow> ('k \<times> 'v) list \<Rightarrow> ('k \<times> 'v) list" where
  "al_insert k v xs = al_delete k xs @ [(k, v)]"

definition al_modify :: "'k \<Rightarrow> ('v \<Rightarrow> 'v) \<Rightarrow> ('k \<times> 'v) list \<Rightarrow> ('k \<times> 'v) list" where
  "al_modify k f xs = map (\<lambda>(k', v). (k', if k' = k then f v else v)) xs"

definition al_entry :: "'k \<Rightarrow> 'v \<Rightarrow> ('v \<Rightarrow> 'v) \<Rightarrow> ('k \<times> 'v) list \<Rightarrow> ('k \<times> 'v) list" where
  "al_entry k dflt f xs = (if map_of xs k = None then xs @ [(k, f dflt)] else al_modify k f xs)"

section \<open>Removal\<close>

datatype call = Visit hash256 | Finish hash256 mempool_entry

definition key_image_of :: "txinput \<Rightarrow> bytes" where
  "key_image_of vin = take 32 (script_sig vin)"

definition drop_key_images :: "transaction \<Rightarrow> (hash256 \<rightharpoonup> hash256) \<Rightarrow> hash256 \<rightharpoonup> hash256" where
  "drop_key_images tx kis =
     (if is_anonymous tx
      then fold (\<lambda>vin kis. if length (script_sig vin) \<ge> 32 then kis(key_image_of vin := None) else kis) (inputs tx) kis
      else kis)"

definition remove_entry :: "'a codec_scheme \<Rightarrow> hash256 \<Rightarrow> mempool_entry \<Rightarrow> mempool \<Rightarrow> mempool" where
  "remove_entry e txid entry mp =
     mp\<lparr>pool := al_delete txid (pool mp),
        key_images := drop_key_images (entry_tx entry) (key_images mp),
        total_bytes := total_bytes mp - of_nat (tx_size e (entry_tx entry)),
        by_parent := (by_parent mp)(txid := None)\<rparr>"

definition finish_remove :: "hash256 \<Rightarrow> mempool_entry \<Rightarrow> mempool \<Rightarrow> mempool \<times> unit result" where
  "finish_remove txid entry mp =
     (let mp = mp\<lparr>fee_index := al_modify (fee_per_byte entry) (filter (\<lambda>id. id \<noteq> txid)) (fee_index mp),
                  expiration_index := al_modify (entry_time entry) (remove1 txid) (expiration_index mp)\<rparr>;
          n = of_nat (length (pool mp)) :: u64
      in if avg_lock mp then (mp, Inl Blocked)
         else if n = 0 then (mp, Inl Panic)
         else (mp\<lparr>avg_fee := (avg_fee mp * (n + 1) - fee_per_byte entry) div n\<rparr>, Inr ()))"

lemma al_delete_shorter: "map_of xs k = Some v \<Longrightarrow> length (al_delete k xs) < length xs"
  by (induction xs) (auto simp: al_delete_def less_Suc_eq_le intro!: length_filter_le split: if_splits)

lemma pool_remove_entry [simp]: "pool (remove_entry e txid entry mp) = al_delete txid (pool mp)"
  by (simp add: remove_entry_def)

lemma pool_finish_remove: "finish_remove txid entry mp = (mp', r) \<Longrightarrow> pool mp' = pool mp"
  by (auto simp: finish_remove_def Let_def split: if_splits)

function remove_loop :: "'a codec_scheme \<Rightarrow> call list \<Rightarrow> mempool \<Rightarrow> mempool \<times> unit result" where
  "remove_loop e [] mp = (mp, Inr ())"
| "remove_loop e (Visit txid # calls) mp =
     (case map_of (pool mp) txid of
        None \<Rightarrow> remove_loop e calls mp
      | Some entry \<Rightarrow>
          let children = (case by_parent mp txid of Some children \<Rightarrow> children | None \<Rightarrow> [])
          in remove_loop e (map Visit children @ Finish txid entry # calls) (remove_entry e txid entry mp))"
| "remove_loop e (Finish txid entry # calls) mp =
     sbind (finish_remove txid entry mp) (\<lambda>_. remove_loop e calls)"
  by pat_completeness auto
termination
  by (relation "measures [\<lambda>(e, calls, mp). length (pool mp), \<lambda>(e, calls, mp). length calls]")
    (auto simp: al_delete_shorter dest: pool_finish_remove)

definition mempool_remove :: "'a codec_scheme \<Rightarrow> hash256 \<Rightarrow> mempool \<Rightarrow> mempool \<times> unit result" where
  "mempool_remove e txid mp = remove_loop e [Visit txid] mp"

fun remove_all :: "'a codec_scheme \<Rightarrow> hash256 list \<Rightarrow> mempool \<Rightarrow> mempool \<times> unit result" where
  "remove_all e [] mp = (mp, Inr ())"
| "remove_all e (txid # ids) mp =
     sbind (mempool_remove e txid mp) (\<lambda>_. remove_all e ids)"

definition remove_orphaned_txs :: "'a codec_scheme \<Rightarrow> mempool \<Rightarrow> mempool \<times> unit result" where
  "remove_orphaned_txs e mp =
     remove_all e
       (map fst (filter (\<lambda>(_, entry). \<exists>dep\<in>set (depends_on entry). map_of (pool mp) dep = None) (pool mp))) mp"

section \<open>Eviction\<close>

text \<open>\<^verbatim>\<open>Ord for MempoolEntry\<close>: the greatest entry has the lowest fee rate, then the latest time.\<close>

definition entry_less :: "mempool_entry \<Rightarrow> mempool_entry \<Rightarrow> bool" where
  "entry_less a b \<longleftrightarrow>
     fee_per_byte b < fee_per_byte a \<or> fee_per_byte b = fee_per_byte a \<and> entry_time a < entry_time b"

fun greatest :: "mempool_entry \<Rightarrow> mempool_entry list \<Rightarrow> mempool_entry" where
  "greatest x [] = x"
| "greatest x (y # ys) = greatest (if entry_less x y then y else x) ys"

definition heap_pop :: "mempool_entry list \<Rightarrow> (mempool_entry \<times> mempool_entry list) option" where
  "heap_pop h = (case h of [] \<Rightarrow> None | x # xs \<Rightarrow> let low = greatest x xs in Some (low, remove1 low h))"

definition evict_low_fee_package :: "'a codec_scheme \<Rightarrow> mempool \<Rightarrow> mempool \<times> unit result" where
  "evict_low_fee_package e mp =
     (if avg_lock mp then (mp, Inl Blocked)
      else case heap_pop (heap mp) of
        None \<Rightarrow> (mp, Inr ())
      | Some (low, heap') \<Rightarrow>
          let mp = mp\<lparr>heap := heap'\<rparr>; txid = tx_hash e (entry_tx low)
          in if fee_per_byte low < avg_fee mp div 2
             then sbind (mempool_remove e txid mp) (\<lambda>_ mp.
                    case by_parent mp txid of None \<Rightarrow> (mp, Inr ()) | Some children \<Rightarrow> remove_all e children mp)
             else (mp, Inr ()))"

definition over_capacity :: "mempool \<Rightarrow> bool" where
  "over_capacity mp \<longleftrightarrow> unat (total_bytes mp) > max_size mp \<or> length (pool mp) > 50000"

partial_function (option) evict_loop :: "'a codec_scheme \<Rightarrow> mempool \<Rightarrow> (mempool \<times> unit result) option" where
  "evict_loop e mp =
     (if over_capacity mp
      then (case evict_low_fee_package e mp of
              (mp', Inl f) \<Rightarrow> Some (mp', Inl f)
            | (mp', Inr ()) \<Rightarrow> evict_loop e mp')
      else Some (mp, Inr ()))"

section \<open>Insertion\<close>

function collect_deps :: "mempool \<Rightarrow> nat \<Rightarrow> hash256 list \<Rightarrow> hash256 list \<Rightarrow> (nat \<times> hash256 list) result" where
  "collect_deps mp depth stack deps =
     (if stack = [] \<or> depth \<ge> MAX_PACKAGE_DEPTH then Inr (depth, deps)
      else
        let parent = last stack; stack = butlast stack
        in rbind (bail_if (parent \<in> set deps) (Anyhow ''Cycle detected in dependencies'')) (\<lambda>_.
           collect_deps mp (depth + 1)
             (stack @ (case map_of (pool mp) parent of Some entry \<Rightarrow> depends_on entry | None \<Rightarrow> []))
             (deps @ [parent])))"
  by pat_completeness auto
termination
  by (relation "measure (\<lambda>(mp, depth, stack, deps). MAX_PACKAGE_DEPTH - depth)") auto

declare collect_deps.simps [simp del]

definition package_step :: "'a codec_scheme \<Rightarrow> mempool \<Rightarrow> nat \<Rightarrow> hash256 \<Rightarrow> nat result" where
  "package_step e mp package_size dep =
     (let package_size = package_size + (case map_of (pool mp) dep of Some entry \<Rightarrow> tx_size e (entry_tx entry) | None \<Rightarrow> 0)
      in rbind (bail_if (package_size > MAX_PACKAGE_SIZE) (Anyhow ''Package size exceeded'')) (\<lambda>_. Inr package_size))"

definition set_insert :: "'a \<Rightarrow> 'a list \<Rightarrow> 'a list" where
  "set_insert x xs = (if x \<in> set xs then xs else xs @ [x])"

definition resolve_input ::
  "'a codec_scheme \<Rightarrow> rocksdb \<Rightarrow> mempool \<Rightarrow> bool \<Rightarrow> u64 \<times> hash256 list \<Rightarrow> txinput \<Rightarrow> (u64 \<times> hash256 list) result" where
  "resolve_input e db mp anonymous = (\<lambda>(input_sum, deps) vin.
     case db_get db (utxo_cf anonymous, utxo_key anonymous (in_txid vin) (in_vout vin)) of
       Some value \<Rightarrow>
         rbind (or_err (de_output e value) (Anyhow ''Deserialize output failed'')) (\<lambda>output.
         rbind (or_err (checked_add input_sum (out_value output)) ValueOverflow) (\<lambda>input_sum.
         Inr (input_sum, deps)))
     | None \<Rightarrow>
         if map_of (pool mp) (in_txid vin) \<noteq> None then Inr (input_sum, set_insert (in_txid vin) deps)
         else bail MissingUTXO)"

definition fresh_key_image :: "mempool \<Rightarrow> txinput \<Rightarrow> unit result" where
  "fresh_key_image mp vin =
     rbind (bail_if (length (script_sig vin) < 32) InvalidScript) (\<lambda>_.
     bail_if (key_images mp (key_image_of vin) \<noteq> None) DoubleSpend)"

definition admit :: "'a codec_scheme \<Rightarrow> rocksdb \<Rightarrow> nat option \<Rightarrow> mempool \<Rightarrow> transaction \<Rightarrow> mempool_entry result" where
  "admit e db now mp tx =
     (let txid = tx_hash e tx; size = tx_size e tx
      in rbind (bail_if (size = 0 \<or> size > 500000) (InvalidTx ''Invalid size'')) (\<lambda>_.
         rbind (or_err (cf_handle db ''utxo'') (Anyhow ''utxo'')) (\<lambda>_.
         rbind (or_err (cf_handle db ''anonymous'') (Anyhow ''anonymous'')) (\<lambda>_.
         rbind (collect_deps mp 0 (filter (\<lambda>id. map_of (pool mp) id \<noteq> None) (map in_txid (inputs tx))) []) (\<lambda>(depth, deps).
         rbind (bail_if (depth \<ge> MAX_PACKAGE_DEPTH) PackageDepthExceeded) (\<lambda>_.
         rbind (try_fold (package_step e mp) size deps) (\<lambda>_.
         rbind (try_fold (resolve_input e db mp (is_anonymous tx)) (0, deps) (inputs tx)) (\<lambda>(input_sum, deps).
         rbind (or_err (checked_sum (map out_value (outputs tx))) ValueOverflow) (\<lambda>output_sum.
         rbind (or_err (checked_sub input_sum output_sum) ValueOverflow) (\<lambda>fee.
         rbind (case map_of (pool mp) txid of
                  None \<Rightarrow> Inr ()
                | Some old_entry \<Rightarrow>
                    bail_if (fee < entry_fee old_entry + MIN_FEE_PER_BYTE * 2 * of_nat size) InsufficientFee) (\<lambda>_.
         rbind (if is_anonymous tx then try_fold (\<lambda>_. fresh_key_image mp) () (inputs tx) else Inr ()) (\<lambda>_.
         rbind (or_err now InvalidTimestamp) (\<lambda>time.
         Inr \<lparr>entry_tx = tx, fee_per_byte = fee div of_nat size, entry_time = time, depends_on = deps,
               entry_fee = fee\<rparr>)))))))))))))"

definition take_key_images :: "hash256 \<Rightarrow> transaction \<Rightarrow> (hash256 \<rightharpoonup> hash256) \<Rightarrow> hash256 \<rightharpoonup> hash256" where
  "take_key_images txid tx kis =
     (if is_anonymous tx
      then fold (\<lambda>vin kis. if length (script_sig vin) \<ge> 32 then kis(key_image_of vin \<mapsto> txid) else kis) (inputs tx) kis
      else kis)"

fun sorted_insert :: "hash256 \<Rightarrow> hash256 list \<Rightarrow> hash256 list" where
  "sorted_insert x [] = [x]"
| "sorted_insert x (y # ys) = (if x < y then x # y # ys else if x = y then y # ys else y # sorted_insert x ys)"

definition add_entry :: "'a codec_scheme \<Rightarrow> hash256 \<Rightarrow> mempool_entry \<Rightarrow> mempool \<Rightarrow> mempool" where
  "add_entry e txid entry mp =
     (let tx = entry_tx entry
      in mp\<lparr>key_images := take_key_images txid tx (key_images mp),
            pool := al_insert txid entry (pool mp),
            heap := heap mp @ [entry],
            ttl_heap := ttl_heap mp @ [(entry_time entry, txid)],
            expiration_index := al_entry (entry_time entry) [] (\<lambda>ids. ids @ [txid]) (expiration_index mp),
            total_bytes := total_bytes mp + of_nat (tx_size e tx),
            by_parent := fold (\<lambda>dep bp. bp(dep \<mapsto> (case bp dep of Some cs \<Rightarrow> cs | None \<Rightarrow> []) @ [txid]))
              (depends_on entry) (by_parent mp),
            fee_index := al_entry (fee_per_byte entry) [] (sorted_insert txid) (fee_index mp)\<rparr>)"

definition raise_avg :: "mempool_entry \<Rightarrow> mempool \<Rightarrow> mempool" where
  "raise_avg entry mp =
     (let n = of_nat (length (pool mp)) :: u64
      in mp\<lparr>avg_fee := (avg_fee mp * (n - 1) + fee_per_byte entry) div n, avg_lock := True\<rparr>)"

definition mempool_insert ::
  "'a codec_scheme \<Rightarrow> rocksdb \<Rightarrow> nat option \<Rightarrow> mempool \<Rightarrow> transaction \<Rightarrow> mempool \<times> bool result" where
  "mempool_insert e db now mp tx =
     (let txid = tx_hash e tx
      in if map_of (pool mp) txid \<noteq> None then (mp, Inr False)
         else case admit e db now mp tx of
           Inl f \<Rightarrow> (mp, Inl f)
         | Inr entry \<Rightarrow>
             if avg_lock mp then (add_entry e txid entry mp, Inl Blocked)
             else
             let mp = raise_avg entry (add_entry e txid entry mp)
             in case evict_loop e mp of
                  None \<Rightarrow> (mp, Inl Blocked)
                | Some evicted \<Rightarrow>
                    sbind evicted (\<lambda>_ mp.
                    sbind (remove_orphaned_txs e mp) (\<lambda>_ mp.
                    (mp\<lparr>avg_lock := False\<rparr>, Inr True))))"

section \<open>Selection for a block\<close>

record package =
  package_txs :: "transaction list"
  package_size :: nat
  to_include :: "hash256 list"
  visited :: "hash256 list"

function gather_package :: "'a codec_scheme \<Rightarrow> mempool \<Rightarrow> nat \<Rightarrow> hash256 list \<Rightarrow> package \<Rightarrow> package" where
  "gather_package e mp depth stack p =
     (if stack = [] \<or> depth + 1 > MAX_PACKAGE_DEPTH then p
      else
        let parent = last stack; stack = butlast stack
        in if parent \<in> set (visited p) then gather_package e mp (depth + 1) stack p
           else case map_of (pool mp) parent of
             None \<Rightarrow> gather_package e mp (depth + 1) stack (p\<lparr>visited := visited p @ [parent]\<rparr>)
           | Some parent_entry \<Rightarrow>
               gather_package e mp (depth + 1) (stack @ depends_on parent_entry)
                 \<lparr>package_txs = entry_tx parent_entry # package_txs p,
                  package_size = package_size p + tx_size e (entry_tx parent_entry),
                  to_include = to_include p @ [parent], visited = visited p @ [parent]\<rparr>)"
  by pat_completeness auto
termination
  by (relation "measure (\<lambda>(e, mp, depth, stack, p). MAX_PACKAGE_DEPTH - depth)") auto

declare gather_package.simps [simp del]

record selection =
  selected :: "transaction list"
  sel_size :: nat
  included :: "hash256 list"
  visited_packages :: "hash256 list"

definition select_step :: "'a codec_scheme \<Rightarrow> mempool \<Rightarrow> nat \<Rightarrow> hash256 \<Rightarrow> selection \<Rightarrow> selection" where
  "select_step e mp limit txid s =
     (if txid \<in> set (included s) \<or> txid \<in> set (visited_packages s) then s
      else case map_of (pool mp) txid of
        None \<Rightarrow> s
      | Some entry \<Rightarrow>
          let p = gather_package e mp 0 (depends_on entry)
                \<lparr>package_txs = [entry_tx entry], package_size = tx_size e (entry_tx entry), to_include = [txid], visited = []\<rparr>;
              s = s\<lparr>visited_packages := visited_packages s @ visited p\<rparr>
          in if package_size p \<le> limit - sel_size s \<and> package_size p \<le> MAX_PACKAGE_SIZE
             then s\<lparr>selected := selected s @ package_txs p, sel_size := sel_size s + package_size p,
                    included := included s @ to_include p\<rparr>
             else s)"

definition select_rate :: "'a codec_scheme \<Rightarrow> mempool \<Rightarrow> nat \<Rightarrow> u64 \<Rightarrow> selection \<Rightarrow> selection" where
  "select_rate e mp limit fee_rate s =
     (if sel_size s \<ge> limit then s
      else case map_of (fee_index mp) fee_rate of
        None \<Rightarrow> s
      | Some ids \<Rightarrow> fold (select_step e mp limit) ids s)"

definition select_txs :: "'a codec_scheme \<Rightarrow> mempool \<Rightarrow> nat \<Rightarrow> transaction list" where
  "select_txs e mp limit =
     selected (fold (select_rate e mp limit) (rev (sort (map fst (fee_index mp))))
       \<lparr>selected = [], sel_size = 0, included = [], visited_packages = []\<rparr>)"

section \<open>Expiry\<close>

text \<open>
  The order in which \<^verbatim>\<open>BinaryHeap::iter\<close> visits the heap is the argument \<open>iter\<close>; the pair
  that \<^verbatim>\<open>pop\<close> removes is the greatest one.
\<close>

fun latest :: "nat \<times> hash256 \<Rightarrow> (nat \<times> hash256) list \<Rightarrow> nat \<times> hash256" where
  "latest x [] = x"
| "latest x (y # ys) = latest (if fst x < fst y \<or> fst x = fst y \<and> snd x < snd y then y else x) ys"

definition ttl_pop :: "(nat \<times> hash256) list \<Rightarrow> (nat \<times> hash256) list" where
  "ttl_pop h = (case h of [] \<Rightarrow> [] | x # xs \<Rightarrow> remove1 (latest x xs) h)"

fun expire_all :: "'a codec_scheme \<Rightarrow> hash256 list \<Rightarrow> mempool \<Rightarrow> mempool \<times> unit result" where
  "expire_all e [] mp = (mp, Inr ())"
| "expire_all e (txid # ids) mp =
     sbind (mempool_remove e txid mp) (\<lambda>_ mp. expire_all e ids (mp\<lparr>ttl_heap := ttl_pop (ttl_heap mp)\<rparr>))"

definition clean_expired ::
  "'a codec_scheme \<Rightarrow> ((nat \<times> hash256) list \<Rightarrow> (nat \<times> hash256) list) \<Rightarrow> nat option \<Rightarrow> nat \<Rightarrow> mempool \<Rightarrow> mempool \<times> unit result" where
  "clean_expired e iter now expiration_ms mp =
     (case now of
        None \<Rightarrow> (mp, bail InvalidTimestamp)
      | Some now \<Rightarrow>
          let to_remove = map snd (takeWhile (\<lambda>(time, _). now - time > expiration_ms) (iter (ttl_heap mp)))
          in sbind (expire_all e to_remove mp) (\<lambda>_ mp.
             (mp\<lparr>expiration_index := filter (\<lambda>(time, _). \<not> now - time > expiration_ms) (expiration_index mp)\<rparr>, Inr ())))"

section \<open>The pool invariant\<close>

definition children_of :: "mempool \<Rightarrow> hash256 \<Rightarrow> hash256 list" where
  "children_of mp txid = (case by_parent mp txid of Some cs \<Rightarrow> cs | None \<Rightarrow> [])"

definition pool_bytes :: "'a codec_scheme \<Rightarrow> (hash256 \<times> mempool_entry) list \<Rightarrow> nat" where
  "pool_bytes e p = (\<Sum>(_, entry)\<leftarrow>p. tx_size e (entry_tx entry))"

text \<open>
  The entry \<open>txid\<close> is in order: it is filed under its hash and in the fee index, and unless its removal is
  pending it is filed under each of its parents, which are in the pool.
\<close>

definition entry_ok :: "'a codec_scheme \<Rightarrow> hash256 set \<Rightarrow> mempool \<Rightarrow> hash256 \<Rightarrow> mempool_entry \<Rightarrow> bool" where
  "entry_ok e pending mp txid entry \<longleftrightarrow>
     txid = tx_hash e (entry_tx entry) \<and>
     (\<exists>ids. map_of (fee_index mp) (fee_per_byte entry) = Some ids \<and> txid \<in> set ids) \<and>
     (txid \<notin> pending \<longrightarrow>
        (\<forall>dep\<in>set (depends_on entry). map_of (pool mp) dep \<noteq> None \<and> txid \<in> set (children_of mp dep)))"

definition pool_inv :: "'a codec_scheme \<Rightarrow> hash256 set \<Rightarrow> mempool \<Rightarrow> bool" where
  "pool_inv e pending mp \<longleftrightarrow>
     distinct (map fst (pool mp)) \<and> total_bytes mp = of_nat (pool_bytes e (pool mp)) \<and>
     (\<forall>txid entry. map_of (pool mp) txid = Some entry \<longrightarrow> entry_ok e pending mp txid entry)"

abbreviation pool_ok :: "'a codec_scheme \<Rightarrow> mempool \<Rightarrow> bool" where
  "pool_ok e \<equiv> pool_inv e {}"

lemma map_of_al_delete [simp]: "map_of (al_delete k xs) x = (if x = k then None else map_of xs x)"
  by (induction xs) (auto simp: al_delete_def)

lemma map_of_al_modify [simp]: "map_of (al_modify k f xs) x = (if x = k then map_option f (map_of xs x) else map_of xs x)"
  by (induction xs) (auto simp: al_modify_def)

lemma map_of_al_insert [simp]: "map_of (al_insert k v xs) x = (if x = k then Some v else map_of xs x)"
  by (auto simp: al_insert_def map_add_def split: option.splits)

lemma distinct_al_delete [simp]: "distinct (map fst xs) \<Longrightarrow> distinct (map fst (al_delete k xs))"
  by (induction xs) (auto simp: al_delete_def)

lemma fst_al_delete: "fst ` set (al_delete k xs) = fst ` set xs - {k}"
  by (force simp: al_delete_def)

lemma distinct_al_insert [simp]: "distinct (map fst xs) \<Longrightarrow> distinct (map fst (al_insert k v xs))"
  by (simp add: al_insert_def fst_al_delete)

lemma pool_bytes_delete:
  "distinct (map fst p) \<Longrightarrow> map_of p k = Some entry \<Longrightarrow>
     pool_bytes e p = pool_bytes e (al_delete k p) + tx_size e (entry_tx entry)"
proof (induction p)
  case (Cons x p)
  obtain k' v where x: "x = (k', v)" by (cases x)
  show ?case
  proof (cases "k' = k")
    case True
    then have "al_delete k p = p" using Cons.prems(1) by (force simp: x al_delete_def intro: filter_True)
    with True Cons.prems show ?thesis by (simp add: x pool_bytes_def al_delete_def)
  next
    case False
    with Cons show ?thesis by (simp add: x pool_bytes_def al_delete_def)
  qed
qed simp

definition visits :: "call list \<Rightarrow> hash256 set" where
  "visits calls = {txid. Visit txid \<in> set calls}"

definition finishes :: "call list \<Rightarrow> hash256 set" where
  "finishes calls = {txid. \<exists>entry. Finish txid entry \<in> set calls}"

lemma visits_simps [simp]:
  "visits [] = {}" "visits (Visit x # cs) = insert x (visits cs)" "visits (Finish x en # cs) = visits cs"
  "visits (map Visit xs @ cs) = set xs \<union> visits cs"
  "finishes [] = {}" "finishes (Visit x # cs) = finishes cs" "finishes (Finish x en # cs) = insert x (finishes cs)"
  "finishes (map Visit xs @ cs) = finishes cs"
  by (auto simp: visits_def finishes_def)

lemma pool_inv_visit:
  assumes "pool_inv e (insert txid pending) mp" "map_of (pool mp) txid = Some entry"
  shows "pool_inv e (set (children_of mp txid) \<union> pending) (remove_entry e txid entry mp)"
proof -
  have "entry_ok e (set (children_of mp txid) \<union> pending) (remove_entry e txid entry mp) x en"
    if "map_of (pool mp) x = Some en" "x \<noteq> txid" for x en
  proof -
    have "entry_ok e (insert txid pending) mp x en" using assms(1) that(1) by (simp add: pool_inv_def)
    then show ?thesis using that(2) by (auto simp: entry_ok_def children_of_def remove_entry_def)
  qed
  moreover have "total_bytes (remove_entry e txid entry mp) = of_nat (pool_bytes e (pool (remove_entry e txid entry mp)))"
    using assms pool_bytes_delete [OF _ assms(2), of e] by (simp add: pool_inv_def remove_entry_def)
  ultimately show ?thesis using assms(1) by (simp add: pool_inv_def)
qed

lemma pool_inv_finish:
  assumes "finish_remove txid entry mp = (mp', r)" "pool_inv e pending mp" "map_of (pool mp) txid = None"
  shows "pool_inv e pending mp'"
proof -
  have same: "pool mp' = pool mp" "total_bytes mp' = total_bytes mp" "by_parent mp' = by_parent mp"
    "fee_index mp' = al_modify (fee_per_byte entry) (filter (\<lambda>id. id \<noteq> txid)) (fee_index mp)"
    using assms(1) by (auto simp: finish_remove_def Let_def split: if_splits)
  have "entry_ok e pending mp' x en" if "map_of (pool mp) x = Some en" for x en
    using assms(2,3) that unfolding pool_inv_def entry_ok_def children_of_def same
    by (auto split: if_splits) fastforce+
  then show ?thesis using assms(2) by (simp add: pool_inv_def same)
qed

lemma remove_loop_inv:
  assumes "remove_loop e calls mp = (mp', r)" "pool_inv e (visits calls) mp" "\<forall>x\<in>finishes calls. map_of (pool mp) x = None"
  shows "r = Inr () \<longrightarrow> pool_ok e mp'"
  using assms
proof (induction e calls mp rule: remove_loop.induct)
  case (2 e txid calls mp)
  show ?case
  proof (cases "map_of (pool mp) txid")
    case None
    have "pool_inv e (visits calls) mp"
      using 2(4) None unfolding pool_inv_def entry_ok_def by fastforce
    with 2 None show ?thesis by simp
  next
    case (Some entry)
    from pool_inv_visit [OF _ Some, of e "visits calls"] 2(4)
    have "pool_inv e (set (children_of mp txid) \<union> visits calls) (remove_entry e txid entry mp)" by simp
    with 2(2) [OF Some refl] 2(3,5) Some show ?thesis by (simp add: children_of_def Let_def)
  qed
next
  case (3 e txid entry calls mp)
  from 3(2) [simplified] show ?case
  proof (cases rule: sbindE)
    case (2 d u)
    from pool_inv_finish [OF 2(1), of e "visits calls"] 3(3,4)
    have "pool_inv e (visits calls) d" by simp
    moreover have "pool d = pool mp" using pool_finish_remove [OF 2(1)] .
    ultimately show ?thesis using 3(1) [OF 2] 3(4) by simp
  qed simp
qed (simp add: pool_inv_def)


section \<open>What removal removes\<close>

definition child_edges :: "mempool \<Rightarrow> (hash256 \<times> hash256) set" where
  "child_edges mp = {(p, c). c \<in> set (children_of mp p)}"

lemma remove_loop_frame:
  assumes "remove_loop e calls mp = (mp', r)" "by_parent mp \<subseteq>\<^sub>m bp" "R = {(p, c). \<exists>cs. bp p = Some cs \<and> c \<in> set cs}\<^sup>*"
    "R `` visits calls \<subseteq> S" "x \<notin> S"
  shows "map_of (pool mp') x = map_of (pool mp) x"
  using assms(1,2,4)
proof (induction e calls mp rule: remove_loop.induct)
  case (2 e txid calls mp)
  show ?case
  proof (cases "map_of (pool mp) txid")
    case None
    with 2 show ?thesis by auto
  next
    case (Some entry)
    have "(txid, c) \<in> R" if "c \<in> set (children_of mp txid)" for c
      using that 2(4) by (auto simp: assms(3) children_of_def map_le_def split: option.splits)
        (metis (mono_tags, lifting) CollectI case_prodI domI option.sel r_into_rtrancl)
    then have "R `` (set (children_of mp txid)) \<subseteq> R `` {txid}" by (auto simp: assms(3) intro: rtrancl_trans)
    then have "R `` visits (map Visit (children_of mp txid) @ Finish txid entry # calls) \<subseteq> S"
      using 2(5) by auto
    moreover have "x \<noteq> txid" using 2(5) assms(5) by (auto simp: assms(3))
    moreover have "by_parent (remove_entry e txid entry mp) \<subseteq>\<^sub>m bp"
      using 2(4) by (auto simp: remove_entry_def map_le_def)
    ultimately show ?thesis
      using 2(2) [OF Some refl] 2(3) Some by (simp add: children_of_def Let_def)
  qed
next
  case (3 e txid entry calls mp)
  have bp: "by_parent d = by_parent mp" if "finish_remove txid entry mp = (d, u)" for d u
    using that by (auto simp: finish_remove_def Let_def split: if_splits)
  from 3(2) [simplified] show ?case
  proof (cases rule: sbindE)
    case (1 f)
    then show ?thesis by (simp add: pool_finish_remove)
  next
    case (2 d u)
    then show ?thesis using 3(1) [OF 2] 3(3,4) bp [OF 2(1)] pool_finish_remove [OF 2(1)] by simp
  qed
qed simp

lemma remove_loop_shrinks:
  "remove_loop e calls mp = (mp', r) \<Longrightarrow> map_of (pool mp') \<subseteq>\<^sub>m map_of (pool mp)"
proof (induction e calls mp rule: remove_loop.induct)
  case (2 e txid calls mp)
  show ?case
  proof (cases "map_of (pool mp) txid")
    case (Some entry)
    with 2(2) [OF Some refl] 2(3) have
      "\<forall>x\<in>dom (map_of (pool mp')). map_of (pool mp') x = (if x = txid then None else map_of (pool mp) x)"
      by (simp add: Let_def map_le_def)
    then show ?thesis unfolding map_le_def by (metis domIff)
  qed (use 2 in simp)
next
  case (3 e txid entry calls mp)
  from 3(2) [simplified] show ?case
    by (rule sbindE) (use 3(1) in \<open>auto dest!: pool_finish_remove\<close>)
qed (simp add: map_le_def)

lemma remove_loop_visited:
  assumes "remove_loop e (Visit txid # calls) mp = (mp', r)"
  shows "map_of (pool mp') txid = None"
proof (cases "map_of (pool mp) txid")
  case None
  then show ?thesis using remove_loop_shrinks [OF assms] by (force simp: map_le_def dom_def)
next
  case (Some entry)
  then have "remove_loop e (map Visit (children_of mp txid) @ Finish txid entry # calls) (remove_entry e txid entry mp) = (mp', r)"
    using assms by (simp add: children_of_def Let_def)
  from remove_loop_shrinks [OF this] show ?thesis by (force simp: map_le_def dom_def)
qed

text \<open>C12. Removing a transaction that returns leaves a consistent pool without it, hence without anything
  that depends on it, and keeps every entry that is not filed below it.\<close>

theorem remove_removes_package:
  assumes "pool_ok e mp" "mempool_remove e txid mp = (mp', Inr ())"
  shows "pool_ok e mp' \<and> map_of (pool mp') txid = None \<and>
    (\<forall>x. (txid, x) \<notin> (child_edges mp)\<^sup>* \<longrightarrow> map_of (pool mp') x = map_of (pool mp) x)"
proof -
  have "pool_ok e mp'"
    using remove_loop_inv [of e "[Visit txid]" mp mp' "Inr ()"] assms
    by (auto simp: mempool_remove_def pool_inv_def entry_ok_def)
  moreover have "map_of (pool mp') txid = None"
    using remove_loop_visited assms(2) by (fastforce simp: mempool_remove_def)
  moreover have "map_of (pool mp') x = map_of (pool mp) x" if "(txid, x) \<notin> (child_edges mp)\<^sup>*" for x
  proof -
    have "child_edges mp = {(p, c). \<exists>cs. by_parent mp p = Some cs \<and> c \<in> set cs}"
      by (force simp: child_edges_def children_of_def split: option.splits)
    with remove_loop_frame [OF assms(2) [unfolded mempool_remove_def] map_le_refl refl, of "(child_edges mp)\<^sup>* `` {txid}" x] that
    show ?thesis by simp
  qed
  ultimately show ?thesis by blast
qed

lemma remove_loop_absent:
  "\<forall>x\<in>set xs. map_of (pool mp) x = None \<Longrightarrow> remove_loop e (map Visit xs @ calls) mp = remove_loop e calls mp"
  by (induction xs) auto

text \<open>Removing the only transaction of the pool divides by the number of remaining transactions and
  panics.\<close>

theorem remove_last_panics:
  assumes "pool mp = [(txid, entry)]" "\<not> avg_lock mp"
  shows "snd (mempool_remove e txid mp) = Inl Panic"
proof -
  have empty: "pool (remove_entry e txid entry mp) = []" using assms(1) by (simp add: al_delete_def)
  show ?thesis
    using assms(2) by (simp add: mempool_remove_def assms(1) Let_def remove_loop_absent empty)
      (simp add: finish_remove_def Let_def remove_entry_def assms al_delete_def)
qed

section \<open>Admission\<close>

lemma collect_deps_in_pool:
  assumes "collect_deps mp depth stack deps = Inr (d, deps')" "set stack \<union> set deps \<subseteq> K"
    "\<forall>txid entry. map_of (pool mp) txid = Some entry \<longrightarrow> set (depends_on entry) \<subseteq> K"
  shows "set deps' \<subseteq> K"
  using assms
proof (induction mp depth stack deps rule: collect_deps.induct)
  case (1 mp depth stack deps)
  show ?case
  proof (cases "stack = [] \<or> depth \<ge> MAX_PACKAGE_DEPTH")
    case True
    with 1(2,3) show ?thesis by (auto simp: collect_deps.simps)
  next
    case False
    let ?more = "case map_of (pool mp) (last stack) of Some entry \<Rightarrow> depends_on entry | None \<Rightarrow> []"
    have run: "last stack \<notin> set deps" "collect_deps mp (depth + 1) (butlast stack @ ?more) (deps @ [last stack]) = Inr (d, deps')"
      using 1(2) False by (auto simp: collect_deps.simps [of mp depth] Let_def result_simps)
    have "set ?more \<subseteq> K" using 1(4) by (cases "map_of (pool mp) (last stack)") auto
    moreover have "last stack \<in> K" "set (butlast stack) \<subseteq> K" using False 1(3) last_in_set [of stack] by (auto dest: in_set_butlastD)
    ultimately have "set (butlast stack @ ?more) \<union> set (deps @ [last stack]) \<subseteq> K" using 1(3) by auto
    with 1(1) [OF False refl refl, of "()"] run 1(4) show ?thesis by simp
  qed
qed

definition confirmed_value :: "'a codec_scheme \<Rightarrow> rocksdb \<Rightarrow> transaction \<Rightarrow> nat" where
  "confirmed_value e db tx =
     (\<Sum>vin\<leftarrow>inputs tx. case unspent e db (is_anonymous tx) (outpoint vin) of Some out \<Rightarrow> unat (out_value out) | None \<Rightarrow> 0)"

lemma resolve_inputs:
  assumes "try_fold (resolve_input e db mp a) (s, deps) vins = Inr (s', deps')"
  shows "unat s' = unat s + (\<Sum>vin\<leftarrow>vins. case unspent e db a (outpoint vin) of Some out \<Rightarrow> unat (out_value out) | None \<Rightarrow> 0) \<and>
    set deps' \<subseteq> set deps \<union> dom (map_of (pool mp))"
  using assms
proof (induction vins arbitrary: s deps)
  case (Cons vin vins)
  obtain s1 deps1 where step: "resolve_input e db mp a (s, deps) vin = Inr (s1, deps1)"
    "try_fold (resolve_input e db mp a) (s1, deps1) vins = Inr (s', deps')"
    using Cons.prems by (auto simp: result_simps)
  have "unat s1 = unat s + (case unspent e db a (outpoint vin) of Some out \<Rightarrow> unat (out_value out) | None \<Rightarrow> 0) \<and>
      set deps1 \<subseteq> set deps \<union> dom (map_of (pool mp))"
    using step(1)
    by (auto simp: resolve_input_def unspent_def utxo_cf_def result_simps checked_add_eq_Some set_insert_def split: option.splits if_splits)
  with Cons.IH [OF step(2)] show ?case by auto
qed simp


lemma admit_Inr:
  assumes "admit e db now mp tx = Inr entry"
  shows "entry_tx entry = tx \<and> 0 < tx_size e tx \<and> fee_per_byte entry = entry_fee entry div of_nat (tx_size e tx) \<and>
    unat (entry_fee entry) + out_sum tx = confirmed_value e db tx \<and>
    (\<exists>d deps. collect_deps mp 0 (filter (\<lambda>id. map_of (pool mp) id \<noteq> None) (map in_txid (inputs tx))) [] = Inr (d, deps) \<and>
       set (depends_on entry) \<subseteq> set deps \<union> dom (map_of (pool mp)))"
proof -
  obtain d deps s deps' outs where run:
    "collect_deps mp 0 (filter (\<lambda>id. map_of (pool mp) id \<noteq> None) (map in_txid (inputs tx))) [] = Inr (d, deps)"
    "try_fold (resolve_input e db mp (is_anonymous tx)) (0, deps) (inputs tx) = Inr (s, deps')"
    "checked_sum (map out_value (outputs tx)) = Some outs" "checked_sub s outs = Some (entry_fee entry)"
    "0 < tx_size e tx" "entry_tx entry = tx" "fee_per_byte entry = entry_fee entry div of_nat (tx_size e tx)"
    "depends_on entry = deps'"
    using assms by (auto simp: admit_def Let_def result_simps)
  have "unat s = unat (entry_fee entry) + unat outs" using run(4) by (auto simp: checked_sub_eq_Some unat_sub_exact word_le_nat_alt)
  moreover have "unat outs = out_sum tx" using run(3) by (simp add: checked_sum_Some out_sum_def comp_def)
  ultimately show ?thesis
    using resolve_inputs [OF run(2)] run by (auto simp: confirmed_value_def)
qed

text \<open>The fee of an admitted transaction is the value of those inputs that spend stored outputs, minus
  its outputs: inputs that spend outputs of other pooled transactions count nothing.  The fee rate is
  the fee divided by the size.\<close>

theorem admitted_fee_exact:
  assumes "admit e db now mp tx = Inr entry"
  shows "unat (entry_fee entry) + out_sum tx = confirmed_value e db tx \<and>
    unat (fee_per_byte entry) = unat (entry_fee entry) div (tx_size e tx mod 2 ^ 64)"
  using admit_Inr [OF assms] by (simp add: unat_div unat_of_nat)

lemma admit_deps:
  assumes "admit e db now mp tx = Inr entry" "pool_ok e mp"
  shows "set (depends_on entry) \<subseteq> dom (map_of (pool mp))"
proof -
  obtain d deps where deps: "collect_deps mp 0 (filter (\<lambda>id. map_of (pool mp) id \<noteq> None) (map in_txid (inputs tx))) [] = Inr (d, deps)"
    "set (depends_on entry) \<subseteq> set deps \<union> dom (map_of (pool mp))"
    using admit_Inr [OF assms(1)] by auto
  have "set deps \<subseteq> dom (map_of (pool mp))"
    by (rule collect_deps_in_pool [OF deps(1)]) (use assms(2) in \<open>auto simp: pool_inv_def entry_ok_def\<close>)
  with deps(2) show ?thesis by auto
qed

lemma children_fold:
  "set (case fold (\<lambda>dep bp. bp(dep \<mapsto> (case bp dep of Some cs \<Rightarrow> cs | None \<Rightarrow> []) @ [txid])) deps bp p of Some cs \<Rightarrow> cs | None \<Rightarrow> []) =
   set (case bp p of Some cs \<Rightarrow> cs | None \<Rightarrow> []) \<union> (if p \<in> set deps then {txid} else {})"
  by (induction deps arbitrary: bp) auto

lemma set_sorted_insert [simp]: "set (sorted_insert x xs) = insert x (set xs)"
  by (induction xs) auto

lemma map_of_al_entry:
  "map_of (al_entry k d f xs) x = (if x = k then Some (f (case map_of xs k of None \<Rightarrow> d | Some v \<Rightarrow> v)) else map_of xs x)"
  by (auto simp: al_entry_def map_add_def split: option.splits)

lemma add_entry_ok:
  assumes "pool_ok e mp" "txid = tx_hash e (entry_tx entry)" "map_of (pool mp) txid = None"
    "set (depends_on entry) \<subseteq> dom (map_of (pool mp))"
  shows "pool_ok e (add_entry e txid entry mp)"
proof -
  let ?mp = "add_entry e txid entry mp"
  have child: "set (children_of ?mp p) = set (children_of mp p) \<union> (if p \<in> set (depends_on entry) then {txid} else {})" for p
    by (simp add: children_of_def add_entry_def Let_def children_fold)
  have fee: "map_of (fee_index ?mp) k = (if k = fee_per_byte entry
      then Some (sorted_insert txid (case map_of (fee_index mp) k of None \<Rightarrow> [] | Some ids \<Rightarrow> ids)) else map_of (fee_index mp) k)" for k
    by (simp add: add_entry_def Let_def map_of_al_entry)
  have pool: "map_of (pool ?mp) x = (if x = txid then Some entry else map_of (pool mp) x)" for x
    by (simp add: add_entry_def Let_def)
  have "entry_ok e {} ?mp x en" if "map_of (pool ?mp) x = Some en" for x en
  proof (cases "x = txid")
    case True
    with that have "en = entry" by (simp add: pool)
    with True assms(4) show ?thesis by (auto simp: entry_ok_def child fee pool assms(2) [symmetric])
  next
    case False
    with that assms(1) have "entry_ok e {} mp x en" by (simp add: pool pool_inv_def)
    then show ?thesis using False by (auto simp: entry_ok_def child fee pool)
  qed
  moreover have "al_delete txid (pool mp) = pool mp"
    using assms(3) by (force simp: al_delete_def map_of_eq_None_iff intro: filter_True)
  then have "total_bytes ?mp = of_nat (pool_bytes e (pool ?mp))"
    using assms(1) by (simp add: add_entry_def Let_def pool_inv_def pool_bytes_def al_insert_def)
  ultimately show ?thesis using assms(1) by (simp add: pool_inv_def) (simp add: add_entry_def Let_def)
qed

lemma pool_inv_avg [simp]: "pool_inv e P (raise_avg entry mp) = pool_inv e P mp"
  "pool_inv e P (mp\<lparr>avg_lock := b\<rparr>) = pool_inv e P mp"
  by (simp_all add: pool_inv_def entry_ok_def children_of_def raise_avg_def Let_def)

lemma no_orphans: "pool_ok e mp \<Longrightarrow> remove_orphaned_txs e mp = (mp, Inr ())"
proof -
  assume ok: "pool_ok e mp"
  have "filter (\<lambda>(_, entry). \<exists>dep\<in>set (depends_on entry). map_of (pool mp) dep = None) (pool mp) = []"
    using ok by (fastforce simp: pool_inv_def entry_ok_def filter_empty_conv)
  then show ?thesis by (simp add: remove_orphaned_txs_def)
qed

lemma mempool_insert_eq:
  assumes "pool_ok e mp" "\<not> avg_lock mp"
  shows "mempool_insert e db now mp tx =
    (let txid = tx_hash e tx
     in if map_of (pool mp) txid \<noteq> None then (mp, Inr False)
        else case admit e db now mp tx of
          Inl f \<Rightarrow> (mp, Inl f)
        | Inr entry \<Rightarrow>
            let mp' = raise_avg entry (add_entry e txid entry mp)
            in if over_capacity mp' then (mp', Inl Blocked) else (mp'\<lparr>avg_lock := False\<rparr>, Inr True))"
proof (cases "map_of (pool mp) (tx_hash e tx) \<noteq> None")
  case False
  show ?thesis
  proof (cases "admit e db now mp tx")
    case (Inr entry)
    let ?mp = "raise_avg entry (add_entry e (tx_hash e tx) entry mp)"
    have "pool_ok e ?mp"
      using add_entry_ok [OF assms(1), of "tx_hash e tx" entry] admit_Inr [OF Inr] admit_deps [OF Inr assms(1)] False by simp
    moreover have "evict_loop e ?mp = Some (if over_capacity ?mp then (?mp, Inl Blocked) else (?mp, Inr ()))"
      by (subst evict_loop.simps) (simp add: evict_low_fee_package_def raise_avg_def Let_def)
    ultimately show ?thesis
      using assms(2) False Inr by (auto simp: mempool_insert_def Let_def no_orphans)
  qed (use False in \<open>simp add: mempool_insert_def Let_def\<close>)
qed (simp add: mempool_insert_def Let_def)

lemma mempool_insert_preserves:
  assumes "pool_ok e mp" "\<not> avg_lock mp" "mempool_insert e db now mp tx = (mp', r)" "r \<noteq> Inl Blocked"
  shows "pool_ok e mp' \<and> \<not> avg_lock mp' \<and> (r = Inr True \<or> mp' = mp) \<and>
    (r = Inr True \<longrightarrow> map_of (pool mp') (tx_hash e tx) \<noteq> None \<and> unat (total_bytes mp') \<le> max_size mp' \<and> length (pool mp') \<le> 50000)"
proof (cases "map_of (pool mp) (tx_hash e tx)")
  case None
  show ?thesis
  proof (cases "admit e db now mp tx")
    case (Inr entry)
    let ?mp = "raise_avg entry (add_entry e (tx_hash e tx) entry mp)"
    have ok: "pool_ok e ?mp"
      using add_entry_ok [OF assms(1), of "tx_hash e tx" entry] admit_Inr [OF Inr] admit_deps [OF Inr assms(1)] None by simp
    have mp': "mp' = ?mp\<lparr>avg_lock := False\<rparr>" "r = Inr True" "\<not> over_capacity ?mp"
      using assms(3,4) None Inr by (auto simp: mempool_insert_eq [OF assms(1,2)] Let_def split: if_splits)
    moreover have "map_of (pool ?mp) (tx_hash e tx) = Some entry"
      by (simp add: raise_avg_def add_entry_def Let_def)
    ultimately show ?thesis using ok by (auto simp: over_capacity_def)
  qed (use assms None in \<open>auto simp: mempool_insert_eq Let_def\<close>)
qed (use assms in \<open>auto simp: mempool_insert_eq Let_def\<close>)

text \<open>C6. An insertion that returns keeps the pool consistent: entries are filed under their hash, in the
  fee index and under all their parents, which are in the pool, and the byte count is the sum of the
  sizes.  It changes nothing unless it accepts, and what it accepts is in the pool and within both
  limits.\<close>

theorem insert_preserves_pool:
  assumes "pool_ok e mp" "\<not> avg_lock mp" "mempool_insert e db now mp tx = (mp', r)" "r \<noteq> Inl Blocked"
  shows "pool_ok e mp' \<and> \<not> avg_lock mp' \<and> (r = Inr True \<or> mp' = mp) \<and>
    (r = Inr True \<longrightarrow> map_of (pool mp') (tx_hash e tx) \<noteq> None \<and> unat (total_bytes mp') \<le> max_size mp' \<and> length (pool mp') \<le> 50000)"
  by (rule mempool_insert_preserves [OF assms])

text \<open>An admissible transaction that does not fit never returns: the eviction waits for the lock of
  the average fee, which the insertion still holds.\<close>

theorem full_pool_blocks:
  assumes "pool_ok e mp" "\<not> avg_lock mp" "map_of (pool mp) (tx_hash e tx) = None" "admit e db now mp tx = Inr entry"
    "max_size mp < unat (total_bytes mp + of_nat (tx_size e tx))"
  shows "snd (mempool_insert e db now mp tx) = Inl Blocked"
  using assms admit_Inr [OF assms(4)]
  by (simp add: mempool_insert_eq [OF assms(1,2)] Let_def over_capacity_def raise_avg_def add_entry_def)

section \<open>Selection\<close>

abbreviation txs_bytes :: "'a codec_scheme \<Rightarrow> transaction list \<Rightarrow> nat" where
  "txs_bytes e ts \<equiv> (\<Sum>tx\<leftarrow>ts. tx_size e tx)"

abbreviation pool_txs :: "mempool \<Rightarrow> transaction set" where
  "pool_txs mp \<equiv> entry_tx ` ran (map_of (pool mp))"

lemma gather_package_inv:
  assumes "package_size p = txs_bytes e (package_txs p)" "set (package_txs p) \<subseteq> pool_txs mp"
  shows "package_size (gather_package e mp d stack p) = txs_bytes e (package_txs (gather_package e mp d stack p)) \<and>
    set (package_txs (gather_package e mp d stack p)) \<subseteq> pool_txs mp"
  using assms
proof (induction e mp d stack p rule: gather_package.induct)
  case (1 e mp depth stack p)
  show ?case
  proof (cases "stack = [] \<or> depth + 1 > MAX_PACKAGE_DEPTH")
    case True
    with 1(4,5) show ?thesis by (auto simp: gather_package.simps [of e mp depth])
  next
    case False
    show ?thesis
    proof (cases "last stack \<in> set (visited p)")
      case True
      with False 1(1) [OF False refl refl True] 1(4,5) show ?thesis by (simp add: gather_package.simps [of e mp depth] Let_def)
    next
      case new: False
      show ?thesis
      proof (cases "map_of (pool mp) (last stack)")
        case None
        with False new 1(2) [OF False refl refl new None] 1(4,5) show ?thesis by (simp add: gather_package.simps [of e mp depth] Let_def)
      next
        case (Some entry)
        moreover have "entry_tx entry \<in> pool_txs mp" using Some by (auto simp: ran_def)
        ultimately show ?thesis
          using False new 1(3) [OF False refl refl new Some] 1(4,5) by (simp add: gather_package.simps [of e mp depth] Let_def)
      qed
    qed
  qed
qed

definition selection_ok :: "'a codec_scheme \<Rightarrow> mempool \<Rightarrow> nat \<Rightarrow> selection \<Rightarrow> bool" where
  "selection_ok e mp limit s \<longleftrightarrow>
     sel_size s = txs_bytes e (selected s) \<and> sel_size s \<le> limit \<and> set (selected s) \<subseteq> pool_txs mp"

lemma select_step_ok:
  assumes "selection_ok e mp limit s"
  shows "selection_ok e mp limit (select_step e mp limit txid s)"
proof (cases "txid \<in> set (included s) \<or> txid \<in> set (visited_packages s)")
  case True
  with assms show ?thesis by (auto simp: select_step_def)
next
  case False
  show ?thesis
  proof (cases "map_of (pool mp) txid")
    case (Some entry)
    let ?p = "gather_package e mp 0 (depends_on entry)
      \<lparr>package_txs = [entry_tx entry], package_size = tx_size e (entry_tx entry), to_include = [txid], visited = []\<rparr>"
    have "entry_tx entry \<in> pool_txs mp" using Some by (auto simp: ran_def)
    then have "package_size ?p = txs_bytes e (package_txs ?p) \<and> set (package_txs ?p) \<subseteq> pool_txs mp"
      by (intro gather_package_inv) simp_all
    with assms False Some show ?thesis by (auto simp: select_step_def selection_ok_def Let_def)
  qed (use assms False in \<open>simp add: select_step_def\<close>)
qed

lemma fold_inv: "I s \<Longrightarrow> (\<And>x s. I s \<Longrightarrow> I (f x s)) \<Longrightarrow> I (fold f xs s)"
  by (induction xs arbitrary: s) auto

text \<open>The transactions selected for a block are transactions of the pool and together no larger than
  the limit.\<close>

theorem select_within_limit:
  "txs_bytes e (select_txs e mp limit) \<le> limit \<and> set (select_txs e mp limit) \<subseteq> pool_txs mp"
proof -
  have "selection_ok e mp limit (select_rate e mp limit r s)" if "selection_ok e mp limit s" for r s
    using that by (auto simp: select_rate_def intro!: fold_inv [of "selection_ok e mp limit"] select_step_ok split: option.split)
  then have "selection_ok e mp limit (fold (select_rate e mp limit) (rev (sort (map fst (fee_index mp))))
      \<lparr>selected = [], sel_size = 0, included = [], visited_packages = []\<rparr>)"
    by (intro fold_inv [of "selection_ok e mp limit"]) (simp add: selection_ok_def)
  then show ?thesis by (simp add: select_txs_def selection_ok_def)
qed

text \<open>Two transactions with a common unconfirmed parent are both selected with it, so the selection
  contains the parent twice.\<close>

theorem select_repeats_parent:
  assumes "fee_index mp = [(r1, [c1]), (r2, [c2]), (r3, [p])]" "r3 < r2" "r2 < r1" "distinct [c1, c2, p]"
    and "map_of (pool mp) c1 = Some e1" "map_of (pool mp) c2 = Some e2" "map_of (pool mp) p = Some ep"
    and "depends_on e1 = [p]" "depends_on e2 = [p]" "depends_on ep = []"
    and "0 < tx_size e (entry_tx e2)" "txs_bytes e (map entry_tx [ep, e1, ep, e2]) \<le> min limit MAX_PACKAGE_SIZE"
  shows "select_txs e mp limit = map entry_tx [ep, e1, ep, e2]"
proof -
  have "\<not> r1 \<le> r2" "\<not> r2 \<le> r3" "\<not> r1 \<le> r3" using assms(2,3) by auto
  then have order: "rev (sort (map fst (fee_index mp))) = [r1, r2, r3]"
    using assms(1) by simp
  have gather: "gather_package e mp 0 [p] \<lparr>package_txs = [t], package_size = n, to_include = [c], visited = []\<rparr> =
    \<lparr>package_txs = [entry_tx ep, t], package_size = n + tx_size e (entry_tx ep), to_include = [c, p], visited = [p]\<rparr>" for t n c
    using assms(7,10) by (simp add: gather_package.simps [of e mp 0] gather_package.simps [of e mp "Suc 0" "[]"] MAX_PACKAGE_DEPTH_def Let_def)
  have ne: "r2 \<noteq> r1" "r3 \<noteq> r2" "r3 \<noteq> r1" "c2 \<noteq> c1" using assms(2-4) by auto
  have fits: "tx_size e (entry_tx e2) + tx_size e (entry_tx ep) \<le> limit - (tx_size e (entry_tx e1) + tx_size e (entry_tx ep))"
    using assms(12) by simp linarith
  show ?thesis
    using assms(4-9,11,12) fits by (simp add: select_txs_def order ne) (simp add: select_rate_def assms(1) select_step_def gather Let_def ne)
qed


section \<open>Data for the witnesses\<close>

text \<open>A pool with one transaction, and the transaction \<open>demo_spend\<close>, which it admits.\<close>

definition demo_entry :: mempool_entry where
  "demo_entry = \<lparr>entry_tx = demo_tx, fee_per_byte = 20, entry_time = 1, depends_on = [], entry_fee = 2000\<rparr>"

definition demo_pool :: mempool where
  "demo_pool = add_entry demo_env (tx_hash demo_env demo_tx) demo_entry (mempool_new 1000)"

lemma demo_pool_ok: "pool_ok demo_env demo_pool"
  unfolding demo_pool_def
  by (rule add_entry_ok) (simp_all add: demo_entry_def mempool_new_def pool_inv_def pool_bytes_def)

lemma demo_pool_fields: "pool demo_pool = [(tx_hash demo_env demo_tx, demo_entry)]" "\<not> avg_lock demo_pool"
  "children_of demo_pool x = []"
  by (simp_all add: demo_pool_def add_entry_def mempool_new_def al_insert_def al_delete_def Let_def children_of_def demo_entry_def)

theorem remove_last_panics_witness:
  "snd (mempool_remove demo_env (tx_hash demo_env demo_tx) demo_pool) = Inl Panic"
  by (rule remove_last_panics [OF demo_pool_fields(1,2)])

lemma demo_admits:
  "\<exists>entry. admit demo_env demo_db (Some 7) (mempool_new limit) demo_spend = Inr entry \<and> depends_on entry = []"
proof -
  have cf: "cf_handle demo_db ''utxo'' = Some ''utxo''" "cf_handle demo_db ''anonymous'' = Some ''anonymous''"
    by (simp_all add: demo_db_def cf_handle_def)
  have "pool (mempool_new limit) = []" by (simp add: mempool_new_def)
  then show ?thesis
    by (simp add: admit_def Let_def demo_spend_size cf collect_deps.simps MAX_PACKAGE_DEPTH_def resolve_input_def
        demo_db_get demo_coin_decode utxo_cf_def checked_add_def checked_sub_def)
qed

lemma demo_hash_mod: "nat_of_be (tx_hash demo_env tx) mod 256 ^ 5 = (nat_of_be (ser_tx demo_env tx) + 2) mod 256 ^ 5"
proof -
  have sha: "sha256 demo_env d = be_bytes 32 (nat_of_be d + 1)" for d
    by (simp add: demo_env_def demo_crypto_def)
  define M :: nat where "M = 256 ^ 32"
  have dvd: "256 ^ 5 dvd M" unfolding M_def by (rule le_imp_power_dvd) simp
  have "nat_of_be (tx_hash demo_env tx) = ((nat_of_be (ser_tx demo_env tx) + 1) mod M + 1) mod M"
    by (simp only: tx_hash_def sha256d_def sha nat_of_be_bytes M_def)
  then have "nat_of_be (tx_hash demo_env tx) mod 256 ^ 5 = ((nat_of_be (ser_tx demo_env tx) + 1) mod M + 1) mod 256 ^ 5"
    by (simp only: mod_mod_cancel [OF dvd])
  also have "\<dots> = ((nat_of_be (ser_tx demo_env tx) + 1) mod M mod 256 ^ 5 + 1) mod 256 ^ 5"
    by (rule mod_add_left_eq [symmetric])
  also have "\<dots> = (nat_of_be (ser_tx demo_env tx) + 2) mod 256 ^ 5"
    by (simp only: mod_mod_cancel [OF dvd] mod_add_left_eq) simp
  finally show ?thesis .
qed

lemma demo_hashes_differ: "tx_hash demo_env demo_spend \<noteq> tx_hash demo_env demo_tx"
proof -
  define xs where "xs = u32_le (tx_version demo_tx) @ u32_le 0 @ put_list put_input (inputs demo_tx) @ put_list put_output (outputs demo_tx)"
  have le: "u32_le 0 = [0, 0, 0, 0]" "u32_le 4 = [4, 0, 0, 0]" by code_simp+
  have xs: "ser_tx demo_env demo_tx = xs @ [0, 0, 0, 0, 0]" "ser_tx demo_env demo_spend = xs @ [4, 0, 0, 0, 0]"
    by (simp_all add: xs_def demo_env_def put_tx_def demo_spend_def demo_tx_def le)
  have "nat_of_be (xs @ [b, 0, 0, 0, 0]) = nat_of_be xs * 256 ^ 5 + unat b * 256 ^ 4" for b
    using nat_of_be_append [of "xs @ [b, 0, 0, 0]" 0] nat_of_be_append [of "xs @ [b, 0, 0]" 0]
      nat_of_be_append [of "xs @ [b, 0]" 0] nat_of_be_append [of "xs @ [b]" 0] nat_of_be_append [of xs b]
    by simp
  then have num: "nat_of_be (xs @ [b, 0, 0, 0, 0]) + 2 = nat_of_be xs * 256 ^ 5 + (unat b * 256 ^ 4 + 2)" for b
    by (simp only: add.assoc)
  have "nat_of_be (tx_hash demo_env demo_tx) mod 256 ^ 5 \<noteq> nat_of_be (tx_hash demo_env demo_spend) mod 256 ^ 5"
    unfolding demo_hash_mod xs num mod_mult_self3 by simp
  then show ?thesis by metis
qed


text \<open>A second transaction in the pool; removing the first leaves it.\<close>

definition demo_entry2 :: mempool_entry where
  "demo_entry2 = \<lparr>entry_tx = demo_spend, fee_per_byte = 20, entry_time = 1, depends_on = [], entry_fee = 2000\<rparr>"

definition demo_pool2 :: mempool where
  "demo_pool2 = add_entry demo_env (tx_hash demo_env demo_spend) demo_entry2 demo_pool"

lemma demo_pool2_ok: "pool_ok demo_env demo_pool2"
  unfolding demo_pool2_def
  by (rule add_entry_ok [OF demo_pool_ok]) (simp_all add: demo_entry2_def demo_pool_fields demo_hashes_differ)

lemma demo_pool2_fields:
  "pool demo_pool2 = [(tx_hash demo_env demo_tx, demo_entry), (tx_hash demo_env demo_spend, demo_entry2)]"
  "\<not> avg_lock demo_pool2" "children_of demo_pool2 x = []"
  using demo_hashes_differ demo_pool_fields
  by (auto simp: demo_pool2_def add_entry_def al_insert_def al_delete_def Let_def children_of_def demo_entry2_def)

lemma demo_removed: "\<exists>mp'. mempool_remove demo_env (tx_hash demo_env demo_tx) demo_pool2 = (mp', Inr ())"
  using demo_hashes_differ demo_pool2_fields(3) [unfolded children_of_def]
  by (simp add: mempool_remove_def demo_pool2_fields remove_entry_def finish_remove_def Let_def al_delete_def)

theorem remove_removes_package_witness:
  "\<exists>mp'. mempool_remove demo_env (tx_hash demo_env demo_tx) demo_pool2 = (mp', Inr ()) \<and> pool_ok demo_env mp' \<and>
     map_of (pool mp') (tx_hash demo_env demo_tx) = None"
  using demo_removed remove_removes_package [OF demo_pool2_ok] by blast

theorem admitted_fee_exact_witness:
  "\<exists>entry. admit demo_env demo_db (Some 7) (mempool_new 1000) demo_spend = Inr entry \<and> unat (entry_fee entry) = 8900"
proof -
  obtain entry where entry: "admit demo_env demo_db (Some 7) (mempool_new 1000) demo_spend = Inr entry"
    using demo_admits by blast
  have "confirmed_value demo_env demo_db demo_spend = 9000"
    by (simp add: confirmed_value_def unspent_def demo_db_get demo_coin_decode)
  moreover have "out_sum demo_spend = 100" by (simp add: out_sum_def)
  ultimately show ?thesis using admitted_fee_exact [OF entry] entry by auto
qed

lemma new_pool_ok: "pool_ok e (mempool_new limit)" "\<not> avg_lock (mempool_new limit)" "pool (mempool_new limit) = []"
  by (simp_all add: pool_inv_def mempool_new_def pool_bytes_def)

lemma demo_inserted:
  "\<exists>mp'. mempool_insert demo_env demo_db (Some 7) (mempool_new 1000) demo_spend = (mp', Inr True) \<and> max_size mp' = 1000"
proof -
  obtain entry where entry: "admit demo_env demo_db (Some 7) (mempool_new 1000) demo_spend = Inr entry"
    using demo_admits by blast
  have "tx_size demo_env (entry_tx entry) = 103" using admit_Inr [OF entry] by (simp add: demo_spend_size)
  then show ?thesis
    using entry by (simp add: mempool_insert_eq [OF new_pool_ok(1,2)] new_pool_ok Let_def over_capacity_def)
      (simp add: raise_avg_def add_entry_def mempool_new_def Let_def al_insert_def al_delete_def)
qed

theorem insert_preserves_pool_witness:
  "\<exists>mp'. mempool_insert demo_env demo_db (Some 7) (mempool_new 1000) demo_spend = (mp', Inr True) \<and> pool_ok demo_env mp' \<and>
     unat (total_bytes mp') \<le> 1000"
  using demo_inserted insert_preserves_pool [OF new_pool_ok(1,2)] by fastforce

theorem full_pool_blocks_witness:
  "\<exists>entry. admit demo_env demo_db (Some 7) (mempool_new 50) demo_spend = Inr entry \<and>
     snd (mempool_insert demo_env demo_db (Some 7) (mempool_new 50) demo_spend) = Inl Blocked"
proof -
  obtain entry where entry: "admit demo_env demo_db (Some 7) (mempool_new 50) demo_spend = Inr entry"
    using demo_admits by blast
  have "max_size (mempool_new 50) < unat (total_bytes (mempool_new 50) + of_nat (tx_size demo_env demo_spend))"
    by (simp add: mempool_new_def demo_spend_size)
  with full_pool_blocks [OF new_pool_ok(1,2) _ entry] entry show ?thesis by (simp add: new_pool_ok)
qed

definition family_pool :: mempool where
  "family_pool =
     (let parent = demo_entry; child = demo_entry\<lparr>depends_on := [[3]]\<rparr>
      in (mempool_new 1000)\<lparr>pool := [([1], child), ([2], child), ([3], parent)], fee_index := [(30, [[1]]), (20, [[2]]), (10, [[3]])]\<rparr>)"

lemma demo_tx_size: "tx_size demo_env demo_tx = 103"
  by (simp add: tx_size_def demo_env_def demo_tx_def put_tx_def put_list_Cons put_output_def put_input_def)

theorem select_repeats_parent_witness: "select_txs demo_env family_pool 1000 = [demo_tx, demo_tx, demo_tx, demo_tx]"
  using select_repeats_parent [of family_pool 30 "[1]" 20 "[2]" 10 "[3]" "demo_entry\<lparr>depends_on := [[3]]\<rparr>"
      "demo_entry\<lparr>depends_on := [[3]]\<rparr>" demo_entry demo_env 1000]
  by (simp add: family_pool_def Let_def demo_entry_def demo_tx_size MAX_PACKAGE_SIZE_def)

end
