(* ===== verification/Chain.thy ===== *)
theory Chain
  imports Chain_Db Mempool
begin

text \<open>
  The chain object of \<^verbatim>\<open>chain.rs\<close>: the reorganisation journal, \<^verbatim>\<open>apply_block_action\<close>,
  \<^verbatim>\<open>prune\<close>, \<^verbatim>\<open>build_block_ops\<close>, \<^verbatim>\<open>add_block\<close>,
  \<^verbatim>\<open>process_orphans\<close>, \<^verbatim>\<open>new\<close> and \<^verbatim>\<open>load_from_db\<close>.  An operation maps the chain to
  the chain it leaves, on every path, and its result.  \<open>state_lock\<close> says that the mutex is held: the
  mutex is not reentrant, so taking it while it is held never returns.  \<open>mempool_lock\<close> says the same of the
  write lock of the pool, which the chain shares with the network and the miner.  The caches of targets and of work
  memoise pure functions and are left out.
\<close>

section \<open>State\<close>

record chain_state =
  blocks :: "usize \<rightharpoonup> block"
  height_to_hash :: "usize \<rightharpoonup> hash256"
  hash_to_height :: "hash256 \<rightharpoonup> usize"
  cumulative_work :: "usize \<rightharpoonup> nat"
  timestamps :: "u32 list"
  utxo_set_hash :: hash256
  total_supply :: u64

record chain =
  chain_db :: rocksdb
  state :: chain_state
  best_tip :: hash256
  best_height :: usize
  orphan_blocks :: "(hash256 \<times> block \<times> nat) list"
  genesis_hash :: hash256
  batch_pending :: bool
  read_only_mode :: bool
  state_lock :: bool
  checkpoint_hashes :: "usize \<rightharpoonup> hash256"
  chain_mempool :: mempool
  mempool_lock :: bool

record reorg_journal =
  journal_id :: string
  old_tip_height :: usize
  old_tip_hash :: hash256
  disconnect_depth :: usize
  new_block :: block

text \<open>
  What the chain takes from outside: the function \<^verbatim>\<open>load_supply_from_db\<close> and the free function
  \<^verbatim>\<open>build_block_ops\<close>, which the sources call and do not define, and the encoding of the journal.
\<close>

record externals =
  load_supply_from_db :: "rocksdb \<Rightarrow> u64 result"
  free_block_ops :: "rocksdb \<Rightarrow> block \<Rightarrow> usize \<Rightarrow> action \<Rightarrow> write_batch \<Rightarrow> write_batch result"
  ser_journal :: "reorg_journal \<Rightarrow> bytes"
  de_journal :: "bytes \<Rightarrow> reorg_journal option"

text \<open>
  What one call meets: the two clocks, whether the write of a block succeeds, whether a failed write has
  changed the database all the same, and whether each of the three attempts to roll back succeeds.
\<close>

record world =
  clock_ms :: "nat option"
  instant :: nat
  write_ok :: bool
  write_landed :: bool
  rollback_ok :: "bool list"

definition empty_state :: chain_state where
  "empty_state =
     \<lparr>blocks = Map.empty, height_to_hash = Map.empty, hash_to_height = Map.empty, cumulative_work = Map.empty,
      timestamps = [], utxo_set_hash = zero_hash, total_supply = 0\<rparr>"

section \<open>The reorganisation journal\<close>

fun decimal :: "nat \<Rightarrow> string" where
  "decimal n = (if n < 10 then [char_of (48 + n)] else decimal (n div 10) @ [char_of (48 + n mod 10)])"

declare decimal.simps [simp del]

definition journal_prefix :: bytes where
  "journal_prefix = ascii ''reorg:pending:''"

definition journal_key :: "string \<Rightarrow> dbkey" where
  "journal_key jid = (default_cf, journal_prefix @ ascii jid)"

definition start_reorg_journal :: "externals \<Rightarrow> rocksdb \<Rightarrow> string \<Rightarrow> reorg_journal \<Rightarrow> rocksdb" where
  "start_reorg_journal n conn jid journal = db_put (journal_key jid) (ser_journal n journal) conn"

definition commit_reorg_batch :: "rocksdb \<Rightarrow> write_batch \<Rightarrow> string \<Rightarrow> rocksdb" where
  "commit_reorg_batch conn ops jid = db_del (journal_key jid) (db_write ops conn)"

definition load_block_by_height :: "'a codec_scheme \<Rightarrow> rocksdb \<Rightarrow> usize \<Rightarrow> block result" where
  "load_block_by_height e conn height =
     rbind (or_err (db_get conn (height_key height)) (Anyhow ''Missing hash'')) (\<lambda>hash_bytes.
     rbind (or_err (db_get conn (block_key hash_bytes)) (Anyhow ''Missing block'')) (\<lambda>block_bytes.
     or_err (de_block e block_bytes) (Anyhow ''Deserialize block failed'')))"

fun disconnect_from :: "'a codec_scheme \<Rightarrow> externals \<Rightarrow> rocksdb \<Rightarrow> nat \<Rightarrow> usize \<Rightarrow> write_batch \<Rightarrow> (usize \<times> write_batch) result" where
  "disconnect_from e n conn 0 h ops = Inr (h, ops)"
| "disconnect_from e n conn (Suc k) h ops =
     rbind (load_block_by_height e conn h) (\<lambda>blk.
     rbind (free_block_ops n conn blk h Disconnect ops) (\<lambda>ops.
     disconnect_from e n conn k (h - 1) ops))"

definition recover_journal :: "'a codec_scheme \<Rightarrow> externals \<Rightarrow> rocksdb \<Rightarrow> bytes \<times> bytes \<Rightarrow> rocksdb result" where
  "recover_journal e n conn = (\<lambda>(k, v).
     rbind (or_err (de_journal n v) Bincode) (\<lambda>journal.
     rbind (load_current_height conn) (\<lambda>current_height.
     rbind (load_current_tip conn) (\<lambda>current_tip.
     if current_height = old_tip_height journal \<and> current_tip = old_tip_hash journal
     then
       rbind (disconnect_from e n conn (unat (disconnect_depth journal)) current_height []) (\<lambda>(h, ops).
       rbind (free_block_ops n conn (new_block journal) (h + 1) Connect ops) (\<lambda>ops.
       Inr (db_del (default_cf, k) (db_write ops conn))))
     else Inr (db_del (default_cf, k) conn)))))"

fun recover_all :: "'a codec_scheme \<Rightarrow> externals \<Rightarrow> table \<Rightarrow> rocksdb \<Rightarrow> rocksdb \<times> unit result" where
  "recover_all e n [] conn = (conn, Inr ())"
| "recover_all e n (entry # entries) conn =
     (case recover_journal e n conn entry of
        Inl f \<Rightarrow> (conn, Inl f)
      | Inr conn \<Rightarrow> recover_all e n entries conn)"

definition recover_pending_reorgs :: "'a codec_scheme \<Rightarrow> externals \<Rightarrow> rocksdb \<Rightarrow> rocksdb \<times> unit result" where
  "recover_pending_reorgs e n conn =
     recover_all e n (prefix_scan (tables conn default_cf) journal_prefix) conn"

section \<open>Writes for a block\<close>

definition block_cfs :: "rocksdb \<Rightarrow> unit result" where
  "block_cfs conn =
     rbind (or_err (cf_handle conn ''utxo'') (Anyhow ''UTXO CF missing'')) (\<lambda>_.
     rbind (or_err (cf_handle conn ''anonymous'') (Anyhow ''Anonymous CF missing'')) (\<lambda>_.
     rbind (or_err (cf_handle conn ''key_images'') (Anyhow ''Key images CF missing'')) (\<lambda>_.
     rbind (or_err (cf_handle conn ''coinbase'') (Anyhow ''Coinbase CF missing'')) (\<lambda>_.
     rbind (or_err (cf_handle conn ''addr_index'') (Anyhow ''ADDR INDEX CF missing'')) (\<lambda>_.
     rbind (or_err (cf_handle conn ''tx_index'') (Anyhow ''TX INDEX CF missing'')) (\<lambda>_.
     Inr ()))))))"

definition index_ops :: "'a codec_scheme \<Rightarrow> block \<Rightarrow> usize \<Rightarrow> action \<Rightarrow> write_batch" where
  "index_ops e blk height action =
     (case action of
        Connect \<Rightarrow>
          Put (hdr_key height) (ser_header e (header blk)) #
          map (\<lambda>(idx, tx). Put (''tx_index'', tx_hash e tx) (ser_index e (height, of_nat idx))) (enumerate 0 (txs blk))
      | Disconnect \<Rightarrow> map (\<lambda>tx. Delete (''tx_index'', tx_hash e tx)) (txs blk))"

definition build_block_ops ::
  "('p, 'a) env_scheme \<Rightarrow> rocksdb \<Rightarrow> chain_state \<Rightarrow> block \<Rightarrow> usize \<Rightarrow> action \<Rightarrow> write_batch \<Rightarrow> write_batch result" where
  "build_block_ops e conn st blk height action ops =
     rbind (block_cfs conn) (\<lambda>_.
     rbind (header_hash e (header blk)) (\<lambda>_.
     rbind (apply_utxo_changes e conn (utxo_set_hash st) (total_supply st) blk height action ops) (\<lambda>acc.
     Inr (batch acc @ index_ops e blk height action @
       [Put DB_KEY_UTXO_SET_HASH (current_set_hash acc), Put DB_KEY_TOTAL_SUPPLY (u64_be (current_supply acc))]))))"

record state_changes =
  change_hash :: hash256
  change_ops :: write_batch
  change_undo :: "(dbkey \<times> bytes option) list"
  change_set_hash :: hash256
  change_supply :: u64

definition block_changes ::
  "('p, 'a) env_scheme \<Rightarrow> externals \<Rightarrow> rocksdb \<Rightarrow> chain_state \<Rightarrow> block \<Rightarrow> usize \<Rightarrow> action \<Rightarrow> write_batch \<Rightarrow> state_changes result" where
  "block_changes e n conn st blk height action ops =
     rbind (block_cfs conn) (\<lambda>_.
     rbind (header_hash e (header blk)) (\<lambda>hash.
     rbind (apply_utxo_changes e conn (utxo_set_hash st) (total_supply st) blk height action ops) (\<lambda>acc.
     rbind (load_supply_from_db n conn) (\<lambda>supply.
     let new_supply = (case action of Connect \<Rightarrow> supply + subsidy height | Disconnect \<Rightarrow> supply - subsidy height)
     in Inr \<lparr>change_hash = hash,
             change_ops = batch acc @ index_ops e blk height action @ [Put DB_KEY_STATE_TOTAL_SUPPLY (u64_le new_supply)],
             change_undo = rollback_ops acc, change_set_hash = current_set_hash acc, change_supply = new_supply\<rparr>))))"

definition push_timestamp :: "u32 \<Rightarrow> u32 list \<Rightarrow> u32 list" where
  "push_timestamp ts stamps = (let stamps = stamps @ [ts] in if length stamps > 11 then tl stamps else stamps)"

definition commit_changes :: "block \<Rightarrow> usize \<Rightarrow> action \<Rightarrow> nat \<Rightarrow> state_changes \<Rightarrow> chain_state \<Rightarrow> chain_state" where
  "commit_changes blk height action work ch st =
     (let total_work = (case cumulative_work st (height - 1) of Some prev_work \<Rightarrow> prev_work + work | None \<Rightarrow> work)
      in \<lparr>blocks = (blocks st)(height \<mapsto> blk), height_to_hash = (height_to_hash st)(height \<mapsto> change_hash ch),
          hash_to_height = (hash_to_height st)(change_hash ch \<mapsto> height),
          cumulative_work = (cumulative_work st)(height \<mapsto> total_work),
          timestamps = (case action of Connect \<Rightarrow> push_timestamp (timestamp (header blk)) (timestamps st)
                        | Disconnect \<Rightarrow> butlast (timestamps st)),
          utxo_set_hash = change_set_hash ch, total_supply = change_supply ch\<rparr>)"

section \<open>Locking\<close>

definition with_lock :: "(chain \<Rightarrow> chain \<times> 'r result) \<Rightarrow> chain \<Rightarrow> chain \<times> 'r result" where
  "with_lock body c =
     (if state_lock c then (c, Inl Blocked)
      else case body (c\<lparr>state_lock := True\<rparr>) of
        (c', Inl Blocked) \<Rightarrow> (c', Inl Blocked)
      | (c', r) \<Rightarrow> (c'\<lparr>state_lock := False\<rparr>, r))"

section \<open>Applying a block\<close>

definition addr_ops :: "'a codec_scheme \<Rightarrow> transaction \<Rightarrow> write_batch" where
  "addr_ops e tx =
     (if is_anonymous tx then []
      else map (\<lambda>(i, out). Delete (''addr_index'', addr_key e (script_pubkey out) (tx_hash e tx) (of_nat i)))
             (enumerate 0 (outputs tx)))"

definition prune :: "'a codec_scheme \<Rightarrow> usize \<Rightarrow> write_batch \<Rightarrow> chain \<Rightarrow> chain \<times> write_batch result" where
  "prune e height ops = with_lock (\<lambda>c.
     case blocks (state c) height of
       None \<Rightarrow> (c, Inr ops)
     | Some blk \<Rightarrow>
         (c\<lparr>state := (state c)\<lparr>blocks := (blocks (state c))(height := None)\<rparr>\<rparr>,
          rbind (header_hash e (header blk)) (\<lambda>hash.
          Inr (ops @ Delete (block_key hash) # concat (map (addr_ops e) (txs blk))))))"

definition failed_write :: "world \<Rightarrow> state_changes \<Rightarrow> chain \<Rightarrow> chain" where
  "failed_write w ch c =
     (let conn = (if write_landed w then db_write (change_ops ch) (chain_db c) else chain_db c)
      in if True \<in> set (take 3 (rollback_ok w))
         then c\<lparr>chain_db := db_write (rollback_batch (change_undo ch)) conn\<rparr>
         else c\<lparr>chain_db := conn, read_only_mode := True\<rparr>)"

definition apply_locked ::
  "('p, 'a) env_scheme \<Rightarrow> externals \<Rightarrow> world \<Rightarrow> block \<Rightarrow> usize \<Rightarrow> action \<Rightarrow> bool \<Rightarrow> nat \<Rightarrow> write_batch \<Rightarrow> chain \<Rightarrow> chain \<times> unit result" where
  "apply_locked e n w blk height action is_best work ops c =
     (if batch_pending c then (c, bail (Anyhow ''Batch pending, cannot apply action''))
      else if read_only_mode c \<and> action = Connect
      then (c, bail (Anyhow ''Chain in read-only mode due to previous failure''))
      else
        let c = c\<lparr>batch_pending := True\<rparr>
        in case block_changes e n (chain_db c) (state c) blk height action ops of
             Inl f \<Rightarrow> (c, Inl f)
           | Inr ch \<Rightarrow>
               if \<not> write_ok w then (failed_write w ch c, bail (Anyhow ''Write error''))
               else
                 let c = c\<lparr>chain_db := db_write (change_ops ch) (chain_db c),
                           state := commit_changes blk height action work ch (state c)\<rparr>;
                     best = (action = Connect \<and> is_best);
                     c = (if best then c\<lparr>best_tip := change_hash ch, best_height := height\<rparr> else c)
                 in if best \<and> height > PRUNE_DEPTH
                    then sbind (prune e (height - PRUNE_DEPTH) (change_ops ch) c) (\<lambda>_ c. (c\<lparr>batch_pending := False\<rparr>, Inr ()))
                    else (c\<lparr>batch_pending := False\<rparr>, Inr ()))"

definition apply_block_action ::
  "('p, 'a) env_scheme \<Rightarrow> externals \<Rightarrow> world \<Rightarrow> block \<Rightarrow> usize \<Rightarrow> action \<Rightarrow> bool \<Rightarrow> nat \<Rightarrow> write_batch \<Rightarrow> chain \<Rightarrow> chain \<times> unit result" where
  "apply_block_action e n w blk height action is_best work ops =
     with_lock (apply_locked e n w blk height action is_best work ops)"

section \<open>Orphans\<close>

fun oldest :: "hash256 \<times> block \<times> nat \<Rightarrow> (hash256 \<times> block \<times> nat) list \<Rightarrow> hash256 \<times> block \<times> nat" where
  "oldest x [] = x"
| "oldest x (y # ys) = oldest (if snd (snd y) < snd (snd x) then y else x) ys"

definition trim_orphans :: "(hash256 \<times> block \<times> nat) list \<Rightarrow> (hash256 \<times> block \<times> nat) list" where
  "trim_orphans orphans =
     (case orphans of
        x # xs \<Rightarrow> if length orphans > 500 then al_delete (fst (oldest x xs)) orphans else orphans
      | [] \<Rightarrow> [])"

fun try_orphans ::
  "(block \<Rightarrow> chain \<Rightarrow> chain \<times> bool result) \<Rightarrow> (hash256 \<times> block) list \<Rightarrow> bool \<Rightarrow> (hash256 \<times> block) list \<Rightarrow> chain \<Rightarrow>
     chain \<times> (bool \<times> (hash256 \<times> block) list) result" where
  "try_orphans add [] added next_round c = (c, Inr (added, next_round))"
| "try_orphans add ((hash, blk) # to_process) added next_round c =
     sbind (add blk c) (\<lambda>new c.
       if new then try_orphans add to_process True next_round c
       else try_orphans add to_process added (next_round @ [(hash, blk)]) c)"

function orphan_rounds ::
  "(block \<Rightarrow> chain \<Rightarrow> chain \<times> bool result) \<Rightarrow> nat \<Rightarrow> (hash256 \<times> block) list \<Rightarrow> chain \<Rightarrow>
     chain \<times> (hash256 \<times> block) list result" where
  "orphan_rounds add depth to_process c =
     (if to_process = [] \<or> depth \<ge> 500 then (c, Inr to_process)
      else sbind (try_orphans add to_process False [] c) (\<lambda>(added, next_round) c.
        if added then orphan_rounds add (depth + 1) next_round c else (c, Inr to_process)))"
  by pat_completeness auto
termination
  by (relation "measure (\<lambda>(add, depth, to_process, c). 500 - depth)") auto

declare orphan_rounds.simps [simp del]

definition process_orphans_with ::
  "(block \<Rightarrow> chain \<Rightarrow> chain \<times> bool result) \<Rightarrow> world \<Rightarrow> chain \<Rightarrow> chain \<times> unit result" where
  "process_orphans_with add w c =
     (let orphans = trim_orphans (filter (\<lambda>(_, _, time). instant w - time < ORPHAN_TTL) (orphan_blocks c))
      in sbind (orphan_rounds add 0 (map (\<lambda>(h, b, _). (h, b)) orphans) (c\<lparr>orphan_blocks := []\<rparr>)) (\<lambda>to_process c.
         (c\<lparr>orphan_blocks := fold (\<lambda>(h, b). al_insert h (b, instant w)) to_process (orphan_blocks c)\<rparr>, Inr ())))"

section \<open>Adding a block\<close>

definition block_work :: "nat \<Rightarrow> nat" where
  "block_work target = TWO_POW_256 div (target + 1)"

definition disconnect_ops ::
  "('p, 'a) env_scheme \<Rightarrow> rocksdb \<Rightarrow> chain_state \<Rightarrow> usize \<Rightarrow> usize \<Rightarrow> write_batch result" where
  "disconnect_ops e conn st best prev_height =
     try_fold (\<lambda>ops current_h.
         rbind (load_block_from_db e conn current_h) (\<lambda>blk.
         build_block_ops e conn st blk current_h Disconnect ops))
       [] (map of_nat (rev [Suc (unat prev_height)..<Suc (unat best)]))"

definition reorganise ::
  "('p, 'a) env_scheme \<Rightarrow> externals \<Rightarrow> world \<Rightarrow> block \<Rightarrow> usize \<Rightarrow> nat \<Rightarrow> nat \<Rightarrow> chain \<Rightarrow> chain \<times> bool result" where
  "reorganise e n w blk prev_height new_work current_work c =
     (if saturating_sub (best_height c) prev_height > REORG_MAX_DEPTH then (c, bail ReorgTooDeep)
      else if new_work \<le> current_work * 99 div 100 then (c, bail ReorgTooDeep)
      else case clock_ms w of
        None \<Rightarrow> (c, bail InvalidTimestamp)
      | Some now \<Rightarrow>
          let jid = decimal now;
              journal = \<lparr>journal_id = jid, old_tip_height = best_height c, old_tip_hash = best_tip c,
                         disconnect_depth = best_height c - prev_height, new_block = blk\<rparr>;
              c = c\<lparr>chain_db := start_reorg_journal n (chain_db c) jid journal\<rparr>
          in case rbind (disconnect_ops e (chain_db c) (state c) (best_height c) prev_height) (\<lambda>ops.
                    build_block_ops e (chain_db c) (state c) blk (prev_height + 1) Connect ops) of
               Inl f \<Rightarrow> (c, Inl f)
             | Inr ops \<Rightarrow>
                 (c\<lparr>chain_db := commit_reorg_batch (chain_db c) ops jid, best_height := prev_height + 1\<rparr>, Inr True))"

definition attach_block ::
  "('p::ab_group_add, 'a) env_scheme \<Rightarrow> externals \<Rightarrow> world \<Rightarrow> block \<Rightarrow> usize \<Rightarrow> chain \<Rightarrow> chain \<times> bool result" where
  "attach_block e n w blk prev_height c =
     (let height = prev_height + 1
      in case rbind (validate_block e (chain_db c) (best_height c) (checkpoint_hashes c) (clock_ms w) blk height) (\<lambda>_.
                compact_to_target (hdr_bits (header blk))) of
           Inl f \<Rightarrow> (c, Inl f)
         | Inr target \<Rightarrow>
             let work_at = (\<lambda>h. case cumulative_work (state c) h of Some work \<Rightarrow> work | None \<Rightarrow> 0);
                 new_work = work_at prev_height + block_work target;
                 current_work = work_at (best_height c)
             in if new_work > current_work then reorganise e n w blk prev_height new_work current_work c
                else sbind (apply_block_action e n w blk height Connect False (block_work target) [] c) (\<lambda>_ c. (c, Inr False)))"

definition forget_txs :: "'a codec_scheme \<Rightarrow> block \<Rightarrow> chain \<Rightarrow> chain \<times> unit result" where
  "forget_txs e blk c =
     (if mempool_lock c then (c, Inl Blocked)
      else case remove_all e (map (tx_hash e) (txs blk)) (chain_mempool c) of (mp, r) \<Rightarrow> (c\<lparr>chain_mempool := mp\<rparr>, r))"

definition finish_block ::
  "(block \<Rightarrow> chain \<Rightarrow> chain \<times> bool result) \<Rightarrow> 'a codec_scheme \<Rightarrow> world \<Rightarrow> block \<Rightarrow> usize \<Rightarrow> chain \<Rightarrow> chain \<times> unit result" where
  "finish_block add e w blk height c =
     (case save_block e (chain_db c) height blk of
        Inl f \<Rightarrow> (c, Inl f)
      | Inr conn \<Rightarrow>
          sbind (forget_txs e blk (c\<lparr>chain_db := conn\<rparr>)) (\<lambda>_ c.
          sbind (process_orphans_with add w c) (\<lambda>_ c.
          (c, if height mod 1000 = 0 then validate_state (chain_db c) (total_supply (state c)) else Inr ()))))"

definition add_locked ::
  "(block \<Rightarrow> chain \<Rightarrow> chain \<times> bool result) \<Rightarrow> ('p::ab_group_add, 'a) env_scheme \<Rightarrow> externals \<Rightarrow> world \<Rightarrow> block \<Rightarrow> chain \<Rightarrow> chain \<times> bool result" where
  "add_locked add e n w blk c =
     (case header_hash e (header blk) of
        Inl f \<Rightarrow> (c, Inl f)
      | Inr hash \<Rightarrow>
          if hash_to_height (state c) hash \<noteq> None then (c, Inr False)
          else case hash_to_height (state c) (prev_hash (header blk)) of
            None \<Rightarrow>
              (c\<lparr>orphan_blocks := trim_orphans (al_insert hash (blk, instant w) (orphan_blocks c))\<rparr>, Inr False)
          | Some prev_height \<Rightarrow>
              sbind (attach_block e n w blk prev_height c) (\<lambda>reorg c.
              sbind (finish_block add e w blk (prev_height + 1) c) (\<lambda>_ c.
              (c, Inr reorg))))"

definition add_block_with ::
  "(block \<Rightarrow> chain \<Rightarrow> chain \<times> bool result) \<Rightarrow> ('p::ab_group_add, 'a) env_scheme \<Rightarrow> externals \<Rightarrow> world \<Rightarrow> block \<Rightarrow> chain \<Rightarrow> chain \<times> bool result" where
  "add_block_with add e n w blk = with_lock (add_locked add e n w blk)"

text \<open>
  \<^verbatim>\<open>add_block\<close> calls \<^verbatim>\<open>process_orphans\<close>, which calls \<^verbatim>\<open>add_block\<close>, with the state
  lock held throughout: the inner call never gets the lock.  \<open>add_block_unfold\<close> below shows that the
  definition satisfies the recursive equation of the code.
\<close>

definition add_block ::
  "('p::ab_group_add, 'a) env_scheme \<Rightarrow> externals \<Rightarrow> world \<Rightarrow> block \<Rightarrow> chain \<Rightarrow> chain \<times> bool result" where
  "add_block e n w = add_block_with (\<lambda>_ c. (c, Inl Blocked)) e n w"

definition process_orphans ::
  "('p::ab_group_add, 'a) env_scheme \<Rightarrow> externals \<Rightarrow> world \<Rightarrow> chain \<Rightarrow> chain \<times> unit result" where
  "process_orphans e n w = process_orphans_with (add_block e n w) w"

section \<open>Starting\<close>

definition chain_new ::
  "('p, 'a) env_scheme \<Rightarrow> externals \<Rightarrow> world \<Rightarrow> rocksdb \<Rightarrow> block \<Rightarrow> (usize \<rightharpoonup> hash256) \<Rightarrow> mempool \<Rightarrow> chain result" where
  "chain_new e n w conn genesis checkpoints mp =
     rbind (header_hash e (header genesis)) (\<lambda>hash.
     rbind (compact_to_target (hdr_bits (header genesis))) (\<lambda>target.
     case apply_block_action e n w genesis 0 Connect True (block_work target) []
            \<lparr>chain_db = conn, state = empty_state, best_tip = zero_hash, best_height = 0, orphan_blocks = [],
             genesis_hash = hash, batch_pending = False, read_only_mode = False, state_lock = False,
             checkpoint_hashes = checkpoints, chain_mempool = mp, mempool_lock = False\<rparr> of
       (c, r) \<Rightarrow> rbind r (\<lambda>_. Inr c)))"

definition load_height ::
  "'a codec_scheme \<Rightarrow> rocksdb \<Rightarrow> usize \<Rightarrow> chain_state \<times> nat \<Rightarrow> usize \<Rightarrow> (chain_state \<times> nat) result" where
  "load_height e conn prune_start = (\<lambda>(st, cum_work) h.
     rbind (or_err (db_get conn (height_key h)) (Anyhow ''Missing hash'')) (\<lambda>hash_bytes.
     rbind (copy_hash hash_bytes) (\<lambda>hash.
     rbind (if h \<ge> prune_start
            then rbind (load_block_from_db e conn h) (\<lambda>full.
                 Inr (st\<lparr>blocks := (blocks st)(h \<mapsto> full),
                         timestamps := push_timestamp (timestamp (header full)) (timestamps st)\<rparr>, header full))
            else rbind (load_header e conn h) (\<lambda>hdr. Inr (st, hdr))) (\<lambda>(st, hdr).
     rbind (compact_to_target (hdr_bits hdr)) (\<lambda>target.
     let cum_work = cum_work + block_work target
     in Inr (st\<lparr>height_to_hash := (height_to_hash st)(h \<mapsto> hash), hash_to_height := (hash_to_height st)(hash \<mapsto> h),
                cumulative_work := (cumulative_work st)(h \<mapsto> cum_work)\<rparr>, cum_work))))))"

definition load_from_db ::
  "('p, 'a) env_scheme \<Rightarrow> externals \<Rightarrow> rocksdb \<Rightarrow> (usize \<rightharpoonup> hash256) \<Rightarrow> mempool \<Rightarrow> chain result" where
  "load_from_db e n conn0 checkpoints mp =
     (case recover_pending_reorgs e n conn0 of
        (conn, r) \<Rightarrow>
          rbind r (\<lambda>_.
          rbind (rbind (or_err (db_get conn DB_KEY_TIP) (Anyhow ''Missing tip'')) copy_hash) (\<lambda>tip.
          rbind (load_current_height conn) (\<lambda>height.
          rbind (rbind (or_err (db_get conn DB_KEY_GENESIS_HASH) (Anyhow ''Missing genesis_hash'')) copy_hash) (\<lambda>genesis.
          rbind (try_fold (load_height e conn (saturating_sub height PRUNE_DEPTH)) (empty_state, 0) (heights_upto height))
            (\<lambda>(st, cum_work).
          rbind (bail_if (cumulative_work st height \<noteq> Some cum_work) (InvalidBlock ''Chain work mismatch'')) (\<lambda>_.
          rbind (validate_state conn (total_supply st)) (\<lambda>_.
          rbind (validate_supply_smart e conn height) (\<lambda>audit.
          let st = (case audit of Some (hash, supply) \<Rightarrow> st\<lparr>total_supply := supply, utxo_set_hash := hash\<rparr> | None \<Rightarrow> st)
          in Inr \<lparr>chain_db = conn, state = st, best_tip = tip, best_height = height, orphan_blocks = [],
                  genesis_hash = genesis, batch_pending = False, read_only_mode = False, state_lock = False,
                  checkpoint_hashes = checkpoints, chain_mempool = mp, mempool_lock = False\<rparr>)))))))))"

section \<open>The state lock\<close>

lemma with_lock_held [simp]: "state_lock c \<Longrightarrow> with_lock body c = (c, Inl Blocked)"
  by (simp add: with_lock_def)

lemma with_lockE:
  assumes "with_lock body c = (c', r)" "\<not> state_lock c"
  obtains d where "body (c\<lparr>state_lock := True\<rparr>) = (d, r)" "r = Inl Blocked \<Longrightarrow> c' = d" "r \<noteq> Inl Blocked \<Longrightarrow> c' = d\<lparr>state_lock := False\<rparr>"
  using assms by (cases "body (c\<lparr>state_lock := True\<rparr>)") (auto simp: with_lock_def split: sum.splits fault.splits)

lemma add_block_held [simp]: "state_lock c \<Longrightarrow> add_block_with add e n w blk c = (c, Inl Blocked)"
  by (simp add: add_block_with_def)

lemma apply_held [simp]: "state_lock c \<Longrightarrow> apply_block_action e n w blk h a best work ops c = (c, Inl Blocked)"
  by (simp add: apply_block_action_def)

lemma reorganise_keeps:
  "reorganise e n w blk p nw cw c = (c', r) \<Longrightarrow>
     state_lock c' = state_lock c \<and> state c' = state c \<and> orphan_blocks c' = orphan_blocks c \<and>
     chain_mempool c' = chain_mempool c \<and> mempool_lock c' = mempool_lock c \<and> best_tip c' = best_tip c"
  by (auto simp: reorganise_def Let_def split: if_splits option.splits sum.splits)

lemma attach_block_keeps:
  "attach_block e n w blk p c = (c', r) \<Longrightarrow> state_lock c \<Longrightarrow>
     state_lock c' \<and> state c' = state c \<and> orphan_blocks c' = orphan_blocks c \<and>
     chain_mempool c' = chain_mempool c \<and> mempool_lock c' = mempool_lock c \<and> best_tip c' = best_tip c"
  by (auto simp: attach_block_def Let_def dest: reorganise_keeps split: if_splits sum.splits)

lemma forget_txs_keeps:
  "forget_txs e blk c = (c', r) \<Longrightarrow> state_lock c' = state_lock c \<and> state c' = state c \<and>
     orphan_blocks c' = orphan_blocks c \<and> best_height c' = best_height c \<and> best_tip c' = best_tip c \<and> chain_db c' = chain_db c"
  by (auto simp: forget_txs_def split: prod.splits if_splits)

lemma process_orphans_held:
  assumes "state_lock c" "\<And>blk c. state_lock c \<Longrightarrow> add blk c = (c, Inl Blocked)"
  shows "process_orphans_with add w c =
    (let orphans = trim_orphans (filter (\<lambda>(_, _, time). instant w - time < ORPHAN_TTL) (orphan_blocks c))
     in if orphans = [] then (c\<lparr>orphan_blocks := []\<rparr>, Inr ()) else (c\<lparr>orphan_blocks := []\<rparr>, Inl Blocked))"
proof (cases "trim_orphans (filter (\<lambda>(_, _, time). instant w - time < ORPHAN_TTL) (orphan_blocks c))")
  case Nil
  then show ?thesis by (simp add: process_orphans_with_def orphan_rounds.simps)
next
  case (Cons x xs)
  then show ?thesis
    using assms by (cases x) (simp add: process_orphans_with_def orphan_rounds.simps)
qed

lemma finish_block_held:
  assumes "state_lock c" "\<And>blk c. state_lock c \<Longrightarrow> add blk c = (c, Inl Blocked)"
  shows "finish_block add e w blk h c = finish_block (\<lambda>_ c. (c, Inl Blocked)) e w blk h c"
proof -
  have "process_orphans_with add w d = process_orphans_with (\<lambda>_ c. (c, Inl Blocked)) w d" if "state_lock d" for d
    using process_orphans_held [OF that, of add] process_orphans_held [OF that, of "\<lambda>_ c. (c, Inl Blocked)"] assms(2)
    by simp
  then show ?thesis
    unfolding finish_block_def
    by (auto dest!: forget_txs_keeps simp: assms(1) intro!: sbind_cong split: sum.splits)
qed

lemma add_block_unfold: "add_block e n w blk c = add_block_with (add_block e n w) e n w blk c"
proof (cases "state_lock c")
  case False
  have "finish_block (\<lambda>_ c. (c, Inl Blocked)) e w blk h d = finish_block (add_block e n w) e w blk h d"
    if "attach_block e n w blk p (c\<lparr>state_lock := True\<rparr>) = (d, r)" for h p d r
    by (rule finish_block_held [symmetric]) (use attach_block_keeps [OF that] in \<open>auto simp: add_block_def\<close>)
  then have "add_locked (\<lambda>_ c. (c, Inl Blocked)) e n w blk (c\<lparr>state_lock := True\<rparr>) =
      add_locked (add_block e n w) e n w blk (c\<lparr>state_lock := True\<rparr>)"
    unfolding add_locked_def by (auto intro!: sbind_cong split: sum.splits option.splits)
  with False show ?thesis by (simp add: add_block_def [abs_def] add_block_with_def with_lock_def)
qed (simp add: add_block_def)

section \<open>Adding a block\<close>

definition work_at :: "chain \<Rightarrow> usize \<Rightarrow> nat" where
  "work_at c h = (case cumulative_work (state c) h of Some work \<Rightarrow> work | None \<Rightarrow> 0)"

text \<open>The block may become the tip of \<open>c\<close> on top of the block at height \<open>p\<close>.\<close>

definition heavier :: "('p::ab_group_add, 'a) env_scheme \<Rightarrow> world \<Rightarrow> chain \<Rightarrow> block \<Rightarrow> usize \<Rightarrow> bool" where
  "heavier e w c blk p \<longleftrightarrow>
     hash_to_height (state c) (prev_hash (header blk)) = Some p \<and>
     saturating_sub (best_height c) p \<le> REORG_MAX_DEPTH \<and>
     validate_block e (chain_db c) (best_height c) (checkpoint_hashes c) (clock_ms w) blk (p + 1) = Inr () \<and>
     (\<exists>target. compact_to_target (hdr_bits (header blk)) = Inr target \<and>
        work_at c (best_height c) < work_at c p + block_work target)"

lemma heavier_lock [simp]: "heavier e w (c\<lparr>state_lock := b\<rparr>) blk p = heavier e w c blk p"
  by (simp add: heavier_def work_at_def)

lemma reorganise_height:
  "reorganise e n w blk p nw cw c = (c', r) \<Longrightarrow> best_height c' = best_height c \<or>
     best_height c' = p + 1 \<and> saturating_sub (best_height c) p \<le> REORG_MAX_DEPTH"
  by (auto simp: reorganise_def Let_def split: if_splits option.splits sum.splits)

lemma attach_block_accepted:
  assumes "validate_block e (chain_db c) (best_height c) (checkpoint_hashes c) (clock_ms w) blk (p + 1) = Inr ()"
    "compact_to_target (hdr_bits (header blk)) = Inr target"
  shows "attach_block e n w blk p c =
    (if work_at c (best_height c) < work_at c p + block_work target
     then reorganise e n w blk p (work_at c p + block_work target) (work_at c (best_height c)) c
     else sbind (apply_block_action e n w blk (p + 1) Connect False (block_work target) [] c) (\<lambda>_ c. (c, Inr False)))"
  using assms by (simp add: attach_block_def Let_def work_at_def)

lemma attach_block_height:
  assumes "attach_block e n w blk p c = (c', r)" "state_lock c"
    "hash_to_height (state c) (prev_hash (header blk)) = Some p"
  shows "best_height c' = best_height c \<or> best_height c' = p + 1 \<and> heavier e w c blk p"
proof (cases "rbind (validate_block e (chain_db c) (best_height c) (checkpoint_hashes c) (clock_ms w) blk (p + 1))
    (\<lambda>_. compact_to_target (hdr_bits (header blk)))")
  case Inl
  then show ?thesis using assms(1) by (simp add: attach_block_def)
next
  case (Inr target)
  then have ok: "validate_block e (chain_db c) (best_height c) (checkpoint_hashes c) (clock_ms w) blk (p + 1) = Inr ()"
    "compact_to_target (hdr_bits (header blk)) = Inr target"
    by (auto simp: result_simps)
  show ?thesis
    using assms attach_block_accepted [OF ok, of n]
    by (auto simp: heavier_def ok dest!: reorganise_height split: if_splits)
qed

lemma process_orphans_blocked_keeps:
  assumes "process_orphans_with (\<lambda>_ c. (c, Inl Blocked)) w c = (c', r)" "state_lock c"
  shows "c' = c\<lparr>orphan_blocks := []\<rparr>"
  using assms process_orphans_held [OF assms(2), of "\<lambda>_ c. (c, Inl Blocked)" w] by (auto simp: Let_def split: if_splits)

lemma finish_block_keeps:
  assumes "finish_block (\<lambda>_ c. (c, Inl Blocked)) e w blk h c = (c', r)" "state_lock c"
  shows "state c' = state c \<and> best_height c' = best_height c \<and> best_tip c' = best_tip c \<and> state_lock c' \<and>
    (orphan_blocks c' = orphan_blocks c \<or> orphan_blocks c' = [])"
  using assms unfolding finish_block_def
  by (auto dest!: forget_txs_keeps process_orphans_blocked_keeps elim!: sbindE split: sum.splits)

lemma al_delete_present: "k \<in> fst ` set xs \<Longrightarrow> length (al_delete k xs) < length xs"
  unfolding al_delete_def by (auto intro: length_filter_less)

lemma length_al_insert: "length (al_insert k v xs) \<le> Suc (length xs)"
  by (simp add: al_insert_def al_delete_def)

lemma oldest_in: "oldest x xs \<in> insert x (set xs)"
  by (induction x xs rule: oldest.induct) auto

lemma length_trim_orphans: "length xs \<le> 501 \<Longrightarrow> length (trim_orphans xs) \<le> 500"
proof (cases xs)
  case (Cons x ys)
  have "fst (oldest x ys) \<in> fst ` set xs" using oldest_in [of x ys] Cons by auto
  from al_delete_present [OF this] show "length xs \<le> 501 \<Longrightarrow> length (trim_orphans xs) \<le> 500"
    by (simp add: trim_orphans_def Cons)
qed (simp add: trim_orphans_def)

lemma add_locked_keeps:
  assumes "add_locked (\<lambda>_ c. (c, Inl Blocked)) e n w blk c = (c', r)" "state_lock c"
  shows "state c' = state c \<and> best_tip c' = best_tip c \<and> state_lock c' \<and>
    (best_height c' = best_height c \<or> (\<exists>p. best_height c' = p + 1 \<and> heavier e w c blk p)) \<and>
    (length (orphan_blocks c) \<le> 500 \<longrightarrow> length (orphan_blocks c') \<le> 500)"
proof -
  have "length (trim_orphans (al_insert k v (orphan_blocks c))) \<le> 500" if "length (orphan_blocks c) \<le> 500" for k v
    by (rule length_trim_orphans) (use length_al_insert [of k v "orphan_blocks c"] that in simp)
  moreover have ?thesis
    if p: "hash_to_height (state c) (prev_hash (header blk)) = Some p"
      and run: "sbind (attach_block e n w blk p c) (\<lambda>reorg c.
        sbind (finish_block (\<lambda>_ c. (c, Inl Blocked)) e w blk (p + 1) c) (\<lambda>_ c. (c, Inr reorg))) = (c', r)" for p
    using run
  proof (cases rule: sbindE)
    case (1 f)
    from attach_block_keeps [OF 1(1) assms(2)] attach_block_height [OF 1(1) assms(2) p] show ?thesis by auto
  next
    case (2 d reorg)
    note d = attach_block_keeps [OF 2(1) assms(2)] attach_block_height [OF 2(1) assms(2) p]
    from 2(2) obtain r2 where "finish_block (\<lambda>_ c. (c, Inl Blocked)) e w blk (p + 1) d = (c', r2)"
      by (auto elim!: sbindE)
    from finish_block_keeps [OF this] d show ?thesis by auto
  qed
  ultimately show ?thesis
    using assms unfolding add_locked_def by (auto split: sum.splits option.splits if_splits)
qed

lemma add_block_keeps:
  assumes "add_block e n w blk c = (c', r)"
  shows "state c' = state c \<and> best_tip c' = best_tip c \<and>
    (best_height c' = best_height c \<or> (\<exists>p. best_height c' = p + 1 \<and> heavier e w c blk p)) \<and>
    (length (orphan_blocks c) \<le> 500 \<longrightarrow> length (orphan_blocks c') \<le> 500) \<and>
    (r \<noteq> Inl Blocked \<longrightarrow> \<not> state_lock c')"
proof (cases "state_lock c")
  case True
  with assms show ?thesis by (simp add: add_block_def)
next
  case False
  from assms [unfolded add_block_def add_block_with_def] False show ?thesis
    by (rule with_lockE) (use add_locked_keeps [of e n w blk "c\<lparr>state_lock := True\<rparr>"] in \<open>cases "r = Inl Blocked"; fastforce\<close>)
qed

text \<open>C2. On every path, adding a block leaves the in-memory index and the tip untouched, and it changes
  the best height only to one above a known parent, when the block passes validation, gives its chain
  strictly more work than the best one, and forks off at most the maximal depth below it.\<close>

theorem add_block_safe:
  assumes "add_block e n w blk c = (c', r)"
  shows "state c' = state c \<and> best_tip c' = best_tip c \<and>
    (best_height c' = best_height c \<or> (\<exists>p. best_height c' = p + 1 \<and> heavier e w c blk p))"
  using add_block_keeps [OF assms] by blast

lemma add_block_orphan:
  assumes "\<not> state_lock c" "header_hash e (header blk) = Inr hash" "hash_to_height (state c) hash = None"
    "hash_to_height (state c) (prev_hash (header blk)) = None"
  shows "add_block e n w blk c =
    (c\<lparr>orphan_blocks := trim_orphans (al_insert hash (blk, instant w) (orphan_blocks c))\<rparr>, Inr False)"
  using assms by (simp add: add_block_def add_block_with_def with_lock_def add_locked_def)

lemma add_block_True_unknown:
  assumes "add_block e n w blk c = (c', Inr True)" "header_hash e (header blk) = Inr hash"
  shows "hash_to_height (state c) hash = None"
proof -
  have "\<not> state_lock c" using assms by (auto simp: add_block_def)
  then show ?thesis using assms
    by (auto simp: add_block_def add_block_with_def with_lock_def add_locked_def split: if_splits)
qed

text \<open>A block that was accepted is not entered in the index: the next block, whose parent it is, is
  put aside as an orphan and not connected.\<close>

theorem accepted_block_has_no_children:
  assumes "add_block e n w blk c = (c', Inr True)" "header_hash e (header blk) = Inr (prev_hash (header child))"
    "header_hash e (header child) = Inr hash'" "hash' \<notin> dom (hash_to_height (state c))"
  shows "add_block e n w' child c' =
    (c'\<lparr>orphan_blocks := trim_orphans (al_insert hash' (child, instant w') (orphan_blocks c'))\<rparr>, Inr False)"
proof (rule add_block_orphan)
  from add_block_keeps [OF assms(1)] show "\<not> state_lock c'" by simp
  from add_block_keeps [OF assms(1)] assms add_block_True_unknown [OF assms(1,2)]
  show "header_hash e (header child) = Inr hash'" "hash_to_height (state c') hash' = None"
    "hash_to_height (state c') (prev_hash (header child)) = None"
    by auto
qed

text \<open>C16. Adding a block keeps at most 500 orphans.\<close>

theorem orphan_pool_bounded:
  "length (orphan_blocks c) \<le> 500 \<Longrightarrow> length (orphan_blocks (fst (add_block e n w blk c))) \<le> 500"
  using add_block_keeps [OF surjective_pairing] by blast

text \<open>A valid block on a chain that is not heavier is applied while the state lock is held, which
  applying takes again: the call never returns, the lock stays held, and no later block can be added.\<close>

theorem side_block_freezes_node:
  assumes "\<not> state_lock c" "header_hash e (header blk) = Inr hash" "hash_to_height (state c) hash = None"
    "hash_to_height (state c) (prev_hash (header blk)) = Some p"
    "validate_block e (chain_db c) (best_height c) (checkpoint_hashes c) (clock_ms w) blk (p + 1) = Inr ()"
    "compact_to_target (hdr_bits (header blk)) = Inr target"
    "work_at c p + block_work target \<le> work_at c (best_height c)"
  shows "\<exists>c'. add_block e n w blk c = (c', Inl Blocked) \<and>
    (\<forall>w' blk'. add_block e n w' blk' c' = (c', Inl Blocked))"
proof -
  let ?c = "c\<lparr>state_lock := True\<rparr>"
  have "attach_block e n w blk p ?c = (?c, Inl Blocked)"
    using attach_block_accepted [of e ?c w blk p target n] assms by (simp add: work_at_def)
  then have "add_block e n w blk c = (?c, Inl Blocked)"
    using assms(1-4) by (simp add: add_block_def add_block_with_def with_lock_def add_locked_def)
  then show ?thesis by (auto simp: add_block_def)
qed

lemma apply_utxo_changes_cong:
  assumes "cfs d' = cfs d" "\<And>cf k. cf \<noteq> default_cf \<Longrightarrow> db_get d' (cf, k) = db_get d (cf, k)"
  shows "apply_utxo_changes e d' sh su blk h a ops = apply_utxo_changes e d sh su blk h a ops"
proof -
  have cf: "cf_handle d' = cf_handle d" using assms(1) by (simp add: cf_handle_def fun_eq_iff)
  have rem: "remembered d' (c, k) = remembered d (c, k)" if "c \<noteq> default_cf" for c k
    using assms(2) [OF that] by (simp add: remembered_def)
  have "coinbase_action e d' h tx a acc = coinbase_action e d h tx a acc" for tx acc
    by (auto simp: coinbase_action_def cf rem cf_handle_def Let_def split: action.split)
  moreover have "input_action e d' h an a = input_action e d h an a" for an
  proof -
    have "key_image_action e d' h a = key_image_action e d h a"
      by (simp add: fun_eq_iff key_image_action_def Let_def rem assms(2) cong: action.case_cong)
    moreover have "spend_action e d' an a = spend_action e d an a"
      by (simp add: fun_eq_iff spend_action_def assms(2) utxo_cf_def)
    ultimately show ?thesis by (intro ext) (simp add: input_action_def)
  qed
  moreover have "output_action e d' tx a = output_action e d tx a" for tx
    by (auto simp: fun_eq_iff output_action_def addr_action_def rem utxo_cf_def Let_def cong: action.case_cong)
  ultimately have "handle_utxo_action e d' h a = handle_utxo_action e d h a"
    by (intro ext) (simp add: handle_utxo_action_def)
  then show ?thesis by (simp add: apply_utxo_changes_def)
qed

lemma journal_frame:
  assumes "db_ok d"
  shows "cfs (start_reorg_journal n d jid j) = cfs d" "db_ok (start_reorg_journal n d jid j)"
    "k \<noteq> journal_key jid \<Longrightarrow> db_get (start_reorg_journal n d jid j) k = db_get d k"
  using assms by (simp_all add: start_reorg_journal_def db_get_put rdb.invar_put) (simp add: db_put_def)

lemma build_block_ops_journal:
  assumes "db_ok d"
  shows "build_block_ops e (start_reorg_journal n d jid j) st blk h a ops = build_block_ops e d st blk h a ops"
proof -
  have "apply_utxo_changes e (start_reorg_journal n d jid j) sh su blk h a ops = apply_utxo_changes e d sh su blk h a ops" for sh su
    by (rule apply_utxo_changes_cong) (simp_all add: journal_frame [OF assms] journal_key_def)
  moreover have "block_cfs (start_reorg_journal n d jid j) = block_cfs d"
    by (simp add: block_cfs_def cf_handle_def journal_frame [OF assms])
  ultimately show ?thesis by (simp add: build_block_ops_def)
qed

lemma remove_all_absent:
  "\<forall>x\<in>set ids. map_of (pool mp) x = None \<Longrightarrow> remove_all e ids mp = (mp, Inr ())"
  by (induction ids) (auto simp: mempool_remove_def)

lemma reorganise_tip:
  assumes "db_ok (chain_db c)" "clock_ms w = Some now" "cw < nw"
    "build_block_ops e (chain_db c) (state c) blk (best_height c + 1) Connect [] = Inr ops"
  shows "\<exists>d. db_ok d \<and> reorganise e n w blk (best_height c) nw cw c =
    (c\<lparr>chain_db := d, best_height := best_height c + 1\<rparr>, Inr True)"
proof -
  let ?j = "\<lparr>journal_id = decimal now, old_tip_height = best_height c, old_tip_hash = best_tip c,
    disconnect_depth = 0, new_block = blk\<rparr>"
  let ?d = "commit_reorg_batch (start_reorg_journal n (chain_db c) (decimal now) ?j) ops (decimal now)"
  have "db_ok ?d"
    using assms(1) by (simp add: commit_reorg_batch_def rdb.invar_del db_ok_write journal_frame)
  moreover have "\<not> nw \<le> cw * 99 div 100" using assms(3) by auto
  ultimately show ?thesis
    using assms
    by (intro exI [of _ ?d])
      (simp add: reorganise_def Let_def saturating_sub_def disconnect_ops_def build_block_ops_journal REORG_MAX_DEPTH_def)
qed

lemma add_block_tip:
  assumes "\<not> state_lock c" "header_hash e (header blk) = Inr hash" "hash_to_height (state c) hash = None"
    "hash_to_height (state c) (prev_hash (header blk)) = Some (best_height c)"
    "validate_block e (chain_db c) (best_height c) (checkpoint_hashes c) (clock_ms w) blk (best_height c + 1) = Inr ()"
    "compact_to_target (hdr_bits (header blk)) = Inr target" "target < TWO_POW_256"
    "clock_ms w \<noteq> None" "db_ok (chain_db c)" "bincode_ok e"
    "build_block_ops e (chain_db c) (state c) blk (best_height c + 1) Connect [] = Inr ops"
    "\<forall>tx\<in>set (txs blk). map_of (pool (chain_mempool c)) (tx_hash e tx) = None"
    "\<forall>(_, _, time)\<in>set (orphan_blocks c). instant w - time \<ge> ORPHAN_TTL" "(best_height c + 1) mod 1000 \<noteq> 0"
    "\<not> mempool_lock c"
  shows "\<exists>c'. add_block e n w blk c = (c', Inr True) \<and> best_height c' = best_height c + 1 \<and>
    load_block_from_db e (chain_db c') (best_height c + 1) = Inr blk"
proof -
  let ?c = "c\<lparr>state_lock := True\<rparr>" and ?h = "best_height c + 1"
  have work: "work_at ?c (best_height c) < work_at ?c (best_height c) + block_work target"
    using assms(7) by (simp add: block_work_def div_greater_zero_iff)
  obtain now where now: "clock_ms w = Some now" using assms(8) by auto
  obtain d where d: "db_ok d" "reorganise e n w blk (best_height ?c) (work_at ?c (best_height c) + block_work target)
      (work_at ?c (best_height c)) ?c = (?c\<lparr>chain_db := d, best_height := best_height ?c + 1\<rparr>, Inr True)"
    using reorganise_tip [OF _ now work, of ?c e blk ops n] assms(9,11) by auto
  have attach: "attach_block e n w blk (best_height c) ?c = (?c\<lparr>chain_db := d, best_height := ?h\<rparr>, Inr True)"
    using attach_block_accepted [of e ?c w blk "best_height c" target n] assms(5,6) work d(2) by simp
  obtain d' where d': "save_block e d ?h blk = Inr d'" using assms(2) by (simp add: save_block_def)
  have orphans: "filter (\<lambda>(_, _, time). instant w - time < ORPHAN_TTL) (orphan_blocks c) = []"
    using assms(13) by (fastforce simp: filter_empty_conv)
  have "finish_block (\<lambda>_ c. (c, Inl Blocked)) e w blk ?h (?c\<lparr>chain_db := d, best_height := ?h\<rparr>) =
      (?c\<lparr>chain_db := d', best_height := ?h, orphan_blocks := []\<rparr>, Inr ())"
    using assms(12,14,15) by (simp add: finish_block_def d' forget_txs_def remove_all_absent process_orphans_held orphans trim_orphans_def)
  then have "add_block e n w blk c = (c\<lparr>chain_db := d', best_height := ?h, orphan_blocks := [], state_lock := False\<rparr>, Inr True)"
    using assms(1-4) attach by (simp add: add_block_def add_block_with_def with_lock_def add_locked_def)
  moreover have "load_block_from_db e d' ?h = Inr blk"
    using db_get_saved [OF d(1) assms(2) d'] assms(10) by (simp add: load_block_from_db_def bincode_ok_def)
  ultimately show ?thesis by simp
qed

text \<open>C8. A new valid block on top of the best block is accepted when its target is below \<open>2 ^ 256\<close>, its writes can be built, no
  live orphan is waiting, the pool is free and holds none of its transactions, and its height is not a multiple of 1000, where an audit
  follows: the call returns, the height grows by one, and the block is stored at that height.\<close>

theorem add_block_extends_tip:
  assumes "\<not> state_lock c" "header_hash e (header blk) = Inr hash" "hash_to_height (state c) hash = None"
    "hash_to_height (state c) (prev_hash (header blk)) = Some (best_height c)"
    "validate_block e (chain_db c) (best_height c) (checkpoint_hashes c) (clock_ms w) blk (best_height c + 1) = Inr ()"
    "compact_to_target (hdr_bits (header blk)) = Inr target" "target < TWO_POW_256"
    "clock_ms w \<noteq> None" "db_ok (chain_db c)" "bincode_ok e"
    "build_block_ops e (chain_db c) (state c) blk (best_height c + 1) Connect [] = Inr ops"
    "\<forall>tx\<in>set (txs blk). map_of (pool (chain_mempool c)) (tx_hash e tx) = None"
    "\<forall>(_, _, time)\<in>set (orphan_blocks c). instant w - time \<ge> ORPHAN_TTL" "(best_height c + 1) mod 1000 \<noteq> 0"
    "\<not> mempool_lock c"
  shows "\<exists>c'. add_block e n w blk c = (c', Inr True) \<and> best_height c' = best_height c + 1 \<and>
    load_block_from_db e (chain_db c') (best_height c + 1) = Inr blk"
  by (rule add_block_tip [OF assms])

section \<open>Reorganisation\<close>

lemma default_cf_keys: "\<not> prefix journal_prefix (snd (hdr_key h))" "\<not> prefix journal_prefix (snd DB_KEY_HEIGHT)"
  "\<not> prefix journal_prefix (snd DB_KEY_TIP)" "\<not> prefix journal_prefix (snd DB_KEY_UTXO_SET_HASH)"
  "\<not> prefix journal_prefix (snd DB_KEY_TOTAL_SUPPLY)" "\<not> prefix journal_prefix (snd DB_KEY_STATE_TOTAL_SUPPLY)"
  by (auto simp: journal_prefix_def hdr_key_def DB_KEY_HEIGHT_def DB_KEY_TIP_def DB_KEY_UTXO_SET_HASH_def
      DB_KEY_TOTAL_SUPPLY_def DB_KEY_STATE_TOTAL_SUPPLY_def ascii_def elim!: prefixE)

text \<open>A batch that writes no journal.\<close>

definition journal_free :: "write_batch \<Rightarrow> bool" where
  "journal_free ops \<longleftrightarrow> (\<forall>x\<in>set ops. fst (op_key x) = default_cf \<longrightarrow> \<not> prefix journal_prefix (snd (op_key x)))"

lemma journal_free_append [simp]: "journal_free (xs @ ys) \<longleftrightarrow> journal_free xs \<and> journal_free ys"
  by (auto simp: journal_free_def)

lemma handle_journal_free:
  assumes "handle_utxo_action e db h a acc tx = Inr acc'" "journal_free (batch acc)"
  shows "journal_free (batch acc')"
proof (cases "is_coinbase tx")
  case True
  with assms show ?thesis
    by (cases a) (auto simp: handle_utxo_action_def coinbase_action_def cf_handle_def Let_def result_simps journal_free_def split: if_splits)
next
  case False
  then obtain acc2 where
    i: "try_fold (input_action e db h (is_anonymous tx) a) acc (inputs tx) = Inr acc2" and
    o: "try_fold (output_action e db tx a) acc2 (enumerate 0 (if a = Connect then outputs tx else rev (outputs tx))) = Inr acc'"
    using assms(1) by (auto simp: handle_utxo_action_def result_simps)
  have "journal_free (batch acc2)"
    by (rule try_fold_invariant [where I = "\<lambda>acc. journal_free (batch acc)", OF i assms(2)])
      (cases a; auto simp: input_action_def key_image_action_def spend_action_def utxo_cf_def Let_def result_simps journal_free_def split: if_splits)
  then show ?thesis
    by (rule try_fold_invariant [where I = "\<lambda>acc. journal_free (batch acc)", OF o])
      (cases a; auto simp: output_action_def addr_action_def utxo_cf_def Let_def result_simps journal_free_def split: if_splits)
qed

lemma build_journal_free:
  assumes "build_block_ops e d st blk h a ops = Inr ops'" "journal_free ops"
  shows "journal_free ops'"
proof -
  obtain acc0 where acc0: "try_fold (handle_utxo_action e d h a)
      \<lparr>batch = ops, rollback_ops = [], current_set_hash = utxo_set_hash st, current_supply = total_supply st\<rparr> (txs blk) = Inr acc0"
    and ops': "ops' = batch acc0 @ [Put DB_KEY_UTXO_SET_HASH (current_set_hash acc0), Put DB_KEY_TOTAL_SUPPLY (u64_be (current_supply acc0))] @
      index_ops e blk h a @ [Put DB_KEY_UTXO_SET_HASH (current_set_hash acc0), Put DB_KEY_TOTAL_SUPPLY (u64_be (current_supply acc0))]"
    using assms(1) by (auto simp: build_block_ops_def apply_utxo_changes_def result_simps)
  have "journal_free (batch acc0)"
    by (rule try_fold_invariant [where I = "\<lambda>acc. journal_free (batch acc)", OF acc0])
      (use assms(2) handle_journal_free in auto)
  moreover have "journal_free (index_ops e blk h a)"
    by (cases a) (auto simp: journal_free_def index_ops_def default_cf_keys)
  ultimately show ?thesis by (simp add: ops') (simp add: journal_free_def default_cf_keys)
qed

lemma journal_key_neq: "journal_key jid \<noteq> height_key h" "journal_key jid \<noteq> block_key bs"
  by (simp_all add: journal_key_def journal_prefix_def height_key_def block_key_def ascii_def)

lemma disconnect_ops_journal:
  assumes "db_ok d"
  shows "disconnect_ops e (start_reorg_journal n d jid j) st best p = disconnect_ops e d st best p"
  by (simp add: disconnect_ops_def build_block_ops_journal [OF assms] load_block_from_db_def
      journal_frame [OF assms] journal_key_neq [symmetric])

lemma disconnect_journal_free:
  assumes "disconnect_ops e d st best p = Inr ops"
  shows "journal_free ops"
  by (rule try_fold_invariant [where I = journal_free, OF assms [unfolded disconnect_ops_def]])
    (auto simp: rbind_eq_Inr journal_free_def [of "[]"] intro: build_journal_free)

definition reorg_ops :: "('p, 'a) env_scheme \<Rightarrow> block \<Rightarrow> usize \<Rightarrow> chain \<Rightarrow> write_batch result" where
  "reorg_ops e blk p c =
     rbind (disconnect_ops e (chain_db c) (state c) (best_height c) p) (\<lambda>ops.
     build_block_ops e (chain_db c) (state c) blk (p + 1) Connect ops)"

lemma reorg_ops_journal_free: "reorg_ops e blk p c = Inr ops \<Longrightarrow> journal_free ops"
  by (auto simp: reorg_ops_def rbind_eq_Inr intro: build_journal_free disconnect_journal_free)

lemma reorganise_guarded:
  assumes "db_ok (chain_db c)" "clock_ms w = Some now" "\<not> saturating_sub (best_height c) p > REORG_MAX_DEPTH" "\<not> nw \<le> cw * 99 div 100"
  shows "\<exists>j. reorganise e n w blk p nw cw c = (case reorg_ops e blk p c of
      Inl f \<Rightarrow> (c\<lparr>chain_db := start_reorg_journal n (chain_db c) (decimal now) j\<rparr>, Inl f)
    | Inr ops \<Rightarrow> (c\<lparr>chain_db := commit_reorg_batch (start_reorg_journal n (chain_db c) (decimal now) j) ops (decimal now),
        best_height := p + 1\<rparr>, Inr True))"
proof -
  let ?j = "\<lparr>journal_id = decimal now, old_tip_height = best_height c, old_tip_hash = best_tip c,
    disconnect_depth = best_height c - p, new_block = blk\<rparr>"
  have build: "build_block_ops e (start_reorg_journal n (chain_db c) jid j) st b h a = build_block_ops e (chain_db c) st b h a" for jid j st b h a
    by (rule ext) (rule build_block_ops_journal [OF assms(1)])
  show ?thesis
    unfolding reorganise_def reorg_ops_def Let_def
    by (rule exI [of _ ?j]) (simp add: assms build disconnect_ops_journal cong: sum.case_cong)
qed

lemma reorganise_cases:
  assumes "reorganise e n w blk p nw cw c = (c', r)" "db_ok (chain_db c)"
  obtains (refused) err where "r = bail err" "c' = c"
  | (failed) jid j f where "r = Inl f" "c' = c\<lparr>chain_db := start_reorg_journal n (chain_db c) jid j\<rparr>"
  | (committed) jid j ops where "r = Inr True" "reorg_ops e blk p c = Inr ops"
      "c' = c\<lparr>chain_db := commit_reorg_batch (start_reorg_journal n (chain_db c) jid j) ops jid, best_height := p + 1\<rparr>"
proof (cases "saturating_sub (best_height c) p > REORG_MAX_DEPTH \<or> nw \<le> cw * 99 div 100 \<or> clock_ms w = None")
  case True
  then have "\<exists>err. reorganise e n w blk p nw cw c = (c, bail err)" by (auto simp: reorganise_def)
  then show thesis using assms(1) refused by auto
next
  case False
  then obtain now where "clock_ms w = Some now" by auto
  with False obtain j where run: "reorganise e n w blk p nw cw c = (case reorg_ops e blk p c of
      Inl f \<Rightarrow> (c\<lparr>chain_db := start_reorg_journal n (chain_db c) (decimal now) j\<rparr>, Inl f)
    | Inr ops \<Rightarrow> (c\<lparr>chain_db := commit_reorg_batch (start_reorg_journal n (chain_db c) (decimal now) j) ops (decimal now),
        best_height := p + 1\<rparr>, Inr True))"
    using reorganise_guarded [OF assms(2)] by blast
  show thesis
  proof (cases "reorg_ops e blk p c")
    case (Inl f)
    with run assms(1) have "c\<lparr>chain_db := start_reorg_journal n (chain_db c) (decimal now) j\<rparr> = c'" "Inl f = r" by simp_all
    then show thesis by (intro failed) (rule sym, assumption)+
  next
    case (Inr ops)
    with run assms(1) have "c\<lparr>chain_db := commit_reorg_batch (start_reorg_journal n (chain_db c) (decimal now) j) ops (decimal now),
        best_height := p + 1\<rparr> = c'" "Inr True = r" by simp_all
    then show thesis using Inr by (intro committed) (assumption | rule sym)+
  qed
qed

lemma committed_lookup:
  assumes "db_ok d" "prefix_scan (tables d default_cf) journal_prefix = []" "journal_free ops"
  shows "db_get (commit_reorg_batch (start_reorg_journal n d jid j) ops jid) k = db_get (db_write ops d) k"
    "prefix_scan (tables (commit_reorg_batch (start_reorg_journal n d jid j) ops jid) default_cf) journal_prefix = []"
proof -
  let ?d = "start_reorg_journal n d jid j"
  let ?w = "db_write ops ?d"
  have ok: "db_ok ?d" "db_ok ?w" using assms(1) by (simp_all add: journal_frame db_ok_write)
  have tbl: "tbl_ok (tables d default_cf)" "tbl_ok (tables ?w default_cf)" using assms(1) ok(2) by (simp_all add: db_ok_def)
  have free: "journal_key jid \<notin> op_key ` set ops" 
  proof
    assume "journal_key jid \<in> op_key ` set ops"
    then obtain x where "x \<in> set ops" "op_key x = journal_key jid" by auto
    then show False using assms(3) by (auto simp: journal_free_def journal_key_def dest!: bspec)
  qed
  have "db_get d (journal_key jid) = None"
    using assms(2) by (fastforce simp: prefix_scan_eq [OF tbl(1)] db_get_def journal_key_def tbl_get_def map_of_eq_None_iff filter_empty_conv)
  then have none: "db_get (db_write ops d) (journal_key jid) = None"
    using db_get_write_frame [OF assms(1) free] by simp
  have "db_get ?w k = db_get (db_write ops d) k" if "k \<noteq> journal_key jid"
    using that by (simp add: db_get_write [OF ok(1)] db_get_write [OF assms(1)] journal_frame(3) [OF assms(1)] split: option.split)
  with none show "db_get (commit_reorg_batch ?d ops jid) k = db_get (db_write ops d) k"
    by (cases "k = journal_key jid") (simp_all add: commit_reorg_batch_def db_get_del [OF ok(2)])
  have "prefix_scan (tables ?d default_cf) journal_prefix = [(journal_prefix @ ascii jid, ser_journal n j)]"
    using assms(2) tbl(1) by (simp add: start_reorg_journal_def db_put_def journal_key_def prefix_scan_put)
  then have "prefix_scan (tables ?w default_cf) journal_prefix = [(journal_prefix @ ascii jid, ser_journal n j)]"
    using prefix_scan_write [OF ok(1), of ops default_cf journal_prefix] assms(3) by (simp add: journal_free_def)
  then have one: "filter (\<lambda>(k, _). prefix journal_prefix k) (tables ?w default_cf) = [(journal_prefix @ ascii jid, ser_journal n j)]"
    by (simp only: prefix_scan_eq [OF tbl(2)])
  have "prefix_scan (tables (commit_reorg_batch ?d ops jid) default_cf) journal_prefix =
      filter (\<lambda>(k, _). prefix journal_prefix k) (tbl_del (journal_prefix @ ascii jid) (tables ?w default_cf))"
    by (simp add: commit_reorg_batch_def db_del_def journal_key_def prefix_scan_eq [OF tbl_ok_del [OF tbl(2)]])
  also have "\<dots> = tbl_del (journal_prefix @ ascii jid) (filter (\<lambda>(k, _). prefix journal_prefix k) (tables ?w default_cf))"
    by (simp add: tbl_del_def conj_commute case_prod_unfold)
  also have "\<dots> = []" by (simp only: one) (simp add: tbl_del_def)
  finally show "prefix_scan (tables (commit_reorg_batch ?d ops jid) default_cf) journal_prefix = []" .
qed


section \<open>Applying a block\<close>

lemma apply_lockedE:
  assumes "apply_locked e n w blk h a best work ops c = (c', r)" "state_lock c"
    "\<not> batch_pending c" "\<not> (read_only_mode c \<and> a = Connect)"
  shows "(\<exists>f. r = Inl f \<and> c' = c\<lparr>batch_pending := True\<rparr>) \<or>
    (\<exists>ch. block_changes e n (chain_db c) (state c) blk h a ops = Inr ch \<and>
      (r = bail (Anyhow ''Write error'') \<and> \<not> write_ok w \<and> c' = failed_write w ch (c\<lparr>batch_pending := True\<rparr>) \<or>
       state c' = commit_changes blk h a work ch (state c) \<and> chain_db c' = db_write (change_ops ch) (chain_db c) \<and>
       (r = Inl Blocked \<and> state_lock c' \<and> a = Connect \<and> best \<and> PRUNE_DEPTH < h \<or>
        r = Inr () \<and> \<not> batch_pending c')))"
  using assms by (auto simp: apply_locked_def Let_def prune_def split: if_splits sum.splits)

lemma failed_write_simps [simp]:
  "batch_pending (failed_write w ch c) = batch_pending c" "state (failed_write w ch c) = state c"
  by (simp_all add: failed_write_def Let_def)

text \<open>When applying a block fails after it has begun, the pending mark is never cleared: every later
  application fails, whatever the block.\<close>

theorem failed_apply_is_permanent:
  assumes "apply_block_action e n w blk h a best work ops c = (c', Inl (Err err))" "\<not> batch_pending c"
    "\<not> (read_only_mode c \<and> a = Connect)"
  shows "apply_block_action e n w' blk' h' a' best' work' ops' c' =
    (c', bail (Anyhow ''Batch pending, cannot apply action''))"
proof -
  have free: "\<not> state_lock c" using assms(1) by (auto simp: apply_block_action_def)
  from assms(1) [unfolded apply_block_action_def] free
  obtain d where d: "apply_locked e n w blk h a best work ops (c\<lparr>state_lock := True\<rparr>) = (d, Inl (Err err))"
    "c' = d\<lparr>state_lock := False\<rparr>"
    by (rule with_lockE) auto
  have "batch_pending d" using apply_lockedE [OF d(1)] assms(2,3) by auto
  with d(2) show ?thesis
    by (cases c') (simp add: apply_block_action_def with_lock_def apply_locked_def)
qed

definition state_ok :: "chain_state \<Rightarrow> bool" where
  "state_ok st \<longleftrightarrow>
     (\<forall>h hash. height_to_hash st h = Some hash \<longrightarrow> hash_to_height st hash = Some h) \<and>
     dom (blocks st) \<subseteq> dom (height_to_hash st) \<and> dom (cumulative_work st) \<subseteq> dom (height_to_hash st) \<and>
     length (timestamps st) \<le> 11"

lemma length_push_timestamp: "length stamps \<le> 11 \<Longrightarrow> length (push_timestamp ts stamps) \<le> 11"
  by (simp add: push_timestamp_def Let_def)

lemma commit_changes_ok:
  assumes "state_ok st" "hash_to_height st (change_hash ch) = None \<or> hash_to_height st (change_hash ch) = Some h"
  shows "state_ok (commit_changes blk h a work ch st)"
proof -
  have "length (timestamps (commit_changes blk h a work ch st)) \<le> 11"
    using assms(1) by (auto simp: state_ok_def commit_changes_def Let_def length_push_timestamp split: action.split)
  then show ?thesis using assms by (fastforce simp: state_ok_def commit_changes_def Let_def)
qed

text \<open>C14. Applying a block keeps the in-memory index consistent on every path: the hash recorded at a
  height leads back to that height, every stored block and every amount of work has such a hash, and
  at most eleven time stamps are kept; for a block that is new or indexed at the same height.\<close>

theorem apply_preserves_index:
  assumes "state_ok (state c)" "header_hash e (header blk) = Inr hash" "hash_to_height (state c) hash \<in> {None, Some h}"
  shows "state_ok (state (fst (apply_block_action e n w blk h a best work ops c)))"
proof -
  obtain c' r where run: "apply_block_action e n w blk h a best work ops c = (c', r)" by fastforce
  have ch: "change_hash ch = hash" if "block_changes e n (chain_db d) (state d) blk h a ops = Inr ch" for ch and d :: chain
    using that assms(2) by (auto simp: block_changes_def Let_def result_simps)
  have "state_ok (state c')"
  proof (cases "state_lock c")
    case False
    from run [unfolded apply_block_action_def] False
    obtain d where d: "apply_locked e n w blk h a best work ops (c\<lparr>state_lock := True\<rparr>) = (d, r)" "state c' = state d"
      by (rule with_lockE) (cases "r = Inl Blocked", auto)
    show ?thesis
    proof (cases "batch_pending c \<or> read_only_mode c \<and> a = Connect")
      case True
      with d assms(1) show ?thesis by (auto simp: apply_locked_def split: if_splits)
    next
      case False
      have "state d = state c \<or> (\<exists>ch. block_changes e n (chain_db c) (state c) blk h a ops = Inr ch \<and> state d = commit_changes blk h a work ch (state c))"
        using apply_lockedE [OF d(1)] False by auto
      with assms d(2) ch [of c] commit_changes_ok show ?thesis by auto
    qed
  qed (use run assms(1) in simp)
  with run show ?thesis by simp
qed


section \<open>Starting\<close>

lemma apply_block_action_Inr:
  assumes "apply_block_action e n w blk h a best work ops c = (c', Inr ())"
  shows "\<exists>ch. block_changes e n (chain_db c) (state c) blk h a ops = Inr ch \<and>
    chain_db c' = db_write (change_ops ch) (chain_db c) \<and> state c' = commit_changes blk h a work ch (state c) \<and>
    \<not> batch_pending c' \<and> \<not> state_lock c'"
proof -
  have free: "\<not> state_lock c" using assms by (auto simp: apply_block_action_def)
  from assms [unfolded apply_block_action_def] free
  obtain d where d: "apply_locked e n w blk h a best work ops (c\<lparr>state_lock := True\<rparr>) = (d, Inr ())"
    "c' = d\<lparr>state_lock := False\<rparr>"
    by (rule with_lockE) auto
  then have "\<not> batch_pending c" "\<not> (read_only_mode c \<and> a = Connect)" by (auto simp: apply_locked_def split: if_splits)
  with apply_lockedE [OF d(1)] d(2) show ?thesis by auto
qed

lemma load_height_supply:
  assumes "try_fold (load_height e conn p) (empty_state, 0) hs = Inr (st, work)"
  shows "total_supply st = 0"
  using try_fold_invariant [OF assms, of "\<lambda>(st, _). total_supply st = 0"]
  by (fastforce simp: empty_state_def load_height_def Let_def result_simps split: if_splits)

lemma issued_positive: "0 \<in> set (heights_upto best)" "unat (subsidy 0) \<noteq> 0"
  by (auto simp: heights_upto_def subsidy_def checked_shr_def INITIAL_SUBSIDY_def MAX_SUBSIDY_HALVINGS_def
      intro!: image_eqI [of _ _ 0] simp del: upt_Suc)

lemma load_from_db_audit:
  assumes "load_from_db e n conn0 cps mp = Inr c" "recover_pending_reorgs e n conn0 = (conn, r)"
  shows "validate_state conn 0 = Inr () \<and> (\<exists>best audit. validate_supply_smart e conn best = Inr audit)"
  using assms by (auto simp: load_from_db_def result_simps dest: load_height_supply)

lemma smart_audit:
  assumes "validate_state conn 0 = Inr ()" "validate_supply_smart e conn best = Inr audit"
  shows "(db_get conn DB_KEY_UTXO_SET_HASH = None \<or> db_get conn DB_KEY_TOTAL_SUPPLY = None) \<and>
    validate_supply_full e conn best = Inr ()"
  using assms issued_positive
  by (auto simp: validate_state_def validate_supply_smart_def result_simps Let_def split: option.splits if_splits)

text \<open>\<^verbatim>\<open>main.rs\<close>: the stored chain is loaded, and a new one is made when that fails.\<close>

definition open_chain ::
  "('p, 'a) env_scheme \<Rightarrow> externals \<Rightarrow> world \<Rightarrow> rocksdb \<Rightarrow> block \<Rightarrow> (usize \<rightharpoonup> hash256) \<Rightarrow> mempool \<Rightarrow> chain result" where
  "open_chain e n w conn genesis checkpoints mp =
     (case load_from_db e n conn checkpoints mp of
        Inl (Err _) \<Rightarrow>
          unwrapped (chain_new e n w (fst (recover_pending_reorgs e n conn)) genesis checkpoints mp)
      | r \<Rightarrow> r)"


lemma manager_db_lacks_anonymous: "manager_create disk = Inr conn \<Longrightarrow> cf_handle conn ''anonymous'' = None"
  by (auto simp: manager_create_def manager_cfs_def cf_handle_def split: if_splits)

lemma recover_all_cfs: "recover_all e n entries conn = (conn', r) \<Longrightarrow> cfs conn' = cfs conn"
proof (induction entries arbitrary: conn)
  case (Cons x entries)
  have "cfs d = cfs conn" if "recover_journal e n conn x = Inr d" for d
    using that by (auto simp: recover_journal_def result_simps db_del_def split: if_splits prod.splits)
  with Cons show ?case by (auto split: sum.splits)
qed simp

lemma chain_new_Inr:
  assumes "chain_new e n w conn genesis cps mp = Inr c"
  shows "\<exists>work d. chain_db d = conn \<and> apply_block_action e n w genesis 0 Connect True work [] d = (c, Inr ())"
proof -
  obtain hash target where ok: "header_hash e (header genesis) = Inr hash" "compact_to_target (hdr_bits (header genesis)) = Inr target"
    using assms by (auto simp: chain_new_def result_simps)
  let ?d = "\<lparr>chain_db = conn, state = empty_state, best_tip = zero_hash, best_height = 0, orphan_blocks = [],
    genesis_hash = hash, batch_pending = False, read_only_mode = False, state_lock = False,
    checkpoint_hashes = cps, chain_mempool = mp, mempool_lock = False\<rparr>"
  have "apply_block_action e n w genesis 0 Connect True (block_work target) [] ?d = (c, Inr ())"
    using assms by (auto simp: chain_new_def ok result_simps split: prod.splits)
  then show ?thesis by (intro exI [of _ "block_work target"] exI [of _ ?d]) simp
qed

lemma opened_db_not_loaded:
  assumes "manager_create disk = Inr conn"
  shows "load_from_db e n conn cps mp \<noteq> Inr c" "recover_pending_reorgs e n conn = (conn', r) \<Longrightarrow> cf_handle conn' ''anonymous'' = None"
proof -
  have no_cf: "cf_handle conn' ''anonymous'' = None" if "recover_pending_reorgs e n conn = (conn', r)" for conn' r
    using that manager_db_lacks_anonymous [OF assms] recover_all_cfs [of e n _ conn conn' r]
    by (simp add: recover_pending_reorgs_def cf_handle_def)
  then show "recover_pending_reorgs e n conn = (conn', r) \<Longrightarrow> cf_handle conn' ''anonymous'' = None" .
  obtain d r' where rec: "recover_pending_reorgs e n conn = (d, r')" by fastforce
  show "load_from_db e n conn cps mp \<noteq> Inr c"
  proof
    assume "load_from_db e n conn cps mp = Inr c"
    from load_from_db_audit [OF this rec] smart_audit no_cf [OF rec] show False
      by (fastforce simp: validate_supply_full_def result_simps)
  qed
qed

text \<open>The database is opened with column families that lack \<^verbatim>\<open>anonymous\<close>:
  neither loading the chain nor making a new one succeeds, so the node cannot start.\<close>

theorem node_never_starts:
  assumes "manager_create disk = Inr conn"
  shows "\<exists>f. open_chain e n w conn genesis cps mp = Inl f"
proof -
  obtain conn' r where rec: "recover_pending_reorgs e n conn = (conn', r)" by fastforce
  note no_cf = opened_db_not_loaded(2) [OF assms rec]
  note load = opened_db_not_loaded(1) [OF assms, of e n cps mp]
  have new: "chain_new e n w conn' genesis cps mp \<noteq> Inr c" for c
  proof
    assume "chain_new e n w conn' genesis cps mp = Inr c"
    then obtain work d where d: "chain_db d = conn'" "apply_block_action e n w genesis 0 Connect True work [] d = (c, Inr ())"
      using chain_new_Inr by blast
    from apply_block_action_Inr [OF d(2)] d(1) no_cf show False
      by (auto simp: block_changes_def block_cfs_def result_simps)
  qed
  show ?thesis
    using load new unfolding open_chain_def rec unwrapped_def
    by (cases "load_from_db e n conn cps mp"; cases "chain_new e n w conn' genesis cps mp") (auto split: fault.splits)
qed

lemma index_ops_keys:
  "op_key ` set (index_ops e blk h a) \<subseteq> insert (hdr_key h) (Pair ''tx_index'' ` tx_hash e ` set (txs blk))"
  by (auto simp: index_ops_def in_set_enumerate_eq split: action.splits)

lemma summary_keys_distinct [simp]:
  "DB_KEY_UTXO_SET_HASH \<noteq> hdr_key h" "DB_KEY_TOTAL_SUPPLY \<noteq> hdr_key h"
  "DB_KEY_UTXO_SET_HASH \<noteq> (''tx_index'', k)" "DB_KEY_TOTAL_SUPPLY \<noteq> (''tx_index'', k)" "hdr_key h \<noteq> (''tx_index'', k)"
  "DB_KEY_UTXO_SET_HASH \<noteq> DB_KEY_TOTAL_SUPPLY" "DB_KEY_UTXO_SET_HASH \<noteq> DB_KEY_STATE_TOTAL_SUPPLY"
  "DB_KEY_TOTAL_SUPPLY \<noteq> DB_KEY_STATE_TOTAL_SUPPLY" "hdr_key h \<noteq> DB_KEY_STATE_TOTAL_SUPPLY"
  "DB_KEY_STATE_TOTAL_SUPPLY \<noteq> (''tx_index'', k)"
  by (simp_all add: DB_KEY_UTXO_SET_HASH_def DB_KEY_TOTAL_SUPPLY_def DB_KEY_STATE_TOTAL_SUPPLY_def hdr_key_def ascii_def)

lemma block_changes_db:
  assumes "block_changes e n conn st blk h a ops = Inr ch" "db_ok conn"
  defines "conn' \<equiv> db_write (change_ops ch) conn"
  shows "db_get conn' DB_KEY_UTXO_SET_HASH = Some (change_set_hash ch) \<and> db_get conn' DB_KEY_TOTAL_SUPPLY \<noteq> None \<and>
    (a = Connect \<longrightarrow> db_get conn' (hdr_key h) = Some (ser_header e (header blk)))"
proof -
  obtain acc' total where acc': "apply_utxo_changes e conn (utxo_set_hash st) (total_supply st) blk h a ops = Inr acc'"
    "change_ops ch = batch acc' @ index_ops e blk h a @ [Put DB_KEY_STATE_TOTAL_SUPPLY (u64_le total)]"
    "change_set_hash ch = current_set_hash acc'"
    using assms(1) by (auto simp: block_changes_def Let_def result_simps)
  from acc'(1) obtain acc where "acc' = acc\<lparr>batch := batch acc @ [Put DB_KEY_UTXO_SET_HASH (current_set_hash acc),
      Put DB_KEY_TOTAL_SUPPLY (u64_be (current_supply acc))]\<rparr>"
    by (auto simp: apply_utxo_changes_def result_simps)
  with acc' have ops: "change_ops ch = batch acc @ [Put DB_KEY_UTXO_SET_HASH (change_set_hash ch),
      Put DB_KEY_TOTAL_SUPPLY (u64_be (current_supply acc))] @ index_ops e blk h a @
      [Put DB_KEY_STATE_TOTAL_SUPPLY (u64_le total)]"
    by simp
  let ?d = "db_write (batch acc) conn"
  let ?d' = "db_put DB_KEY_TOTAL_SUPPLY (u64_be (current_supply acc)) (db_put DB_KEY_UTXO_SET_HASH (change_set_hash ch) ?d)"
  have ok: "db_ok ?d'" using assms(2) by (simp add: db_ok_write rdb.invar_put)
  have conn': "conn' = db_put DB_KEY_STATE_TOTAL_SUPPLY (u64_le total) (db_write (index_ops e blk h a) ?d')"
    by (simp add: conn'_def ops db_write_append)
  have frame: "db_get conn' k = db_get ?d' k" if "k \<noteq> hdr_key h" "fst k \<noteq> ''tx_index''" "k \<noteq> DB_KEY_STATE_TOTAL_SUPPLY" for k
  proof -
    have "k \<notin> op_key ` set (index_ops e blk h a)" using that index_ops_keys [of e blk h a] by force
    then show ?thesis using that ok by (simp add: conn' db_get_put db_ok_write db_get_write_frame)
  qed
  have "db_get conn' (hdr_key h) = Some (ser_header e (header blk))" if "a = Connect"
  proof -
    let ?xs = "map (\<lambda>(idx, tx). Put (''tx_index'', tx_hash e tx) (ser_index e (h, of_nat idx))) (enumerate 0 (txs blk))"
    have "hdr_key h \<notin> op_key ` set ?xs" by auto
    then show ?thesis
      using ok that by (simp add: conn' index_ops_def db_get_put rdb.invar_put db_ok_write db_get_write_frame)
  qed
  moreover have "fst DB_KEY_UTXO_SET_HASH \<noteq> ''tx_index''" "fst DB_KEY_TOTAL_SUPPLY \<noteq> ''tx_index''"
    by (simp_all add: DB_KEY_UTXO_SET_HASH_def DB_KEY_TOTAL_SUPPLY_def)
  ultimately show ?thesis using assms(2) by (simp add: frame db_get_put rdb.invar_put db_ok_write)
qed

text \<open>Once a block has been applied, the chain cannot be loaded from the database again: the audits at
  the start compare the stored supply with zero and with the sum of the subsidies.\<close>

theorem applied_chain_cannot_restart:
  assumes "apply_block_action e n w blk h a best work ops c = (c', Inr ())" "db_ok (chain_db c)"
    "recover_pending_reorgs e n (chain_db c') = (chain_db c', r)"
  shows "load_from_db e n (chain_db c') cps mp \<noteq> Inr c''"
proof
  assume "load_from_db e n (chain_db c') cps mp = Inr c''"
  from load_from_db_audit [OF this assms(3)]
  have "db_get (chain_db c') DB_KEY_UTXO_SET_HASH = None \<or> db_get (chain_db c') DB_KEY_TOTAL_SUPPLY = None"
    by (auto dest: smart_audit)
  with apply_block_action_Inr [OF assms(1)] block_changes_db [OF _ assms(2)] show False by fastforce
qed

text \<open>C13. A block that was connected is found again: its header by height in the database, the block and
  its hash by height and its height by hash in memory, its work added to that of the block below, and
  the stored set hash equals the one in memory; the pending mark and the lock are free.\<close>

theorem applied_block_recorded:
  assumes "apply_block_action e n w blk h Connect best work ops c = (c', Inr ())" "db_ok (chain_db c)" "bincode_ok e"
  shows "load_header e (chain_db c') h = Inr (header blk) \<and> blocks (state c') h = Some blk \<and>
    (\<exists>hash. header_hash e (header blk) = Inr hash \<and> height_to_hash (state c') h = Some hash \<and>
       hash_to_height (state c') hash = Some h) \<and>
    work_at c' h = work_at c (h - 1) + work \<and>
    db_get (chain_db c') DB_KEY_UTXO_SET_HASH = Some (utxo_set_hash (state c')) \<and> \<not> batch_pending c' \<and> \<not> state_lock c'"
proof -
  obtain ch where ch: "block_changes e n (chain_db c) (state c) blk h Connect ops = Inr ch"
    "chain_db c' = db_write (change_ops ch) (chain_db c)" "state c' = commit_changes blk h Connect work ch (state c)"
    "\<not> batch_pending c'" "\<not> state_lock c'"
    using apply_block_action_Inr [OF assms(1)] by auto
  have "header_hash e (header blk) = Inr (change_hash ch)"
    using ch(1) by (auto simp: block_changes_def Let_def result_simps)
  with ch block_changes_db [OF ch(1) assms(2)] assms(3) show ?thesis
    by (auto simp: load_header_def bincode_ok_def commit_changes_def Let_def work_at_def split: option.splits)
qed

section \<open>Data for the witnesses\<close>

definition put_journal :: "reorg_journal \<Rightarrow> bytes" where
  "put_journal j = put_bytes (ascii (journal_id j)) @ u64_le (old_tip_height j) @ put_bytes (old_tip_hash j) @
     u64_le (disconnect_depth j) @ put_header (header (new_block j)) @ put_list put_tx (txs (new_block j))"

definition get_journal :: "bytes \<Rightarrow> reorg_journal option" where
  "get_journal bs =
     Option.bind (get_bytes bs) (\<lambda>(i, bs). Option.bind (get_u64 bs) (\<lambda>(h, bs).
     Option.bind (get_bytes bs) (\<lambda>(t, bs). Option.bind (get_u64 bs) (\<lambda>(d, bs).
     Option.bind (get_header bs) (\<lambda>(hd, bs). Option.bind (get_all get_tx bs) (\<lambda>(ts, bs).
       Some \<lparr>journal_id = map (\<lambda>b. char_of (unat b)) i, old_tip_height = h, old_tip_hash = t, disconnect_depth = d,
             new_block = \<lparr>header = hd, txs = ts\<rparr>\<rparr>))))))"

lemma get_journal_put: "get_journal (put_journal j) = Some j"
proof -
  have "get_all get_tx (put_list put_tx ts) = Some (ts, [])" for ts
    using get_all_put_list [of get_tx put_tx ts "[]"] by (simp add: codec_simps)
  moreover have "map (\<lambda>b. char_of (unat b)) (ascii s) = s" for s :: string
    by (induction s) (simp_all add: ascii_def unat_of_nat)
  ultimately show ?thesis by (simp add: get_journal_def put_journal_def codec_simps)
qed

definition easy_chain :: chain where
  "easy_chain =
     \<lparr>chain_db = header_db 0,
      state = \<lparr>blocks = Map.empty, height_to_hash = [0 \<mapsto> replicate 32 1], hash_to_height = [replicate 32 1 \<mapsto> 0],
        cumulative_work = Map.empty, timestamps = [], utxo_set_hash = zero_hash, total_supply = 0\<rparr>,
      best_tip = replicate 32 1, best_height = 0, orphan_blocks = [], genesis_hash = replicate 32 1,
      batch_pending = False, read_only_mode = False, state_lock = False, checkpoint_hashes = Map.empty,
      chain_mempool = mempool_new 0, mempool_lock = False\<rparr>"

definition easy_ext :: externals where
  "easy_ext = \<lparr>load_supply_from_db = (\<lambda>_. Inr 0), free_block_ops = (\<lambda>d. build_block_ops easy_env d (state easy_chain)),
     ser_journal = put_journal, de_journal = get_journal\<rparr>"

definition easy_world :: world where
  "easy_world = \<lparr>clock_ms = Some 10000, instant = 0, write_ok = True, write_landed = True, rollback_ok = []\<rparr>"

lemma easy_fields [simp]:
  "chain_db easy_chain = header_db 0" "best_height easy_chain = 0" "best_tip easy_chain = replicate 32 1"
  "orphan_blocks easy_chain = []" "\<not> batch_pending easy_chain" "\<not> read_only_mode easy_chain" "\<not> state_lock easy_chain" "\<not> mempool_lock easy_chain"
  "checkpoint_hashes easy_chain = Map.empty" "pool (chain_mempool easy_chain) = []" "clock_ms easy_world = Some 10000"
  "write_ok easy_world" "hash_to_height (state easy_chain) = [replicate 32 1 \<mapsto> 0]"
  "utxo_set_hash (state easy_chain) = zero_hash" "total_supply (state easy_chain) = 0"
  "load_supply_from_db easy_ext d = Inr 0"
  by (simp_all add: easy_chain_def easy_world_def mempool_new_def easy_ext_def)

lemma easy_block_fields [simp]:
  "txs easy_block = [paid_coinbase]" "hdr_bits (header easy_block) = 0x1d00ffff"
  "prev_hash (header easy_block) = replicate 32 1" "is_coinbase paid_coinbase"
  by (simp_all add: easy_block_def demo_header_def paid_coinbase_def create_coinbase_def is_coinbase_def)

lemma easy_target: "\<exists>target. compact_to_target 0x1d00ffff = Inr target \<and> target < TWO_POW_256"
  by (simp add: compact_to_target_eq Let_def TWO_POW_256_def push_bit_eq_mult)

lemma header_db_ok [simp]: "db_ok (header_db h)"
  by (simp add: header_db_def rdb.invar_put demo_db_ok)

lemma easy_bincode [simp]: "bincode_ok easy_env"
  using demo_env_bincode_ok by (simp add: bincode_ok_def easy_env_def)

lemma easy_cfs: "cfs d = cfs demo_db \<Longrightarrow> block_cfs d = Inr ()"
  by (simp add: block_cfs_def cf_handle_def demo_db_def)

lemma header_db_cfs [simp]: "cfs (header_db h) = cfs demo_db"
  by (simp add: header_db_def db_put_def)

definition easy_acc :: utxo_acc where
  "easy_acc = (let k = (''coinbase'', tx_hash easy_env paid_coinbase)
     in \<lparr>batch = [Put k (u64_be 1), Put DB_KEY_UTXO_SET_HASH zero_hash, Put DB_KEY_TOTAL_SUPPLY (u64_be 0)],
         rollback_ops = [(k, None)], current_set_hash = zero_hash, current_supply = 0\<rparr>)"

lemma easy_utxo:
  "cfs d = cfs demo_db \<Longrightarrow> apply_utxo_changes easy_env d zero_hash 0 easy_block 1 Connect [] = Inr easy_acc"
  by (simp add: apply_utxo_changes_def handle_utxo_action_def coinbase_action_def cf_handle_def demo_db_def
      record_ops_def easy_acc_def Let_def)

lemma easy_build:
  "cfs d = cfs demo_db \<Longrightarrow> \<exists>ops. build_block_ops easy_env d (state easy_chain) easy_block 1 Connect [] = Inr ops"
  by (simp add: build_block_ops_def easy_cfs easy_hash easy_utxo)

lemma easy_added:
  "\<exists>c'. add_block easy_env easy_ext easy_world easy_block easy_chain = (c', Inr True) \<and> best_height c' = 1 \<and>
     load_block_from_db easy_env (chain_db c') 1 = Inr easy_block"
proof -
  obtain target where t: "compact_to_target 0x1d00ffff = Inr target" "target < TWO_POW_256" using easy_target by auto
  obtain ops where ops: "build_block_ops easy_env (header_db 0) (state easy_chain) easy_block 1 Connect [] = Inr ops"
    using easy_build [of "header_db 0"] by auto
  show ?thesis
    using add_block_tip [of easy_chain easy_env easy_block zero_hash easy_world target ops easy_ext] t ops easy_block_accepted
    by (simp add: easy_hash)
qed

theorem add_block_extends_tip_witness:
  "\<exists>c'. add_block easy_env easy_ext easy_world easy_block easy_chain = (c', Inr True) \<and> best_height c' = 1 \<and>
     load_block_from_db easy_env (chain_db c') 1 = Inr easy_block"
proof -
  obtain target where t: "compact_to_target 0x1d00ffff = Inr target" "target < TWO_POW_256" using easy_target by auto
  obtain ops where ops: "build_block_ops easy_env (header_db 0) (state easy_chain) easy_block 1 Connect [] = Inr ops"
    using easy_build [of "header_db 0"] by auto
  show ?thesis
    using add_block_extends_tip [of easy_chain easy_env easy_block zero_hash easy_world target ops easy_ext] t ops
      easy_block_accepted
    by (simp add: easy_hash)
qed

theorem add_block_safe_witness:
  "\<exists>c' p. add_block easy_env easy_ext easy_world easy_block easy_chain = (c', Inr True) \<and>
     state c' = state easy_chain \<and> best_height c' = p + 1 \<and> heavier easy_env easy_world easy_chain easy_block p"
proof -
  obtain c' where c': "add_block easy_env easy_ext easy_world easy_block easy_chain = (c', Inr True)" "best_height c' = 1"
    using easy_added by auto
  from add_block_safe [OF c'(1)] c' show ?thesis by auto
qed

definition easy_child :: block where
  "easy_child = easy_block\<lparr>header := (header easy_block)\<lparr>prev_hash := zero_hash\<rparr>\<rparr>"

theorem accepted_block_has_no_children_witness:
  "\<exists>c' c''. add_block easy_env easy_ext easy_world easy_block easy_chain = (c', Inr True) \<and>
     header_hash easy_env (header easy_block) = Inr (prev_hash (header easy_child)) \<and>
     add_block easy_env easy_ext easy_world easy_child c' = (c'', Inr False)"
proof -
  obtain c' where c': "add_block easy_env easy_ext easy_world easy_block easy_chain = (c', Inr True)"
    using easy_added by auto
  moreover have prev: "prev_hash (header easy_child) = zero_hash" by (simp add: easy_child_def)
  ultimately show ?thesis
    using accepted_block_has_no_children [OF c', of easy_child zero_hash easy_world] by (simp add: easy_hash)
qed

theorem orphan_pool_bounded_witness:
  "length (orphan_blocks (fst (add_block easy_env easy_ext easy_world easy_child
     (easy_chain\<lparr>orphan_blocks := replicate 500 (zero_hash, easy_block, 0)\<rparr>)))) \<le> 500"
  using orphan_pool_bounded [of "easy_chain\<lparr>orphan_blocks := replicate 500 (zero_hash, easy_block, 0)\<rparr>" easy_env easy_ext easy_world easy_child]
  by simp

definition side_chain :: chain where
  "side_chain = easy_chain\<lparr>best_height := 1, state := (state easy_chain)\<lparr>cumulative_work := [1 \<mapsto> TWO_POW_256]\<rparr>\<rparr>"

theorem side_block_freezes_node_witness:
  "\<exists>c'. add_block easy_env easy_ext easy_world easy_block side_chain = (c', Inl Blocked) \<and>
    (\<forall>w' blk'. add_block easy_env easy_ext w' blk' c' = (c', Inl Blocked))"
proof -
  obtain target where t: "compact_to_target 0x1d00ffff = Inr target" using easy_target by auto
  have "block_work target \<le> TWO_POW_256" by (simp add: block_work_def)
  then show ?thesis
    using side_block_freezes_node [of side_chain easy_env easy_block zero_hash 0 easy_world target easy_ext] t easy_block_accepted [of 1]
    by (simp add: side_chain_def easy_hash work_at_def)
qed

lemma header_db_scan: "prefix_scan (tables (header_db h) default_cf) journal_prefix = []"
proof -
  have "header_db h = db_write [Put (hdr_key h) (ser_header demo_env demo_header)] demo_db" by (simp add: header_db_def)
  then show ?thesis
    using prefix_scan_write [OF demo_db_ok, of "[Put (hdr_key h) (ser_header demo_env demo_header)]"]
    by (simp add: default_cf_keys) (simp add: demo_db_def prefix_scan_def)
qed

definition forked_chain :: chain where
  "forked_chain = easy_chain\<lparr>best_height := 1,
     chain_db := db_put (block_key zero_hash) (ser_block easy_env easy_block) (db_put (height_key 1) zero_hash (header_db 0))\<rparr>"

lemma forked_db: "db_ok (chain_db forked_chain)" "cfs (chain_db forked_chain) = cfs demo_db"
    "prefix_scan (tables (chain_db forked_chain) default_cf) journal_prefix = []"
    "load_block_from_db easy_env (chain_db forked_chain) 1 = Inr easy_block"
proof -
  have "\<not> prefix journal_prefix (snd (height_key 1))" "\<not> prefix journal_prefix (snd (block_key zero_hash))"
    by (auto simp: journal_prefix_def height_key_def block_key_def ascii_def elim!: prefixE)
  then show "prefix_scan (tables (chain_db forked_chain) default_cf) journal_prefix = []"
    using prefix_scan_write [OF header_db_ok, of "[Put (height_key 1) zero_hash, Put (block_key zero_hash) (ser_block easy_env easy_block)]"]
    by (simp add: header_db_scan forked_chain_def)
  have "height_key 1 \<noteq> block_key zero_hash" by (simp add: height_key_def block_key_def ascii_def)
  moreover have "de_block easy_env (ser_block easy_env easy_block) = Some easy_block" using easy_bincode by (simp only: bincode_ok_def)
  ultimately show "load_block_from_db easy_env (chain_db forked_chain) 1 = Inr easy_block"
    by (simp add: load_block_from_db_def forked_chain_def db_get_put rdb.invar_put)
  show "cfs (chain_db forked_chain) = cfs demo_db" by (simp add: forked_chain_def db_put_def)
qed (simp add: forked_chain_def rdb.invar_put)

lemma easy_actions:
  "cfs d = cfs demo_db \<Longrightarrow> \<exists>ops'. build_block_ops easy_env d (state easy_chain) easy_block h a ops = Inr ops'"
  by (cases a) (simp_all add: build_block_ops_def easy_cfs easy_hash apply_utxo_changes_def handle_utxo_action_def coinbase_action_def
      cf_handle_def demo_db_def Let_def)

lemma forked_reorganises: "\<exists>c'. reorganise easy_env easy_ext easy_world easy_block 0 1 0 forked_chain = (c', Inr True)"
proof -
  note build = easy_actions [OF forked_db(2)]
  have st: "state forked_chain = state easy_chain" "best_height forked_chain = 1" by (simp_all add: forked_chain_def)
  obtain ops where "build_block_ops easy_env (chain_db forked_chain) (state easy_chain) easy_block 1 Disconnect [] = Inr ops" using build by blast
  moreover obtain ops' where "build_block_ops easy_env (chain_db forked_chain) (state easy_chain) easy_block 1 Connect ops = Inr ops'" using build by blast
  ultimately have "reorg_ops easy_env easy_block 0 forked_chain = Inr ops'"
    by (simp add: reorg_ops_def disconnect_ops_def st forked_db(4))
  moreover have "\<not> saturating_sub (best_height forked_chain) 0 > REORG_MAX_DEPTH"
    by (simp add: st saturating_sub_def REORG_MAX_DEPTH_def)
  ultimately show ?thesis
    using reorganise_guarded [OF forked_db(1), of easy_world 10000 0 1 0 easy_env easy_ext easy_block] by auto
qed



theorem failed_apply_is_permanent_witness:
  "\<exists>c'. apply_block_action easy_env easy_ext easy_world easy_block 1 Connect True 0 []
       (easy_chain\<lparr>chain_db := demo_db\<lparr>cfs := []\<rparr>\<rparr>) = (c', bail (Anyhow ''UTXO CF missing'')) \<and>
     apply_block_action easy_env easy_ext easy_world easy_block 1 Connect True 0 [] c' =
       (c', bail (Anyhow ''Batch pending, cannot apply action''))"
proof -
  have "\<exists>c'. apply_block_action easy_env easy_ext easy_world easy_block 1 Connect True 0 []
      (easy_chain\<lparr>chain_db := demo_db\<lparr>cfs := []\<rparr>\<rparr>) = (c', bail (Anyhow ''UTXO CF missing''))"
    by (simp add: apply_block_action_def with_lock_def apply_locked_def block_changes_def block_cfs_def cf_handle_def)
  then obtain c' where c': "apply_block_action easy_env easy_ext easy_world easy_block 1 Connect True 0 []
      (easy_chain\<lparr>chain_db := demo_db\<lparr>cfs := []\<rparr>\<rparr>) = (c', bail (Anyhow ''UTXO CF missing''))" ..
  with failed_apply_is_permanent [OF c'] show ?thesis by auto
qed

theorem apply_preserves_index_witness:
  "state_ok (state easy_chain) \<and>
   state_ok (state (fst (apply_block_action easy_env easy_ext easy_world easy_block 1 Connect True 0 [] easy_chain)))"
proof -
  have "state_ok (state easy_chain)" by (simp add: state_ok_def easy_chain_def)
  with apply_preserves_index [OF this, of easy_env easy_block zero_hash 1] show ?thesis by (simp add: easy_hash)
qed

theorem node_never_starts_witness:
  "\<exists>conn f. manager_create \<lparr>cfs = [], tables = (\<lambda>_. [])\<rparr> = Inr conn \<and>
     open_chain easy_env easy_ext easy_world conn easy_block Map.empty (mempool_new 0) = Inl f"
proof -
  have "manager_create \<lparr>cfs = [], tables = (\<lambda>_. [])\<rparr> = Inr \<lparr>cfs = default_cf # manager_cfs, tables = (\<lambda>_. [])\<rparr>"
    by (simp add: manager_create_def)
  with node_never_starts [OF this, of easy_env easy_ext easy_world easy_block Map.empty "mempool_new 0"] show ?thesis by auto
qed

lemma easy_applied:
  "\<exists>c'. apply_block_action easy_env easy_ext easy_world easy_block 1 Connect True 7 [] easy_chain = (c', Inr ()) \<and>
     prefix_scan (tables (chain_db c') default_cf) journal_prefix = []"
proof -
  let ?ops = "batch easy_acc @ index_ops easy_env easy_block 1 Connect @ [Put DB_KEY_STATE_TOTAL_SUPPLY (u64_le (subsidy 1))]"
  have "\<exists>c'. apply_block_action easy_env easy_ext easy_world easy_block 1 Connect True 7 [] easy_chain = (c', Inr ()) \<and>
      chain_db c' = db_write ?ops (header_db 0)"
    by (simp add: apply_block_action_def with_lock_def apply_locked_def block_changes_def easy_cfs easy_hash easy_utxo
        easy_acc_def Let_def PRUNE_DEPTH_def)
  moreover have "prefix_scan (tables (db_write ?ops (header_db 0)) default_cf) journal_prefix = []"
  proof -
    have "\<forall>x\<in>set ?ops. fst (op_key x) = default_cf \<longrightarrow> \<not> prefix journal_prefix (snd (op_key x))"
      by (auto simp: easy_acc_def index_ops_def Let_def default_cf_keys)
    from prefix_scan_write [OF header_db_ok this] show ?thesis by (simp add: header_db_scan)
  qed
  ultimately show ?thesis by auto
qed

theorem applied_chain_cannot_restart_witness:
  "\<exists>c'. apply_block_action easy_env easy_ext easy_world easy_block 1 Connect True 7 [] easy_chain = (c', Inr ()) \<and>
     (\<forall>c''. load_from_db easy_env easy_ext (chain_db c') Map.empty (mempool_new 0) \<noteq> Inr c'')"
proof -
  obtain c' where c': "apply_block_action easy_env easy_ext easy_world easy_block 1 Connect True 7 [] easy_chain = (c', Inr ())"
    "prefix_scan (tables (chain_db c') default_cf) journal_prefix = []"
    using easy_applied by auto
  then have "recover_pending_reorgs easy_env easy_ext (chain_db c') = (chain_db c', Inr ())"
    by (simp add: recover_pending_reorgs_def)
  with applied_chain_cannot_restart [OF c'(1)] c'(1) show ?thesis by auto
qed

theorem applied_block_recorded_witness:
  "\<exists>c'. apply_block_action easy_env easy_ext easy_world easy_block 1 Connect True 7 [] easy_chain = (c', Inr ()) \<and>
     load_header easy_env (chain_db c') 1 = Inr (header easy_block) \<and> hash_to_height (state c') zero_hash = Some 1 \<and>
     work_at c' 1 = 7"
proof -
  obtain c' where c': "apply_block_action easy_env easy_ext easy_world easy_block 1 Connect True 7 [] easy_chain = (c', Inr ())"
    using easy_applied by auto
  have "work_at easy_chain 0 = 0" by (simp add: work_at_def easy_chain_def)
  with applied_block_recorded [OF c'] c' show ?thesis by (auto simp: easy_hash)
qed

end
