(* ===== verification/Queries.thy ===== *)
theory Queries
  imports Chain Keys
begin

text \<open>
  Reading the stored chain from \<^verbatim>\<open>main.rs\<close>: the look-ups the wallet shares
  (\<^verbatim>\<open>get_block_timestamp\<close>, \<^verbatim>\<open>height_from_txid\<close>, \<^verbatim>\<open>query_addr_index\<close>), the
  balance of an address in the command line and the RPC server, and the explorer commands.  What a command
  prints is its result.  Parsing of hexadecimal text is a parameter.
\<close>

section \<open>Opening the chain for a command\<close>

definition load_chain_readonly ::
  "('p, 'a) env_scheme \<Rightarrow> externals \<Rightarrow> rocksdb \<Rightarrow> (usize \<rightharpoonup> hash256) \<Rightarrow> chain result" where
  "load_chain_readonly e n disk checkpoints =
     rbind (manager_create disk) (\<lambda>conn. load_from_db e n conn checkpoints (mempool_new 1))"

definition init_db :: "'a codec_scheme \<Rightarrow> rocksdb \<Rightarrow> bytes \<Rightarrow> rocksdb result" where
  "init_db e disk pk =
     rbind (manager_create disk) (\<lambda>conn.
     rbind (case create_genesis_block e pk of Inr genesis \<Rightarrow> Inr genesis | Inl (Err _) \<Rightarrow> Inl Panic | Inl f \<Rightarrow> Inl f) (\<lambda>genesis.
     rbind (header_hash e (header genesis)) (\<lambda>hash.
     Inr (db_put DB_KEY_GENESIS_HASH hash conn))))"

section \<open>Look-ups\<close>

definition get_block_timestamp :: "'a codec_scheme \<Rightarrow> rocksdb \<Rightarrow> usize \<Rightarrow> u32 result" where
  "get_block_timestamp e conn height =
     rbind (or_err (db_get conn (height_key height)) (Anyhow ''Block hash not found'')) (\<lambda>hash_bytes.
     rbind (or_err (db_get conn (block_key hash_bytes)) (Anyhow ''Block not found'')) (\<lambda>block_bytes.
     rbind (or_err (de_block e block_bytes) Bincode) (\<lambda>blk. Inr (timestamp (header blk)))))"

definition height_from_txid :: "'a codec_scheme \<Rightarrow> rocksdb \<Rightarrow> hash256 \<Rightarrow> usize result" where
  "height_from_txid e conn txid =
     rbind (or_err (cf_handle conn ''tx_index'') (Anyhow ''tx_index CF missing'')) (\<lambda>cf.
     rbind (or_err (db_get conn (cf, txid)) (Anyhow ''Tx not found in index'')) (\<lambda>dat.
     rbind (or_err (de_index e dat) Bincode) (\<lambda>(height, _). Inr height)))"

definition addr_prefix :: "bytes \<Rightarrow> bytes" where
  "addr_prefix pkh = ascii ''addr:'' @ pkh"

definition addr_rows :: "rocksdb \<Rightarrow> bytes \<Rightarrow> table" where
  "addr_rows conn pkh = prefix_scan (tables conn ''addr_index'') (addr_prefix pkh)"

definition u64_value :: "bytes \<Rightarrow> u64 result" where
  "u64_value v = (if length v = 8 then Inr (u64_from_be v) else bail (Anyhow ''TryFromSliceError''))"

definition query_row :: "bytes \<times> bytes \<Rightarrow> (hash256 \<times> u32 \<times> u64) result" where
  "query_row = (\<lambda>(key, val).
     rbind (slice key 5 37) (\<lambda>txid.
     rbind (slice key 37 41) (\<lambda>vout.
     rbind (u64_value val) (\<lambda>amount. Inr (txid, u32_from_be vout, amount)))))"

fun try_map :: "('a \<Rightarrow> 'e + 'b) \<Rightarrow> 'a list \<Rightarrow> 'e + 'b list" where
  "try_map f [] = Inr []"
| "try_map f (x # xs) = rbind (f x) (\<lambda>y. rbind (try_map f xs) (\<lambda>ys. Inr (y # ys)))"

definition query_addr_index :: "rocksdb \<Rightarrow> bytes \<Rightarrow> (hash256 \<times> u32 \<times> u64) list result" where
  "query_addr_index conn pkh =
     rbind (unwrap (cf_handle conn ''addr_index'')) (\<lambda>_. try_map query_row (addr_rows conn pkh))"

section \<open>Balances\<close>

definition rpc_balance :: "rocksdb \<Rightarrow> bytes \<Rightarrow> u64" where
  "rpc_balance conn pkh =
     fold (\<lambda>(_, val) balance.
       if length val = 8
       then case checked_add balance (u64_from_be val) of Some b \<Rightarrow> b | None \<Rightarrow> balance
       else balance) (addr_rows conn pkh) 0"

definition cli_balance :: "base58 \<Rightarrow> rocksdb \<Rightarrow> string \<Rightarrow> u64 result" where
  "cli_balance b conn addr =
     rbind (address_to_pubkey_hash b addr) (\<lambda>pkh.
     rbind (or_err (cf_handle conn ''addr_index'') (Anyhow ''CF addr_index missing'')) (\<lambda>_.
     try_fold (\<lambda>balance (_, val). rbind (u64_value val) (\<lambda>amount. unwrap (checked_add balance amount)))
       0 (addr_rows conn pkh)))"

section \<open>Explorer\<close>

definition explorer_block ::
  "('p, 'a) env_scheme \<Rightarrow> (string \<Rightarrow> bytes option) \<Rightarrow> (string \<Rightarrow> usize option) \<Rightarrow> chain \<Rightarrow> string \<Rightarrow> (usize \<times> block) result" where
  "explorer_block e hex_decode parse_usize c arg =
     rbind
       (if length arg = 64
        then rbind (or_err (hex_decode arg) (Anyhow ''Invalid hex'')) (\<lambda>hash.
          rbind (bail_if (length hash \<noteq> 32) (Anyhow ''Invalid hash length'')) (\<lambda>_.
          case hash_to_height (state c) hash of
            Some h \<Rightarrow> load_block_from_db e (chain_db c) h
          | None \<Rightarrow> bail (Anyhow ''Block not found'')))
        else rbind (or_err (parse_usize arg) (Anyhow ''Invalid height'')) (load_block_from_db e (chain_db c))) (\<lambda>blk.
     rbind (header_hash e (header blk)) (\<lambda>hash.
     Inr (case hash_to_height (state c) hash of Some h \<Rightarrow> h | None \<Rightarrow> 0, blk)))"

fun search_blocks :: "'a codec_scheme \<Rightarrow> rocksdb \<Rightarrow> hash256 \<Rightarrow> usize list \<Rightarrow> unit result" where
  "search_blocks e conn txid [] = Inr ()"
| "search_blocks e conn txid (h # hs) =
     rbind (load_block_from_db e conn h) (\<lambda>blk.
     if \<exists>tx\<in>set (txs blk). tx_hash e tx = txid then Inr () else search_blocks e conn txid hs)"

record tx_report =
  rep_block :: usize
  rep_confirmations :: usize
  rep_inputs :: nat
  rep_outputs :: nat

definition explorer_tx :: "'a codec_scheme \<Rightarrow> chain \<Rightarrow> hash256 \<Rightarrow> tx_report option result" where
  "explorer_tx e c txid =
     (let conn = chain_db c; best = best_height c;
          search = rbind (search_blocks e conn txid (rev (heights_between (saturating_sub best 10000) best))) (\<lambda>_. Inr None)
      in case cf_handle conn ''tx_index'' of
           None \<Rightarrow> search
         | Some cf \<Rightarrow>
             (case db_get conn (cf, txid) of
                None \<Rightarrow> search
              | Some dat \<Rightarrow>
                  rbind (or_err (de_index e dat) Bincode) (\<lambda>(height, tx_index).
                  rbind (load_block_from_db e conn height) (\<lambda>blk.
                  rbind (index (txs blk) (unat tx_index)) (\<lambda>tx.
                  Inr (Some \<lparr>rep_block = height, rep_confirmations = best - height + 1,
                             rep_inputs = length (inputs tx), rep_outputs = length (outputs tx)\<rparr>))))))"

definition explorer_address ::
  "base58 \<Rightarrow> rocksdb \<Rightarrow> string \<Rightarrow> usize \<Rightarrow> usize \<Rightarrow> (nat \<times> (hash256 \<times> u32 \<times> u64) list) result" where
  "explorer_address b conn address page page_size =
     rbind (address_to_pubkey_hash b address) (\<lambda>pkh.
     rbind (unwrap (cf_handle conn ''addr_index'')) (\<lambda>_.
     rbind (try_map query_row (addr_rows conn pkh)) (\<lambda>rows.
     let start = (page - 1) * page_size; stop = start + page_size
     in rbind (if unat start < length rows then slice rows (unat start) (min (unat stop) (length rows)) else Inr []) (\<lambda>page_txs.
        Inr (length rows, page_txs)))))"

text \<open>\<^verbatim>\<open>sort_by(|a, b| b.cmp(a))\<close>: stable, the greatest first.\<close>

definition sort_desc :: "('a \<Rightarrow> 'k::linorder) \<Rightarrow> 'a list \<Rightarrow> 'a list" where
  "sort_desc f xs = rev (sort_key f (rev xs))"

definition add_balance :: "(bytes \<times> u64) list \<Rightarrow> bytes \<times> bytes \<Rightarrow> (bytes \<times> u64) list result" where
  "add_balance balances = (\<lambda>(key, val).
     if prefix (ascii ''addr:'') key
     then rbind (slice key 5 25) (\<lambda>pkh. rbind (u64_value val) (\<lambda>amount. Inr (al_entry pkh 0 (\<lambda>b. b + amount) balances)))
     else Inr balances)"

definition rich_list :: "base58 \<Rightarrow> rocksdb \<Rightarrow> usize \<Rightarrow> usize \<Rightarrow> (string \<times> u64) list result" where
  "rich_list b conn page page_size =
     rbind (unwrap (cf_handle conn ''addr_index'')) (\<lambda>_.
     rbind (try_fold add_balance [] (tables conn ''addr_index'')) (\<lambda>balances.
     let start = (page - 1) * page_size
     in Inr (map (\<lambda>(pkh, bal). (to_base58check b (0 # pkh), bal))
          (take (unat page_size) (drop (unat start) (sort_desc snd balances))))))"

section \<open>Commands\<close>

text \<open>Every command that reads the chain fails: the database is opened without column families that loading needs, whether or not it was initialised.\<close>

theorem commands_never_run: "\<exists>f. load_chain_readonly e n disk cps = Inl f"
proof (cases "load_chain_readonly e n disk cps")
  case (Inr c)
  then obtain conn where "manager_create disk = Inr conn" "load_from_db e n conn cps (mempool_new 1) = Inr c"
    by (auto simp: load_chain_readonly_def result_simps)
  with opened_db_not_loaded(1) [of disk conn e n cps "mempool_new 1" c] show ?thesis by simp
qed simp

section \<open>The address index\<close>

lemma length_ascii [simp]: "length (ascii s) = length s"
  by (simp add: ascii_def)

lemma u64_value_be [simp]: "u64_value (u64_be v) = Inr v"
  by (simp add: u64_value_def codec_simps)

lemma prefix_addr_key:
  assumes "crypto_ok c" "length pkh = 20"
  shows "prefix (addr_prefix pkh) (addr_key c spk txid vout) \<longleftrightarrow> pkh = hash160 c spk"
proof
  assume "prefix (addr_prefix pkh) (addr_key c spk txid vout)"
  then obtain zs where "hash160 c spk @ txid @ u32_be vout = pkh @ zs"
    by (auto simp: addr_prefix_def addr_key_def prefix_def)
  then have "take 20 (hash160 c spk @ txid @ u32_be vout) = take 20 (pkh @ zs)" by simp
  then show "pkh = hash160 c spk" using length_hash160 [OF assms(1)] assms(2) by simp
qed (simp add: addr_prefix_def addr_key_def)

text \<open>The balance of an address is zero although outputs pay to it: outputs are filed under the hash of their script and
  looked up under the hash of the public key, so nothing is found unless the two hashes collide.\<close>

theorem p2pkh_balance_zero:
  assumes "crypto_ok c" "db_ok conn"
    "\<forall>(k, v)\<in>set (tables conn ''addr_index''). \<exists>pk txid vout. k = addr_key c (p2pkh_script c pk) txid vout \<and>
       hash160 c (p2pkh_script c pk) \<noteq> hash160 c pubkey"
  shows "rpc_balance conn (hash160 c pubkey) = 0 \<and> query_addr_index conn (hash160 c pubkey) = rbind (unwrap (cf_handle conn ''addr_index'')) (\<lambda>_. Inr [])"
proof -
  have "\<not> prefix (addr_prefix (hash160 c pubkey)) k" if "(k, v) \<in> set (tables conn ''addr_index'')" for k v
    using assms(3) that prefix_addr_key [OF assms(1) length_hash160 [OF assms(1)]] by fastforce
  then have "addr_rows conn (hash160 c pubkey) = []"
    using assms(2) by (auto simp: addr_rows_def prefix_scan_eq db_ok_def filter_empty_conv)
  then show ?thesis by (simp add: rpc_balance_def query_addr_index_def)
qed

section \<open>Agreement of the balances\<close>

lemma cli_fold_rpc:
  assumes "try_fold (\<lambda>balance (_, val). rbind (u64_value val) (\<lambda>amount. unwrap (checked_add balance amount))) b0 rows = Inr bal"
  shows "fold (\<lambda>(_, val) balance. if length val = 8
       then case checked_add balance (u64_from_be val) of Some b \<Rightarrow> b | None \<Rightarrow> balance else balance) rows b0 = bal \<and>
    unat bal = unat b0 + sum_list (map (\<lambda>(_, val). unat (u64_from_be val)) rows)"
  using assms
proof (induction rows arbitrary: b0)
  case (Cons row rows)
  obtain k val where row: "row = (k, val)" by (cases row)
  obtain b1 where b1: "length val = 8" "checked_add b0 (u64_from_be val) = Some b1"
    using Cons.prems by (auto simp: row result_simps u64_value_def split: if_splits)
  have "unat b1 = unat b0 + unat (u64_from_be val)" using b1(2) by (simp add: checked_add_eq_Some)
  then show ?case using Cons by (simp add: row b1 u64_value_def)
qed simp

text \<open>C34. The two balance queries agree: when the command line prints a balance, it is the number the RPC server reports, and the
  exact sum of the values indexed under the address.\<close>

theorem balances_agree:
  assumes "cli_balance b conn addr = Inr bal" "db_ok conn"
  shows "\<exists>pkh. address_to_pubkey_hash b addr = Inr pkh \<and> rpc_balance conn pkh = bal \<and>
    unat bal = sum_list (map (\<lambda>(_, val). unat (u64_from_be val))
      (filter (\<lambda>(k, _). prefix (addr_prefix pkh) k) (tables conn ''addr_index'')))"
proof -
  obtain pkh where pkh: "address_to_pubkey_hash b addr = Inr pkh"
    and run: "try_fold (\<lambda>balance (_, val). rbind (u64_value val) (\<lambda>amount. unwrap (checked_add balance amount))) 0 (addr_rows conn pkh) = Inr bal"
    using assms(1) by (auto simp: cli_balance_def result_simps)
  from cli_fold_rpc [OF run] show ?thesis
    using assms(2) by (auto simp: pkh rpc_balance_def addr_rows_def prefix_scan_eq db_ok_def)
qed

section \<open>The rich list\<close>

definition indexed_total :: "table \<Rightarrow> bytes \<Rightarrow> u64" where
  "indexed_total rows pkh = sum_list (map (\<lambda>(_, val). u64_from_be val)
     (filter (\<lambda>(k, _). prefix (ascii ''addr:'') k \<and> take 20 (drop 5 k) = pkh) rows))"

abbreviation balance_of :: "(bytes \<times> u64) list \<Rightarrow> bytes \<Rightarrow> u64" where
  "balance_of bals pkh \<equiv> (case map_of bals pkh of Some b \<Rightarrow> b | None \<Rightarrow> 0)"

lemma add_balance_simp:
  "add_balance bals (k, v) = (if prefix (ascii ''addr:'') k
     then rbind (slice k 5 25) (\<lambda>pkh. rbind (u64_value v) (\<lambda>amount. Inr (al_entry pkh 0 (\<lambda>b. b + amount) bals)))
     else Inr bals)"
  by (simp add: add_balance_def)

lemma rich_balances:
  assumes "try_fold add_balance bals rows = Inr bals'" "distinct (map fst bals)"
  shows "distinct (map fst bals') \<and> balance_of bals' pkh = balance_of bals pkh + indexed_total rows pkh"
  using assms
proof (induction rows arbitrary: bals)
  case (Cons row rows)
  obtain k v where row: "row = (k, v)" by (cases row)
  show ?case
  proof (cases "prefix (ascii ''addr:'') k")
    case True
    then obtain p amount where p: "slice k 5 25 = Inr p" "u64_value v = Inr amount"
        "try_fold add_balance (al_entry p 0 (\<lambda>b. b + amount) bals) rows = Inr bals'"
      using Cons.prems by (auto simp: row add_balance_simp result_simps)
    have "p = take 20 (drop 5 k)" "amount = u64_from_be v"
      using p by (auto simp: slice_def u64_value_def split: if_splits)
    moreover have "distinct (map fst (al_entry p 0 (\<lambda>b. b + amount) bals))"
      using Cons.prems(2) by (auto simp: al_entry_def al_modify_def map_of_eq_None_iff comp_def split_def)
    ultimately show ?thesis
      using Cons.IH [OF p(3)] True by (auto simp: row indexed_total_def map_of_al_entry add.assoc)
  next
    case False
    then show ?thesis using Cons by (simp add: row add_balance_simp indexed_total_def)
  qed
qed (simp add: indexed_total_def)

lemma sort_desc_props:
  "set (sort_desc f xs) = set xs" "sorted_wrt (\<lambda>x y. f y \<le> f x) (sort_desc f xs)" "distinct (sort_desc f xs) = distinct xs"
proof -
  have "sorted_wrt (\<lambda>x y. f x \<le> f y) (sort_key f (rev xs))" using sorted_sort_key [of f "rev xs"] by (simp add: sorted_map)
  then show "sorted_wrt (\<lambda>x y. f y \<le> f x) (sort_desc f xs)" by (simp add: sort_desc_def sorted_wrt_rev)
qed (simp_all add: sort_desc_def)

text \<open>A page of the rich list is ordered by falling balance, names no address twice, and shows for each the sum of the indexed
  values modulo two to the 64.\<close>

theorem rich_list_sound:
  assumes "rich_list b conn page page_size = Inr rows" "base58_ok b"
  shows "sorted_wrt (\<lambda>x y. snd y \<le> snd x) rows \<and> distinct (map fst rows) \<and> length rows \<le> unat page_size \<and>
    (\<forall>(addr, bal)\<in>set rows. \<exists>pkh. addr = to_base58check b (0 # pkh) \<and> bal = indexed_total (tables conn ''addr_index'') pkh)"
proof -
  obtain bals where run: "try_fold add_balance [] (tables conn ''addr_index'') = Inr bals"
    and rows: "rows = map (\<lambda>(pkh, bal). (to_base58check b (0 # pkh), bal))
      (take (unat page_size) (drop (unat ((page - 1) * page_size)) (sort_desc snd bals)))"
    using assms(1) by (auto simp: rich_list_def result_simps Let_def)
  let ?page = "take (unat page_size) (drop (unat ((page - 1) * page_size)) (sort_desc snd bals))"
  have dist: "distinct (map fst bals)" and bal: "balance_of bals pkh = indexed_total (tables conn ''addr_index'') pkh" for pkh
    using rich_balances [OF run] by simp_all
  have "distinct (map fst (sort_desc snd bals))" using dist by (simp add: distinct_map sort_desc_props(1,3))
  then have "distinct (map fst ?page)" by (simp add: take_map [symmetric] drop_map [symmetric])
  moreover have "inj (\<lambda>pkh. to_base58check b (0 # pkh))"
    using assms(2) by (metis (mono_tags, lifting) base58_ok_def injI option.inject prod.inject)
  ultimately have "distinct (map (\<lambda>pkh. to_base58check b (0 # pkh)) (map fst ?page))"
    by (subst distinct_map) (blast intro: inj_on_subset)
  moreover have "map fst rows = map (\<lambda>pkh. to_base58check b (0 # pkh)) (map fst ?page)" by (simp add: rows split_def)
  moreover have "sorted_wrt (\<lambda>x y. snd y \<le> snd x) rows"
    using sort_desc_props(2) [where f = snd and xs = bals] by (simp add: rows sorted_wrt_map split_def sorted_wrt_take sorted_wrt_drop)
  moreover have "\<exists>pkh. addr = to_base58check b (0 # pkh) \<and> v = indexed_total (tables conn ''addr_index'') pkh" if mem: "(addr, v) \<in> set rows" for addr v
  proof -
    obtain pkh where pkh: "addr = to_base58check b (0 # pkh)" "(pkh, v) \<in> set ?page"
      using mem by (auto simp: rows)
    have "(pkh, v) \<in> set bals"
      using pkh(2) by (metis in_set_dropD in_set_takeD sort_desc_props(1))
    with pkh(1) bal [of pkh] dist show ?thesis by (auto intro!: exI [of _ pkh])
  qed
  moreover have "length rows \<le> unat page_size" by (simp add: rows)
  ultimately show ?thesis by auto
qed

section \<open>Witnesses\<close>

definition indexed_db :: rocksdb where
  "indexed_db = \<lparr>cfs = [default_cf, ''addr_index''], tables = (\<lambda>_. [])(''addr_index'' :=
     [(addr_key demo_crypto (p2pkh_script demo_crypto [1]) zero_hash 0, u64_be 7)])\<rparr>"

lemma indexed_db_ok: "db_ok indexed_db"
  by (simp add: db_ok_def indexed_db_def tbl_ok_def)

lemma of_nat_of_be_last: "bs \<noteq> [] \<Longrightarrow> (of_nat (nat_of_be bs) :: u8) = last bs"
proof (cases bs rule: rev_cases)
  case (snoc ys b)
  have "(256 :: u8) = 0" by simp
  then show ?thesis by (simp only: snoc nat_of_be_append of_nat_add of_nat_mult of_nat_numeral) simp
qed simp

lemma last_demo_hash: "d \<noteq> [] \<Longrightarrow> last (hash160 demo_crypto d) = last d + 1"
proof -
  assume "d \<noteq> []"
  have "be_bytes 32 (nat_of_be d + 1) \<noteq> []" by (metis length_be_bytes list.size(3) zero_neq_numeral)
  with \<open>d \<noteq> []\<close> show ?thesis
    by (simp add: hash160_def hash_ripemd160_def demo_crypto_def last_be_bytes of_nat_of_be_last)
qed

lemma script_hash_differs: "hash160 demo_crypto (p2pkh_script demo_crypto [1]) \<noteq> hash160 demo_crypto [1]"
  using last_demo_hash [of "p2pkh_script demo_crypto [1]"] last_demo_hash [of "[1]"] by (auto simp: p2pkh_script_def)

theorem p2pkh_balance_zero_witness:
  "rpc_balance indexed_db (hash160 demo_crypto [1]) = 0 \<and> query_addr_index indexed_db (hash160 demo_crypto [1]) = Inr []"
proof -
  have "\<forall>(k, v)\<in>set (tables indexed_db ''addr_index''). \<exists>pk txid vout. k = addr_key demo_crypto (p2pkh_script demo_crypto pk) txid vout \<and>
      hash160 demo_crypto (p2pkh_script demo_crypto pk) \<noteq> hash160 demo_crypto [1]"
    using script_hash_differs by (auto simp: indexed_db_def)
  from p2pkh_balance_zero [OF demo_crypto_ok indexed_db_ok this] show ?thesis
    by (simp add: indexed_db_def cf_handle_def)
qed

definition demo_owner :: bytes where
  "demo_owner = hash160 demo_crypto (p2pkh_script demo_crypto [1])"

lemma indexed_rows: "addr_rows indexed_db demo_owner = [(addr_key demo_crypto (p2pkh_script demo_crypto [1]) zero_hash 0, u64_be 7)]"
  using indexed_db_ok length_hash160 [OF demo_crypto_ok]
  by (simp add: addr_rows_def prefix_scan_eq db_ok_def) (simp add: indexed_db_def prefix_addr_key demo_owner_def)

theorem balances_agree_witness: "rpc_balance indexed_db demo_owner = 7"
proof -
  have b58: "address_to_pubkey_hash demo_base58 (to_base58check demo_base58 (0 # demo_owner)) = Inr demo_owner"
    using demo_base58_ok length_hash160 [OF demo_crypto_ok] by (simp add: address_to_pubkey_hash_def base58_ok_def demo_owner_def)
  then have "cli_balance demo_base58 indexed_db (to_base58check demo_base58 (0 # demo_owner)) = Inr 7"
    by (simp add: cli_balance_def indexed_rows) (simp add: indexed_db_def cf_handle_def checked_add_def)
  from balances_agree [OF this indexed_db_ok] b58 show ?thesis by auto
qed

theorem rich_list_sound_witness:
  "\<exists>addr. rich_list demo_base58 indexed_db 1 10 = Inr [(addr, indexed_total (tables indexed_db ''addr_index'') demo_owner)]"
proof -
  have "try_fold add_balance [] (tables indexed_db ''addr_index'') = Inr [(demo_owner, 7)]"
    using length_hash160 [OF demo_crypto_ok]
    by (simp add: indexed_db_def add_balance_simp addr_key_def slice_def demo_owner_def al_entry_def)
  then have run: "rich_list demo_base58 indexed_db 1 10 = Inr [(to_base58check demo_base58 (0 # demo_owner), 7)]"
    by (simp add: rich_list_def sort_desc_def) (simp add: indexed_db_def cf_handle_def)
  from rich_list_sound [OF run demo_base58_ok] obtain pkh where
    "to_base58check demo_base58 (0 # demo_owner) = to_base58check demo_base58 (0 # pkh)" "7 = indexed_total (tables indexed_db ''addr_index'') pkh"
    by auto
  moreover from this(1) have "pkh = demo_owner" using demo_base58_ok by (metis base58_ok_def option.inject prod.inject)
  ultimately show ?thesis using run by auto
qed

end
