(* ===== verification/Wallet.thy ===== *)
theory Wallet
  imports Queries
begin

text \<open>
  The wallet of \<^verbatim>\<open>main.rs\<close>: the scan of the desktop wallet, its history, the module
  \<^verbatim>\<open>wallet\<close> with balance, outputs, history, key search and the construction of a payment.  Key
  derivation, signatures and hexadecimal text are parameters, as is \<^verbatim>\<open>scan_mempool\<close>, which the
  sources call and do not define.
\<close>

section \<open>State and libraries\<close>

record path =
  hardened :: bool
  path_chain :: u32
  path_index :: u32

record wallet_utxo =
  u_txid :: hash256
  u_vout :: u32
  u_value :: u64
  confirmations :: usize
  u_script :: bytes
  u_height :: usize
  derivation_path :: path
  is_confirmed :: bool

record history_entry =
  hist_txid :: string
  hist_timestamp :: u32
  net_amount :: u64
  hist_confirmations :: usize
  is_receive :: bool

record wallet_lib =
  mnemonic_seed :: "string \<Rightarrow> bytes option"
  new_master :: "bool \<Rightarrow> bytes \<Rightarrow> bytes option"
  derive_priv :: "bytes \<Rightarrow> path \<Rightarrow> bytes option"
  scan_base_ok :: bool
  normal_idx_ok :: "u32 \<Rightarrow> bool"
  pubkey_of :: "bytes \<Rightarrow> bytes"
  sign_der :: "bytes \<Rightarrow> hash256 \<Rightarrow> bytes"
  hex_encode :: "bytes \<Rightarrow> string"
  scan_mempool :: "transaction list \<Rightarrow> string list \<Rightarrow> wallet_utxo list"

record wallet =
  master :: bytes
  current_change_index :: u32

definition from_mnemonic :: "wallet_lib \<Rightarrow> bool \<Rightarrow> string \<Rightarrow> u32 \<Rightarrow> wallet result" where
  "from_mnemonic l main_net mnemonic change_index =
     rbind (or_err (mnemonic_seed l mnemonic) (Anyhow ''Invalid mnemonic'')) (\<lambda>seed.
     rbind (or_err (new_master l main_net seed) (Anyhow ''Invalid seed'')) (\<lambda>m.
     Inr \<lparr>master = m, current_change_index = change_index\<rparr>))"

definition key_at :: "wallet_lib \<Rightarrow> bytes \<Rightarrow> path \<Rightarrow> bytes result" where
  "key_at l m p = or_err (derive_priv l m p) (Anyhow ''Derivation failed'')"

definition wallet_path :: "u32 \<Rightarrow> u32 \<Rightarrow> path" where
  "wallet_path chain i = \<lparr>hardened = False, path_chain = chain, path_index = i\<rparr>"

definition get_receive_address :: "'a crypto_scheme \<Rightarrow> base58 \<Rightarrow> wallet_lib \<Rightarrow> wallet \<Rightarrow> u32 \<Rightarrow> string result" where
  "get_receive_address c b l wal i =
     rbind (key_at l (master wal) (wallet_path 0 i)) (\<lambda>sk. Inr (pubkey_to_address c b (pubkey_of l sk)))"

text \<open>The paths that the module looks at: two chains of a hundred keys.\<close>

definition wallet_paths :: "path list" where
  "wallet_paths = map (\<lambda>(chain, i). wallet_path (of_nat chain) (of_nat i)) (List.product [0..<2] [0..<100])"

section \<open>Balance and outputs\<close>

definition wallet_row :: "bytes \<times> bytes \<Rightarrow> (hash256 \<times> u32 \<times> u64) result" where
  "wallet_row = (\<lambda>(key, val).
     rbind (slice key 25 57) (\<lambda>txid.
     rbind (slice key 57 61) (\<lambda>vout.
     rbind (u64_value val) (\<lambda>amount. Inr (txid, u32_from_be vout, amount)))))"

definition wallet_cfs :: "rocksdb \<Rightarrow> bool \<Rightarrow> usize result" where
  "wallet_cfs conn with_tx_index =
     rbind (or_err (cf_handle conn ''addr_index'') (Anyhow ''addr_index missing'')) (\<lambda>_.
     rbind (or_err (cf_handle conn ''utxo'') (Anyhow ''utxo missing'')) (\<lambda>_.
     rbind (if with_tx_index then rbind (or_err (cf_handle conn ''tx_index'') (Anyhow ''tx_index missing'')) (\<lambda>_. Inr ()) else Inr ()) (\<lambda>_.
     load_current_height conn)))"

definition balance_row ::
  "'a codec_scheme \<Rightarrow> rocksdb \<Rightarrow> usize \<Rightarrow> u64 \<times> u64 \<Rightarrow> bytes \<times> bytes \<Rightarrow> (u64 \<times> u64) result" where
  "balance_row e conn current = (\<lambda>(confirmed, pending) row.
     rbind (wallet_row row) (\<lambda>(txid, vout, val).
     if db_get conn (''utxo'', utxo_key False txid vout) = None then Inr (confirmed, pending)
     else case db_get conn (''tx_index'', txid) of
       None \<Rightarrow> Inr (confirmed, pending + val)
     | Some dat \<Rightarrow>
         rbind (or_err (de_index e dat) Bincode) (\<lambda>(height, _).
         Inr (if saturating_sub current height \<ge> 1 then (confirmed + val, pending) else (confirmed, pending + val)))))"

definition wallet_get_balance :: "'a codec_scheme \<Rightarrow> wallet_lib \<Rightarrow> rocksdb \<Rightarrow> wallet \<Rightarrow> (u64 \<times> u64) result" where
  "wallet_get_balance e l conn wal =
     rbind (wallet_cfs conn True) (\<lambda>current.
     try_fold (\<lambda>acc p.
       rbind (key_at l (master wal) p) (\<lambda>sk.
       try_fold (balance_row e conn current) acc (addr_rows conn (hash160 e (pubkey_of l sk))))) (0, 0) wallet_paths)"

definition utxo_row ::
  "'a codec_scheme \<Rightarrow> rocksdb \<Rightarrow> usize \<Rightarrow> bool \<Rightarrow> path \<Rightarrow> wallet_utxo list \<Rightarrow> bytes \<times> bytes \<Rightarrow> wallet_utxo list result" where
  "utxo_row e conn current spendable_only p utxos row =
     rbind (wallet_row row) (\<lambda>(txid, vout, val).
     case db_get conn (''utxo'', utxo_key False txid vout) of
       None \<Rightarrow> Inr utxos
     | Some raw \<Rightarrow>
         rbind (or_err (de_output e raw) Bincode) (\<lambda>out.
         rbind (case db_get conn (''tx_index'', txid) of
                  None \<Rightarrow> Inr 0
                | Some dat \<Rightarrow> rbind (or_err (de_index e dat) Bincode) (\<lambda>(height, _). Inr (saturating_sub current height + 1))) (\<lambda>confs.
         Inr (if \<not> spendable_only \<or> confs \<ge> COINBASE_MATURITY
              then utxos @ [\<lparr>u_txid = txid, u_vout = vout, u_value = val, confirmations = confs, u_script = script_pubkey out,
                             u_height = 0, derivation_path = p, is_confirmed = confs > 0\<rparr>]
              else utxos))))"

definition get_utxos :: "'a codec_scheme \<Rightarrow> wallet_lib \<Rightarrow> rocksdb \<Rightarrow> wallet \<Rightarrow> bool \<Rightarrow> wallet_utxo list result" where
  "get_utxos e l conn wal spendable_only =
     rbind (wallet_cfs conn True) (\<lambda>current.
     try_fold (\<lambda>utxos p.
       rbind (key_at l (master wal) p) (\<lambda>sk.
       try_fold (utxo_row e conn current spendable_only p) utxos (addr_rows conn (hash160 e (pubkey_of l sk))))) [] wallet_paths)"

definition find_key :: "'a crypto_scheme \<Rightarrow> wallet_lib \<Rightarrow> bytes \<Rightarrow> bytes \<Rightarrow> bytes option \<Rightarrow> path \<Rightarrow> bytes option result" where
  "find_key c l m pkh found p =
     (case found of
        Some sk \<Rightarrow> Inr (Some sk)
      | None \<Rightarrow> rbind (key_at l m p) (\<lambda>sk. Inr (if hash160 c (pubkey_of l sk) = pkh then Some sk else None)))"

definition get_privkey_for_address :: "'a crypto_scheme \<Rightarrow> base58 \<Rightarrow> wallet_lib \<Rightarrow> wallet \<Rightarrow> string \<Rightarrow> bytes result" where
  "get_privkey_for_address c b l wal address =
     rbind (address_to_pubkey_hash b address) (\<lambda>pkh.
     rbind (try_fold (find_key c l (master wal) pkh) None wallet_paths) (\<lambda>found.
     or_err found (Anyhow ''Address not found in the wallet'')))"

section \<open>History\<close>

text \<open>Amounts of the history are \<^verbatim>\<open>i64\<close>: words read with a sign.\<close>

definition note_amount :: "u64 \<Rightarrow> hash256 \<Rightarrow> (hash256 \<times> u64) list \<Rightarrow> (hash256 \<times> u64) list" where
  "note_amount amount txid hist = al_entry txid 0 (\<lambda>net. net + amount) hist"

definition history_of ::
  "'a codec_scheme \<Rightarrow> wallet_lib \<Rightarrow> rocksdb \<Rightarrow> usize \<Rightarrow> hash256 \<times> u64 \<Rightarrow> history_entry result" where
  "history_of e l conn current = (\<lambda>(txid, net).
     rbind (height_from_txid e conn txid) (\<lambda>height.
     rbind (case get_block_timestamp e conn height of Inr t \<Rightarrow> Inr t | Inl (Err _) \<Rightarrow> Inr 0 | Inl f \<Rightarrow> Inl f) (\<lambda>stamp.
     Inr \<lparr>hist_txid = hex_encode l txid, hist_timestamp = stamp, net_amount = net,
          hist_confirmations = saturating_sub current height + 1, is_receive = sint net > 0\<rparr>)))"

definition get_history :: "'a codec_scheme \<Rightarrow> wallet_lib \<Rightarrow> rocksdb \<Rightarrow> wallet \<Rightarrow> nat \<Rightarrow> history_entry list result" where
  "get_history e l conn wal limit =
     rbind (wallet_cfs conn False) (\<lambda>current.
     rbind (try_fold (\<lambda>hist p.
         rbind (key_at l (master wal) p) (\<lambda>sk.
         rbind (query_addr_index conn (hash160 e (pubkey_of l sk))) (\<lambda>entries.
         Inr (fold (\<lambda>(txid, vout, val) hist.
           let received = (if path_chain p = 0 then val else - val)
           in note_amount (if db_get conn (''utxo'', utxo_key False txid vout) \<noteq> None then received else - received) txid hist)
           entries hist)))) [] wallet_paths) (\<lambda>hist.
     rbind (try_map (history_of e l conn current) hist) (\<lambda>history.
     Inr (take limit (sort_desc hist_timestamp history)))))"

definition build_history_task ::
  "'a codec_scheme \<Rightarrow> base58 \<Rightarrow> wallet_lib \<Rightarrow> rocksdb \<Rightarrow> string list \<Rightarrow> string list \<Rightarrow> usize \<Rightarrow> history_entry list result" where
  "build_history_task e b l conn receive_addrs change_addrs current =
     rbind (unwrap (cf_handle conn ''utxo'')) (\<lambda>_.
     rbind (try_fold (\<lambda>hist addr.
         rbind (address_to_pubkey_hash b addr) (\<lambda>pkh.
         rbind (query_addr_index conn pkh) (\<lambda>entries.
         Inr (fold (\<lambda>(txid, vout, val).
           note_amount (if db_get conn (''utxo'', utxo_key False txid vout) = None then - val else val) txid) entries hist))))
         [] (receive_addrs @ change_addrs)) (\<lambda>hist.
     rbind (try_map (history_of e l conn current) (filter (\<lambda>(_, net). net \<noteq> 0) hist)) (\<lambda>history.
     Inr (sort_desc hist_timestamp history))))"

section \<open>Scanning\<close>

definition scan_entry ::
  "'a codec_scheme \<Rightarrow> rocksdb \<Rightarrow> usize \<Rightarrow> path \<Rightarrow> wallet_utxo list \<Rightarrow> hash256 \<times> u32 \<times> u64 \<Rightarrow> wallet_utxo list result" where
  "scan_entry e conn current p utxos = (\<lambda>(txid, vout, val).
     case db_get conn (''utxo'', utxo_key False txid vout) of
       None \<Rightarrow> Inr utxos
     | Some raw \<Rightarrow>
         rbind (or_err (de_output e raw) Bincode) (\<lambda>out.
         rbind (height_from_txid e conn txid) (\<lambda>height.
         Inr (utxos @ [\<lparr>u_txid = txid, u_vout = vout, u_value = val, confirmations = saturating_sub current height + 1,
           u_script = script_pubkey out, u_height = height, derivation_path = p, is_confirmed = True\<rparr>]))))"

text \<open>One turn of the loop: the outputs found so far, the address, and whether its index entries show activity.\<close>

definition scan_index ::
  "'a codec_scheme \<Rightarrow> base58 \<Rightarrow> wallet_lib \<Rightarrow> rocksdb \<Rightarrow> bytes \<Rightarrow> u32 \<Rightarrow> usize \<Rightarrow> u32 \<Rightarrow> wallet_utxo list \<Rightarrow> (wallet_utxo list \<times> string \<times> bool) result" where
  "scan_index e b l conn m chain_num current i utxos =
     (let p = \<lparr>hardened = True, path_chain = chain_num, path_index = i\<rparr> in
      rbind (bail_if (\<not> normal_idx_ok l i) (Anyhow ''Invalid child number'')) (\<lambda>_.
      rbind (key_at l m p) (\<lambda>sk.
      rbind (query_addr_index conn (hash160 e (pubkey_of l sk))) (\<lambda>entries.
      rbind (try_fold (scan_entry e conn current p) utxos entries) (\<lambda>utxos.
      Inr (utxos, pubkey_to_address e b (pubkey_of l sk), entries \<noteq> []))))))"

partial_function (option) scan_loop ::
  "(u32 \<Rightarrow> wallet_utxo list \<Rightarrow> (wallet_utxo list \<times> string \<times> bool) result) \<Rightarrow> nat \<Rightarrow> u32 \<Rightarrow> nat \<Rightarrow> wallet_utxo list \<Rightarrow> string list \<Rightarrow>
   (wallet_utxo list \<times> string list \<times> u32) result option" where
  "scan_loop turn gap_limit i gap utxos addresses =
     (if gap < gap_limit
      then case turn i utxos of
        Inl f \<Rightarrow> Some (Inl f)
      | Inr (utxos, address, active) \<Rightarrow>
          scan_loop turn gap_limit (i + 1) (if active then 0 else gap + 1) utxos (if active then addresses @ [address] else addresses)
      else Some (Inr (utxos, addresses, i)))"

definition utxo_sum :: "wallet_utxo list \<Rightarrow> u64" where
  "utxo_sum utxos = sum_list (map u_value utxos)"

definition scan_chain ::
  "'a codec_scheme \<Rightarrow> base58 \<Rightarrow> wallet_lib \<Rightarrow> rocksdb \<Rightarrow> bytes \<Rightarrow> u32 \<Rightarrow> nat \<Rightarrow> usize \<Rightarrow>
   (wallet_utxo list \<times> u64 \<times> string list \<times> u32) result" where
  "scan_chain e b l conn seed chain_num gap_limit current =
     rbind (unwrap (cf_handle conn ''utxo'')) (\<lambda>_.
     rbind (or_err (new_master l True seed) (Anyhow ''Invalid seed'')) (\<lambda>m.
     rbind (bail_if (\<not> scan_base_ok l) (Anyhow ''Invalid path'')) (\<lambda>_.
     case scan_loop (scan_index e b l conn m chain_num current) gap_limit 0 0 [] [] of
       None \<Rightarrow> Inl Blocked
     | Some r \<Rightarrow> rbind r (\<lambda>(utxos, addresses, i). Inr (utxos, utxo_sum utxos, addresses, i)))))"

record scan_result =
  scan_utxos :: "wallet_utxo list"
  scan_balance :: u64
  scan_history :: "history_entry list"
  scan_receive :: "string list"
  scan_change :: "string list"
  scan_receive_index :: u32
  scan_change_index :: u32

definition scan_wallet_task ::
  "'a codec_scheme \<Rightarrow> base58 \<Rightarrow> wallet_lib \<Rightarrow> rocksdb \<Rightarrow> bytes \<Rightarrow> usize \<Rightarrow> transaction list \<Rightarrow> scan_result result" where
  "scan_wallet_task e b l conn seed current mempool_txs =
     rbind (scan_chain e b l conn seed 0 20 current) (\<lambda>(receive_utxos, receive_bal, receive_addrs, recv_idx).
     rbind (scan_chain e b l conn seed 1 20 current) (\<lambda>(change_utxos, change_bal, change_addrs, chg_idx).
     let mem_utxos = scan_mempool l mempool_txs (receive_addrs @ change_addrs) in
     rbind (build_history_task e b l conn receive_addrs change_addrs current) (\<lambda>history.
     Inr \<lparr>scan_utxos = receive_utxos @ change_utxos @ mem_utxos, scan_balance = receive_bal + change_bal, scan_history = history,
          scan_receive = receive_addrs, scan_change = change_addrs, scan_receive_index = recv_idx, scan_change_index = chg_idx\<rparr>)))"

section \<open>Payments\<close>

definition p2pkh_script_from_pkh :: "bytes \<Rightarrow> bytes" where
  "p2pkh_script_from_pkh pkh = [0x76, 0xa9, 0x14] @ pkh @ [0x88, 0xac]"

fun pick_coins :: "u64 \<Rightarrow> wallet_utxo list \<Rightarrow> u64 \<Rightarrow> wallet_utxo list \<Rightarrow> u64 \<times> wallet_utxo list" where
  "pick_coins amount [] input_sum picked = (input_sum, picked)"
| "pick_coins amount (u # us) input_sum picked =
     (let picked = picked @ [u]; input_sum = input_sum + u_value u
      in if input_sum \<ge> amount + 100000 then (input_sum, picked) else pick_coins amount us input_sum picked)"

definition dust :: u64 where "dust = 1000"
definition dummy_sig_size :: u64 where "dummy_sig_size = 106"
definition overhead :: u64 where "overhead = 10 + 4 + 4 + 4 + 4"

definition payment_size :: "u64 \<Rightarrow> u64 \<Rightarrow> u64" where
  "payment_size n change =
     (let outputs_count = (if change > dust then 2 else 1)
      in overhead + n * dummy_sig_size + outputs_count * 34 + n * 4)"

fun fee_rounds :: "nat \<Rightarrow> u64 \<Rightarrow> u64 \<Rightarrow> u64 \<Rightarrow> u64 \<Rightarrow> u64 \<Rightarrow> u64" where
  "fee_rounds 0 input_sum amount fee_rate n cur = cur"
| "fee_rounds (Suc k) input_sum amount fee_rate n cur =
     (let new_fee = payment_size n (input_sum - amount - cur) * fee_rate
      in if wrapping_abs (new_fee - cur) < 20 then cur else fee_rounds k input_sum amount fee_rate n new_fee)"

definition plain_output :: "u64 \<Rightarrow> bytes \<Rightarrow> txoutput" where
  "plain_output val script = \<lparr>out_value = val, script_pubkey = script, commitment = None\<rparr>"

definition change_outputs ::
  "'a crypto_scheme \<Rightarrow> base58 \<Rightarrow> wallet_lib \<Rightarrow> wallet \<Rightarrow> string option \<Rightarrow> u64 \<Rightarrow> txoutput list result" where
  "change_outputs c b l wal change_addr change =
     (if change > dust
      then rbind (key_at l (master wal) (wallet_path 1 (current_change_index wal))) (\<lambda>sk.
        Inr [plain_output change (p2pkh_script c (pubkey_of l sk))])
      else case change_addr of
        None \<Rightarrow> Inr []
      | Some ch \<Rightarrow> rbind (address_to_pubkey_hash b ch) (\<lambda>pkh. Inr [plain_output change (p2pkh_script_from_pkh pkh)]))"

definition sign_input :: "('p, 'a) env_scheme \<Rightarrow> wallet_lib \<Rightarrow> wallet \<Rightarrow> transaction \<Rightarrow> nat \<times> wallet_utxo \<Rightarrow> transaction result" where
  "sign_input e l wal tx = (\<lambda>(i, u).
     rbind (key_at l (master wal) (derivation_path u)) (\<lambda>sk.
     rbind (sighash e tx i (u_script u) 1) (\<lambda>msg.
     rbind (bail_if (length msg \<noteq> 32) Secp256k1) (\<lambda>_.
     Inr (tx\<lparr>inputs := (inputs tx)[i := (inputs tx ! i)\<lparr>script_sig := sign_der l sk msg @ [1] @ pubkey_of l sk\<rparr>]\<rparr>)))))"

definition payment_fee :: "u64 \<Rightarrow> u64 \<Rightarrow> u64 \<Rightarrow> u64 \<Rightarrow> u64" where
  "payment_fee input_sum amount fee_rate n =
     fee_rounds 20 input_sum amount fee_rate n ((n * dummy_sig_size + overhead + 34) * fee_rate)"

definition unsigned_tx :: "wallet_utxo list \<Rightarrow> txoutput list \<Rightarrow> transaction" where
  "unsigned_tx picked outs =
     \<lparr>tx_version = 1, is_anonymous = False,
      inputs = map (\<lambda>u. \<lparr>in_txid = u_txid u, in_vout = u_vout u, script_sig = [], in_sequence = u32_max\<rparr>) picked,
      outputs = outs, lock_time = 0, range_proofs = []\<rparr>"

definition create_tx ::
  "('p, 'a) env_scheme \<Rightarrow> base58 \<Rightarrow> wallet_lib \<Rightarrow> rocksdb \<Rightarrow> wallet \<Rightarrow> string \<Rightarrow> u64 \<Rightarrow> u64 \<Rightarrow> string option \<Rightarrow> (transaction \<times> hash256) result" where
  "create_tx e b l conn wal to amount fee_rate change_addr =
     rbind (get_utxos e l conn wal True) (\<lambda>utxos.
     case pick_coins amount (sort_desc u_value utxos) 0 [] of (input_sum, picked) \<Rightarrow>
     rbind (bail_if (input_sum < amount) (Anyhow ''Insufficient funds'')) (\<lambda>_.
     let total_fee = payment_fee input_sum amount fee_rate (of_nat (length picked));
         change = input_sum - amount - total_fee
     in rbind (bail_if (input_sum < amount + total_fee) (Anyhow ''Insufficient funds (fees included)'')) (\<lambda>_.
        rbind (address_to_pubkey_hash b to) (\<lambda>to_pkh.
        rbind (change_outputs e b l wal change_addr change) (\<lambda>outs.
        rbind (try_fold (sign_input e l wal)
                 (unsigned_tx picked (plain_output amount (p2pkh_script_from_pkh to_pkh) # outs)) (enumerate 0 picked)) (\<lambda>tx.
        Inr (tx, tx_hash e tx)))))))"

section \<open>The scan ends\<close>

text \<open>C36. The scan of a chain of addresses ends, however many of them are in use: the index of a normal child key is below two to
  the 31, and the derivation of the next one fails.\<close>

theorem scan_loop_returns:
  assumes "\<forall>i. 2 ^ 31 \<le> unat i \<longrightarrow> \<not> normal_idx_ok l i"
  shows "\<exists>r. scan_loop (scan_index e b l conn m chain_num current) gap_limit i gap utxos addresses = Some r"
proof (induction "2 ^ 31 - unat i" arbitrary: i gap utxos addresses rule: less_induct)
  case less
  let ?turn = "scan_index e b l conn m chain_num current"
  show ?case
  proof (cases "?turn i utxos")
    case (Inr a)
    obtain utxos' address active where a: "a = (utxos', address, active)" by (cases a)
    have "normal_idx_ok l i" using Inr by (auto simp: scan_index_def result_simps Let_def)
    then have small: "unat i < 2 ^ 31" using assms by (meson not_less)
    then have "unat (i + 1) = unat i + 1" by (simp add: unat_word_ariths)
    with small have "2 ^ 31 - unat (i + 1) < 2 ^ 31 - unat i" by simp
    from less [OF this] show ?thesis by (subst scan_loop.simps) (auto simp: Inr a)
  qed (subst scan_loop.simps, simp)
qed

section \<open>Reading the index\<close>

text \<open>The module \<^verbatim>\<open>wallet\<close> recovers the transaction and the output number from an index key, while the look-up of the desktop
  wallet reads the same key at the wrong place: it returns the hash of the script followed by a part of the transaction hash in place
  of the transaction, and four bytes of the transaction hash in place of the output number.\<close>

theorem index_row_roundtrip:
  assumes "crypto_ok c" "length txid = 32"
  shows "wallet_row (addr_key c spk txid vout, u64_be v) = Inr (txid, vout, v) \<and>
    query_row (addr_key c spk txid vout, u64_be v) = Inr (hash160 c spk @ take 12 txid, u32_from_be (take 4 (drop 12 txid)), v)"
  using assms by (simp add: wallet_row_def query_row_def addr_key_def slice_def length_hash160 codec_simps)

section \<open>Finding a key\<close>

lemma search_paths:
  assumes "\<forall>p\<in>set ps. derive_priv l m p \<noteq> None"
  shows "try_fold (find_key c l m pkh) found ps =
    Inr (case found of Some sk \<Rightarrow> Some sk | None \<Rightarrow> find (\<lambda>sk. hash160 c (pubkey_of l sk) = pkh) (map (\<lambda>p. the (derive_priv l m p)) ps))"
  using assms by (induction ps arbitrary: found) (auto simp: key_at_def find_key_def split: option.splits)

lemma wallet_paths_nth: "j < 200 \<Longrightarrow> wallet_paths ! j =
    \<lparr>hardened = False, path_chain = of_nat (j div 100), path_index = of_nat (j mod 100)\<rparr>"
  by (simp add: wallet_paths_def wallet_path_def product_nth)

lemma length_wallet_paths [simp]: "length wallet_paths = 200"
  by (simp add: wallet_paths_def)

text \<open>C35. The search for the key of an address goes through the keys 0 to 99 of the receiving chain and then those of the change
  chain, and returns the first that has the address; it fails exactly when none of the two hundred has.\<close>

theorem privkey_search_exact:
  assumes "address_to_pubkey_hash b address = Inr pkh"
    "\<forall>chain i. chain < 2 \<and> i < 100 \<longrightarrow> derive_priv l (master wal) \<lparr>hardened = False, path_chain = of_nat chain, path_index = of_nat i\<rparr> \<noteq> None"
  shows "let key = (\<lambda>chain i. the (derive_priv l (master wal) \<lparr>hardened = False, path_chain = of_nat chain, path_index = of_nat i\<rparr>));
      owns = (\<lambda>chain i. hash160 c (pubkey_of l (key chain i)) = pkh) in
    case get_privkey_for_address c b l wal address of
      Inr sk \<Rightarrow> \<exists>chain i. chain < (2 :: nat) \<and> i < (100 :: nat) \<and> sk = key chain i \<and> owns chain i \<and>
        (\<forall>chain' i'. i' < 100 \<and> 100 * chain' + i' < 100 * chain + i \<longrightarrow> \<not> owns chain' i')
    | Inl f \<Rightarrow> f = Err (Anyhow ''Address not found in the wallet'') \<and> (\<forall>chain i. chain < 2 \<and> i < 100 \<longrightarrow> \<not> owns chain i)"
proof -
  define key where "key = (\<lambda>chain i. the (derive_priv l (master wal) \<lparr>hardened = False, path_chain = of_nat chain, path_index = of_nat i\<rparr>))"
  define owns where "owns = (\<lambda>chain i. hash160 c (pubkey_of l (key chain i)) = pkh)"
  let ?sks = "map (\<lambda>p. the (derive_priv l (master wal) p)) wallet_paths"
  let ?found = "find (\<lambda>sk. hash160 c (pubkey_of l sk) = pkh) ?sks"
  have sk: "?sks ! j = key (j div 100) (j mod 100)" if "j < 200" for j
    using that by (simp add: wallet_paths_nth key_def)
  have pos: "100 * chain + i < 200" "(100 * chain + i) div 100 = chain" "(100 * chain + i) mod 100 = i"
    if "chain < 2" "i < 100" for chain i :: nat using that by auto
  have "\<forall>p\<in>set wallet_paths. derive_priv l (master wal) p \<noteq> None"
  proof
    fix p
    assume "p \<in> set wallet_paths"
    then obtain j where "j < 200" "p = wallet_paths ! j" by (metis in_set_conv_nth length_wallet_paths)
    then show "derive_priv l (master wal) p \<noteq> None"
      using assms(2) [rule_format, of "j div 100" "j mod 100"] by (simp add: wallet_paths_nth)
  qed
  then have run: "get_privkey_for_address c b l wal address = or_err ?found (Anyhow ''Address not found in the wallet'')"
    using assms(1) search_paths [of wallet_paths l "master wal" c pkh None] by (simp add: get_privkey_for_address_def)
  have "case get_privkey_for_address c b l wal address of
      Inr sk \<Rightarrow> \<exists>chain i. chain < (2 :: nat) \<and> i < (100 :: nat) \<and> sk = key chain i \<and> owns chain i \<and>
        (\<forall>chain' i'. i' < 100 \<and> 100 * chain' + i' < 100 * chain + i \<longrightarrow> \<not> owns chain' i')
    | Inl f \<Rightarrow> f = Err (Anyhow ''Address not found in the wallet'') \<and> (\<forall>chain i. chain < 2 \<and> i < 100 \<longrightarrow> \<not> owns chain i)"
  proof (cases ?found)
    case None
    have "\<not> owns chain i" if "chain < 2" "i < 100" for chain i
    proof -
      have "?sks ! (100 * chain + i) \<in> set ?sks" using pos [OF that] by (intro nth_mem) simp
      moreover have "?sks ! (100 * chain + i) = key chain i" using sk [OF pos(1) [OF that]] pos(2,3) [OF that] by simp
      ultimately show ?thesis using None unfolding find_None_iff owns_def by metis
    qed
    then show ?thesis by (simp add: run None)
  next
    case (Some k)
    then obtain j where j: "j < 200" "hash160 c (pubkey_of l (?sks ! j)) = pkh" "k = ?sks ! j"
        "\<forall>m<j. hash160 c (pubkey_of l (?sks ! m)) \<noteq> pkh"
      unfolding find_Some_iff by (simp only: length_map length_wallet_paths) blast
    have before: "\<not> owns chain' i'" if "i' < 100" "100 * chain' + i' < j" for chain' i'
    proof -
      have "chain' < 2" using that j(1) by simp
      then have "?sks ! (100 * chain' + i') = key chain' i'" using sk [of "100 * chain' + i'"] pos [of chain' i'] that by simp
      then show ?thesis using j(4) that(2) unfolding owns_def by metis
    qed
    have at: "100 * (j div 100) + j mod 100 = j" by simp
    have "j div 100 < 2 \<and> j mod 100 < 100 \<and> k = key (j div 100) (j mod 100) \<and> owns (j div 100) (j mod 100) \<and>
        (\<forall>chain' i'. i' < 100 \<and> 100 * chain' + i' < 100 * (j div 100) + j mod 100 \<longrightarrow> \<not> owns chain' i')"
      unfolding at using j(1-3) sk [OF j(1)] before by (auto simp: owns_def)
    then show ?thesis unfolding run Some by (simp only: or_err_simps sum.case) blast
  qed
  then show ?thesis unfolding Let_def key_def owns_def .
qed

section \<open>Payments\<close>

lemma unat_sum_list:
  fixes ws :: "u64 list"
  shows "sum_list (map unat ws) < 2 ^ 64 \<Longrightarrow> unat (sum_list ws) = sum_list (map unat ws)"
  by (induction ws) (auto simp: unat_word_ariths)

lemma sum_list_take_le: "sum_list (take k xs) \<le> sum_list (xs :: nat list)"
  by (metis append_take_drop_id le_add1 sum_list_append)

lemma sum_list_sort_key: "sum_list (map g (sort_key f xs)) = (sum_list (map g xs) :: nat)"
proof (induction xs)
  case (Cons x xs)
  have "sum_list (map g (insort_key f x ys)) = g x + sum_list (map g ys)" for ys by (induction ys) auto
  with Cons show ?case by simp
qed simp

lemma sum_list_sort_desc: "sum_list (map g (sort_desc f xs)) = (sum_list (map g xs) :: nat)"
  by (simp add: sort_desc_def rev_map [symmetric] sum_list_rev sum_list_sort_key)

lemma fee_rounds_cases:
  "fee_rounds k s a rate n cur = cur \<or> (\<exists>c. fee_rounds k s a rate n cur = payment_size n c * rate)"
  by (induction k arbitrary: cur) (auto simp: Let_def)

lemma payment_size_eq: "payment_size (of_nat n) c = of_nat (110 * n + (if c > dust then 94 else 60))"
  by (simp add: payment_size_def overhead_def dummy_sig_size_def Let_def)

lemma unat_of_nat_mult:
  fixes rate :: u64
  assumes "m * unat rate < 2 ^ 64"
  shows "unat (of_nat m * rate) = m * unat rate"
proof -
  have "of_nat m * rate = of_nat (m * unat rate)" by simp
  then show ?thesis using assms by (simp only: unat_of_nat) simp
qed

lemma fee_bounds:
  assumes "(110 * n + 94) * unat rate < 2 ^ 64"
  shows "(106 * n + 60) * unat rate \<le> unat (payment_fee s a rate (of_nat n))"
    "unat (payment_fee s a rate (of_nat n)) \<le> (110 * n + 94) * unat rate"
proof -
  let ?fee = "payment_fee s a rate (of_nat n)"
  have first: "(of_nat n * dummy_sig_size + overhead + 34) = (of_nat (106 * n + 60) :: u64)"
    by (simp add: dummy_sig_size_def overhead_def)
  obtain m where m: "?fee = of_nat m * rate" "106 * n + 60 \<le> m" "m \<le> 110 * n + 94"
  proof (cases "?fee = (of_nat n * dummy_sig_size + overhead + 34) * rate")
    case True
    then show ?thesis using that [of "106 * n + 60"] by (simp add: first)
  next
    case False
    then obtain c where "?fee = payment_size (of_nat n) c * rate" using fee_rounds_cases unfolding payment_fee_def by blast
    then show ?thesis using that [of "110 * n + (if c > dust then 94 else 60)"] by (simp only: payment_size_eq) (simp split: if_splits)
  qed
  have "m * unat rate \<le> (110 * n + 94) * unat rate" using m(3) by (rule mult_right_mono) simp
  moreover from this have "unat ?fee = m * unat rate" 
    using assms unfolding m(1) by (intro unat_of_nat_mult) (rule le_less_trans)
  moreover have "(106 * n + 60) * unat rate \<le> m * unat rate" using m(2) by (rule mult_right_mono) simp
  ultimately show "(106 * n + 60) * unat rate \<le> unat ?fee" "unat ?fee \<le> (110 * n + 94) * unat rate" by simp_all
qed

definition signed_by :: "('p, 'a) env_scheme \<Rightarrow> wallet_lib \<Rightarrow> wallet \<Rightarrow> transaction \<Rightarrow> nat \<Rightarrow> wallet_utxo \<Rightarrow> bool" where
  "signed_by e l wal tx i u \<longleftrightarrow> (\<exists>sk msg. derive_priv l (master wal) (derivation_path u) = Some sk \<and> sighash e tx i (u_script u) 1 = Inr msg \<and>
     script_sig (inputs tx ! i) = sign_der l sk msg @ [1] @ pubkey_of l sk)"

lemma sign_input_Inr:
  assumes "sign_input e l wal tx (i, u) = Inr tx'"
  shows "outputs tx' = outputs tx \<and> map outpoint (inputs tx') = map outpoint (inputs tx) \<and>
    (\<forall>j spk ty. sighash e tx' j spk ty = sighash e tx j spk ty) \<and> (\<forall>j. j \<noteq> i \<longrightarrow> inputs tx' ! j = inputs tx ! j) \<and>
    (i < length (inputs tx) \<longrightarrow> signed_by e l wal tx' i u)"
proof -
  obtain sk msg where sk: "derive_priv l (master wal) (derivation_path u) = Some sk" and msg: "sighash e tx i (u_script u) 1 = Inr msg"
    and tx': "tx' = tx\<lparr>inputs := (inputs tx)[i := (inputs tx ! i)\<lparr>script_sig := sign_der l sk msg @ [1] @ pubkey_of l sk\<rparr>]\<rparr>"
    using assms by (auto simp: sign_input_def key_at_def result_simps)
  have stable: "sighash e tx' j spk ty = sighash e tx j spk ty" for j spk ty
    unfolding tx' by (rule sighash_stable_under_signing)
  have "map outpoint (inputs tx') = map outpoint (inputs tx)"
    by (cases "i < length (inputs tx)") (auto simp: tx' map_update list_update_same_conv list_update_beyond)
  moreover have "i < length (inputs tx) \<longrightarrow> signed_by e l wal tx' i u"
    using sk msg stable unfolding signed_by_def by (auto simp: tx')
  ultimately show ?thesis using stable by (simp add: tx')
qed

lemma sign_all:
  assumes "try_fold (sign_input e l wal) tx (enumerate k us) = Inr tx'" "k + length us \<le> length (inputs tx)"
  shows "outputs tx' = outputs tx \<and> map outpoint (inputs tx') = map outpoint (inputs tx) \<and>
    (\<forall>j spk ty. sighash e tx' j spk ty = sighash e tx j spk ty) \<and> (\<forall>j<k. inputs tx' ! j = inputs tx ! j) \<and>
    (\<forall>j<length us. signed_by e l wal tx' (k + j) (us ! j))"
  using assms
proof (induction us arbitrary: k tx)
  case (Cons u us)
  obtain tx1 where tx1: "sign_input e l wal tx (k, u) = Inr tx1" "try_fold (sign_input e l wal) tx1 (enumerate (Suc k) us) = Inr tx'"
    using Cons.prems(1) by (auto simp: result_simps)
  note one = sign_input_Inr [OF tx1(1)]
  then have "map outpoint (inputs tx1) = map outpoint (inputs tx)" by (elim conjE)
  then have len: "length (inputs tx1) = length (inputs tx)" by (rule map_eq_imp_length_eq)
  have "Suc k + length us \<le> length (inputs tx1)" using len Cons.prems(2) by simp
  note Cons.IH [OF tx1(2) this]
  then have rest: "outputs tx' = outputs tx1" "map outpoint (inputs tx') = map outpoint (inputs tx1)"
      "sighash e tx' j spk ty = sighash e tx1 j spk ty" "\<And>j. j < Suc k \<Longrightarrow> inputs tx' ! j = inputs tx1 ! j"
      "\<And>j. j < length us \<Longrightarrow> signed_by e l wal tx' (Suc k + j) (us ! j)" for j spk ty
    by (blast, blast, blast, blast, blast)
  have "signed_by e l wal tx1 k u" using one Cons.prems(2) by simp
  then have "signed_by e l wal tx' k u" using rest(3,4) by (simp add: signed_by_def)
  then have "signed_by e l wal tx' (k + j) ((u # us) ! j)" if "j < length (u # us)" for j
    using that rest(5) by (cases j) auto
  then have signed: "\<forall>j<length (u # us). signed_by e l wal tx' (k + j) ((u # us) ! j)" by (intro allI impI)
  have "\<forall>j<k. inputs tx' ! j = inputs tx ! j" using one rest(4) by (metis less_SucI less_irrefl)
  moreover have "\<forall>j spk ty. sighash e tx' j spk ty = sighash e tx j spk ty" using one rest(3) by simp
  ultimately show ?case using signed one rest(1,2) by simp
qed simp

lemma unat_change:
  fixes s a f :: u64
  assumes "unat a + unat f < 2 ^ 64" "a + f \<le> s"
  shows "unat s = unat a + unat f + unat (s - a - f)"
proof -
  have af: "unat (a + f) = unat a + unat f" using assms(1) by (simp add: unat_word_ariths)
  have "unat (s - (a + f)) = unat s - unat (a + f)" using assms(2) by (rule unat_sub)
  moreover have "s - a - f = s - (a + f)" by simp
  moreover have "unat (a + f) \<le> unat s" using assms(2) by (simp add: word_le_nat_alt)
  ultimately show ?thesis using af by (simp add: diff_diff_eq)
qed

lemma picked_sum:
  assumes "(\<Sum>u\<leftarrow>utxos. unat (u_value u)) < 2 ^ 64"
  shows "unat (sum_list (map u_value (take k (sort_desc u_value utxos)))) = (\<Sum>u\<leftarrow>take k (sort_desc u_value utxos). unat (u_value u))"
proof -
  have "(\<Sum>u\<leftarrow>take k (sort_desc u_value utxos). unat (u_value u)) \<le> (\<Sum>u\<leftarrow>sort_desc u_value utxos. unat (u_value u))"
    by (simp add: take_map [symmetric] sum_list_take_le)
  with assms have "sum_list (map unat (map u_value (take k (sort_desc u_value utxos)))) < 2 ^ 64"
    by (simp add: sum_list_sort_desc comp_def)
  from unat_sum_list [OF this] show ?thesis by (simp add: comp_def)
qed

text \<open>The fee of a payment of \<^term>\<open>n\<close> inputs, as a closed form: the first estimate when the estimate made with its
  change is less than 20 units above it, and otherwise the fee for two outputs when more than dust is left after it, and the fee for
  one output when not.\<close>

definition settled_fee :: "nat \<Rightarrow> nat \<Rightarrow> nat \<Rightarrow> nat" where
  "settled_fee n rate spare =
     (let first = (106 * n + 60) * rate; small = (110 * n + 60) * rate; large = (110 * n + 94) * rate
      in if (if spare > first + 1000 then large else small) - first < 20 then first
         else if spare > large + 1000 then large else small)"

text \<open>The rounds on natural numbers.\<close>

fun settle :: "nat \<Rightarrow> nat \<Rightarrow> nat \<Rightarrow> nat \<Rightarrow> nat \<Rightarrow> nat" where
  "settle 0 spare small large x = x"
| "settle (Suc k) spare small large x =
     (let y = (if spare > x + 1000 \<or> spare < x then large else small)
      in if \<bar>int y - int x\<bar> < 20 then x else settle k spare small large y)"

lemma settle_values: "settle k spare small large x \<in> {x, small, large}"
  by (induction k arbitrary: x) (auto simp: Let_def)

lemma settle_small: "small \<le> spare \<Longrightarrow> spare \<le> small + 1000 \<Longrightarrow> settle k spare small large small = small"
  by (cases k) auto

lemma settle_large: "large + 1000 < spare \<or> spare < large \<Longrightarrow> settle k spare small large large = large"
  by (cases k) auto

lemma settle_swings:
  assumes "small + 1000 < spare" "large \<le> spare" "spare \<le> large + 1000" "small + 20 \<le> large"
  shows "settle (2 * k) spare small large small = small"
proof (induction k)
  case (Suc k)
  have "settle (Suc (Suc (2 * k))) spare small large small = settle (2 * k) spare small large small" using assms by simp
  then show ?case using Suc by simp
qed simp

lemma settle_result:
  assumes "first \<le> small" "small + 34 * r = large" "(r = 0 \<longrightarrow> large - first < 20)" "settle 20 spare small large first \<le> spare"
  shows "settle 20 spare small large first = (if (if spare > first + 1000 then large else small) - first < 20 then first
         else if spare > large + 1000 then large else small)"
proof -
  define y where "y = (if spare > first + 1000 then large else small)"
  have "first \<le> spare" using settle_values [of 20 spare small large first] assms(1,2,4) by auto
  then have "settle (Suc k) spare small large first = (if y - first < 20 then first else settle k spare small large y)" for k
    using assms(1,2) by (auto simp: y_def Let_def)
  from this [of 19] have step: "settle 20 spare small large first = (if y - first < 20 then first else settle 19 spare small large y)" by simp
  consider (close) "y - first < 20" | (small) "\<not> y - first < 20" "y = small" "spare \<le> first + 1000"
    | (large) "\<not> y - first < 20" "y = large" "first + 1000 < spare"
    by (cases "y - first < 20"; cases "first + 1000 < spare") (simp_all add: y_def)
  then show ?thesis
  proof cases
    case close
    then show ?thesis using step by (simp add: y_def)
  next
    case small
    have "settle 19 spare small large small \<in> {small, large}" using settle_values [of 19 spare small large small] by auto
    then have "small \<le> spare" using assms(2,4) step small by auto
    then have "settle 19 spare small large small = small" using small assms(1) by (intro settle_small) auto
    then show ?thesis using step small assms(1,2) by (auto simp: y_def)
  next
    case large
    then have "r \<noteq> 0" using assms(3) by auto
    then have gap: "small + 20 \<le> large" using assms(2) by simp
    show ?thesis
    proof (cases "large + 1000 < spare \<or> spare < large")
      case True
      then have "settle 19 spare small large large = large" by (rule settle_large)
      moreover from this have "large \<le> spare" using step large assms(4) by simp
      ultimately show ?thesis using True step large by (auto simp: y_def)
    next
      case False
      then have "settle (Suc k) spare small large large = settle k spare small large small" for k using gap by auto
      from this [of 18] have "settle 19 spare small large large = settle 18 spare small large small" by simp
      moreover have "settle 18 spare small large small = small"
      proof (cases "small + 1000 < spare")
        case True
        then show ?thesis using settle_swings [of small spare large 9] False gap by simp
      next
        case False': False
        then show ?thesis using False gap by (intro settle_small) auto
      qed
      ultimately show ?thesis using False step large by (auto simp: y_def)
    qed
  qed
qed

lemma sint_diff:
  fixes x y :: u64
  assumes "unat x < 2 ^ 63" "unat y < 2 ^ 63"
  shows "sint (y - x) = int (unat y) - int (unat x)"
proof -
  have "y - x = word_of_int (int (unat y) - int (unat x))" by simp
  then have "sint (y - x) = (int (unat y) - int (unat x) + 2 ^ 63) mod 2 ^ 64 - 2 ^ 63"
    by (simp only: int_word_sint) simp
  also have "(int (unat y) - int (unat x) + 2 ^ 63) mod 2 ^ 64 = int (unat y) - int (unat x) + 2 ^ 63"
  proof (rule mod_pos_pos_trivial)
    have "int (unat x) < 2 ^ 63" "int (unat y) < 2 ^ 63" using assms by (simp_all only: of_nat_less_numeral_power_cancel_iff)
    moreover have "(2 ^ 64 :: int) = 2 ^ 63 + 2 ^ 63" by simp
    ultimately show "0 \<le> int (unat y) - int (unat x) + 2 ^ 63" "int (unat y) - int (unat x) + 2 ^ 63 < 2 ^ 64" by linarith+
  qed
  finally show ?thesis by simp
qed

lemma wrapping_abs_diff:
  fixes x y :: u64
  assumes "unat x < 2 ^ 63" "unat y < 2 ^ 63"
  shows "wrapping_abs (y - x) = \<bar>int (unat y) - int (unat x)\<bar>"
proof -
  have "- (y - x) = x - y" by simp
  then show ?thesis unfolding wrapping_abs_def
    by (cases "sint (y - x) < 0") (simp_all only: sint_diff [OF assms] sint_diff [OF assms(2,1)] if_True if_False abs_if)
qed

lemma over_dust:
  fixes s a x :: u64
  assumes "a \<le> s" "unat x < 2 ^ 63"
  shows "s - a - x > dust \<longleftrightarrow> unat s - unat a > unat x + 1000 \<or> unat s - unat a < unat x"
proof -
  have d: "unat (s - a) = unat s - unat a" using assms(1) by (rule unat_sub)
  show ?thesis
  proof (cases "x \<le> s - a")
    case True
    then have "unat (s - a - x) = unat s - unat a - unat x" "unat x \<le> unat s - unat a" using d by (simp_all add: unat_sub word_le_nat_alt)
    then show ?thesis by (auto simp: dust_def word_less_nat_alt)
  next
    case False
    then have less: "unat s - unat a < unat x" using d by (simp add: word_le_nat_alt)
    have "unat (s - a - x) = 2 ^ 64 + unat (s - a) - unat x"
      using less d by (simp add: unat_sub_if')
    then have "1000 < unat (s - a - x)" using assms(2) by simp
    then show ?thesis using less by (simp add: dust_def word_less_nat_alt)
  qed
qed

lemma fee_rounds_settle:
  fixes s a rate :: u64
  assumes "a \<le> s" "(110 * n + 94) * unat rate < 2 ^ 63" "unat cur < 2 ^ 63"
  shows "unat (fee_rounds k s a rate (of_nat n) cur) =
    settle k (unat s - unat a) ((110 * n + 60) * unat rate) ((110 * n + 94) * unat rate) (unat cur)"
  using assms(3)
proof (induction k arbitrary: cur)
  case (Suc k)
  let ?new = "payment_size (of_nat n) (s - a - cur) * rate"
  let ?y = "if unat s - unat a > unat cur + 1000 \<or> unat s - unat a < unat cur then (110 * n + 94) * unat rate else (110 * n + 60) * unat rate"
  have "(110 * n + 60) * unat rate \<le> (110 * n + 94) * unat rate" by (rule mult_right_mono) simp_all
  then have "(110 * n + 60) * unat rate < 2 ^ 63" using assms(2) by (rule le_less_trans)
  then have small: "?y < 2 ^ 63" using assms(2) by (simp split: if_split)
  have "unat ?new = ?y"
    unfolding payment_size_eq using over_dust [OF assms(1) Suc.prems] small
    by (subst unat_of_nat_mult) (auto split: if_splits)
  moreover from this have "wrapping_abs (?new - cur) = \<bar>int ?y - int (unat cur)\<bar>"
    using wrapping_abs_diff [OF Suc.prems, of ?new] small by simp
  ultimately show ?case using Suc.IH [of ?new] small by (simp only: fee_rounds.simps settle.simps Let_def) simp
qed simp

lemma payment_fee_settled:
  fixes s a rate :: u64
  assumes "a \<le> s" "unat a + (110 * n + 94) * unat rate < 2 ^ 63" "a + payment_fee s a rate (of_nat n) \<le> s"
  shows "unat (payment_fee s a rate (of_nat n)) = settled_fee n (unat rate) (unat s - unat a)"
proof -
  let ?fee = "payment_fee s a rate (of_nat n)" and ?r = "unat rate"
  have large: "(110 * n + 94) * ?r < 2 ^ 63" using assms(2) by simp
  have le: "(106 * n + 60) * ?r \<le> (110 * n + 94) * ?r" by (rule mult_right_mono) simp_all
  have "(of_nat n * dummy_sig_size + overhead + 34) = (of_nat (106 * n + 60) :: u64)"
    by (simp add: dummy_sig_size_def overhead_def)
  then have first: "unat ((of_nat n * dummy_sig_size + overhead + 34) * rate) = (106 * n + 60) * ?r"
    using unat_of_nat_mult [of "106 * n + 60" rate] le_less_trans [OF le large] by (simp only:) simp
  have fee: "unat ?fee = settle 20 (unat s - unat a) ((110 * n + 60) * ?r) ((110 * n + 94) * ?r) ((106 * n + 60) * ?r)"
    unfolding payment_fee_def first [symmetric] by (rule fee_rounds_settle [OF assms(1) large]) (use first le large in linarith)
  have "unat ?fee \<le> (110 * n + 94) * ?r" using fee_bounds(2) [of n rate s a] large by simp
  then have "unat a + unat ?fee < 2 ^ 64" using assms(2) by simp
  then have "unat (a + ?fee) = unat a + unat ?fee" by (simp add: unat_word_ariths)
  then have "unat ?fee \<le> unat s - unat a" using assms(3) by (simp add: word_le_nat_alt)
  then show ?thesis
    unfolding fee settled_fee_def Let_def
    by (intro settle_result [where r = ?r]) (simp_all add: algebra_simps)
qed

lemma pick_coins_stops:
  "pick_coins amount us s0 picked0 = (s, picked) \<Longrightarrow>
     \<exists>k\<le>length us. picked = picked0 @ take k us \<and> s = s0 + sum_list (map u_value (take k us)) \<and>
       (amount + 100000 \<le> s \<or> k = length us) \<and>
       (\<forall>j. 0 < j \<and> j < k \<longrightarrow> s0 + sum_list (map u_value (take j us)) < amount + 100000)"
proof (induction us arbitrary: s0 picked0)
  case (Cons u us)
  show ?case
  proof (cases "s0 + u_value u \<ge> amount + 100000")
    case True
    then show ?thesis using Cons.prems by (intro exI [of _ 1]) (auto simp: Let_def)
  next
    case False
    with Cons.prems obtain k where k: "k \<le> length us" "picked = (picked0 @ [u]) @ take k us"
        "s = s0 + u_value u + sum_list (map u_value (take k us))" "amount + 100000 \<le> s \<or> k = length us"
        "\<And>j. 0 < j \<Longrightarrow> j < k \<Longrightarrow> s0 + u_value u + sum_list (map u_value (take j us)) < amount + 100000"
      using Cons.IH [of "s0 + u_value u" "picked0 @ [u]"] by (auto simp: Let_def)
    have "s0 + sum_list (map u_value (take j (u # us))) < amount + 100000" if "0 < j" "j < Suc k" for j
      using that k(5) [of "j - 1"] False by (cases j; cases "j - 1") (auto simp: add.assoc)
    then show ?thesis using k(1-4) by (intro exI [of _ "Suc k"]) (simp add: add.assoc)
  qed
qed simp

lemma create_tx_steps:
  assumes "create_tx e b l conn wal to amount rate ch = Inr (tx, h)" "get_utxos e l conn wal True = Inr utxos"
  obtains k s f outs to_pkh where "k \<le> length utxos" "s = sum_list (map u_value (take k (sort_desc u_value utxos)))"
    "f = payment_fee s amount rate (of_nat k)"
    "amount + 100000 \<le> s \<or> k = length utxos"
    "\<forall>j. 0 < j \<and> j < k \<longrightarrow> sum_list (map u_value (take j (sort_desc u_value utxos))) < amount + 100000"
    "amount \<le> s" "amount + f \<le> s" "address_to_pubkey_hash b to = Inr to_pkh" "change_outputs e b l wal ch (s - amount - f) = Inr outs"
    "outputs tx = plain_output amount (p2pkh_script_from_pkh to_pkh) # outs"
    "map outpoint (inputs tx) = map (\<lambda>u. (u_txid u, u_vout u)) (take k (sort_desc u_value utxos))"
    "\<forall>j<k. signed_by e l wal tx j (sort_desc u_value utxos ! j)" "h = tx_hash e tx"
proof -
  obtain s picked where pick: "pick_coins amount (sort_desc u_value utxos) 0 [] = (s, picked)" by fastforce
  have len: "length (sort_desc u_value utxos) = length utxos" by (simp add: sort_desc_def)
  obtain k where k: "k \<le> length utxos" "picked = take k (sort_desc u_value utxos)" "s = sum_list (map u_value picked)"
      "amount + 100000 \<le> s \<or> k = length utxos"
      "\<forall>j. 0 < j \<and> j < k \<longrightarrow> sum_list (map u_value (take j (sort_desc u_value utxos))) < amount + 100000"
    using pick_coins_stops [OF pick] len by auto
  have n: "length picked = k" using k(1,2) len by simp
  define f where "f = payment_fee s amount rate (of_nat k)"
  obtain to_pkh outs where steps: "amount \<le> s" "amount + f \<le> s" "address_to_pubkey_hash b to = Inr to_pkh"
      "change_outputs e b l wal ch (s - amount - f) = Inr outs"
      "try_fold (sign_input e l wal) (unsigned_tx picked (plain_output amount (p2pkh_script_from_pkh to_pkh) # outs)) (enumerate 0 picked) = Inr tx"
      "h = tx_hash e tx"
    using assms pick by (auto simp: create_tx_def result_simps Let_def not_less n f_def)
  have "0 + length picked \<le> length (inputs (unsigned_tx picked (plain_output amount (p2pkh_script_from_pkh to_pkh) # outs)))"
    by (simp add: unsigned_tx_def)
  note signed = sign_all [OF steps(5) this]
  have "outputs tx = plain_output amount (p2pkh_script_from_pkh to_pkh) # outs"
    "map outpoint (inputs tx) = map (\<lambda>u. (u_txid u, u_vout u)) (take k (sort_desc u_value utxos))"
    using signed by (simp_all add: unsigned_tx_def k(2))
  moreover have "\<forall>j<k. signed_by e l wal tx j (sort_desc u_value utxos ! j)" using signed n by (simp add: k(2))
  ultimately show thesis using that [OF k(1) k(3) [unfolded k(2)] f_def k(4,5) steps(1-4) _ _ _ steps(6)] by blast
qed

text \<open>What a payment leaves as change, and to whom.\<close>

definition change_due :: "('p, 'a) env_scheme \<Rightarrow> base58 \<Rightarrow> wallet_lib \<Rightarrow> wallet \<Rightarrow> string option \<Rightarrow> nat \<Rightarrow> txoutput list \<Rightarrow> bool" where
  "change_due e b l wal change_addr change outs \<longleftrightarrow>
     (if change > 1000
      then \<exists>sk. derive_priv l (master wal) \<lparr>hardened = False, path_chain = 1, path_index = current_change_index wal\<rparr> = Some sk \<and>
        outs = [\<lparr>out_value = of_nat change, script_pubkey = p2pkh_script e (pubkey_of l sk), commitment = None\<rparr>]
      else case change_addr of
        None \<Rightarrow> outs = []
      | Some ch \<Rightarrow> \<exists>pkh. address_to_pubkey_hash b ch = Inr pkh \<and>
          outs = [\<lparr>out_value = of_nat change, script_pubkey = p2pkh_script_from_pkh pkh, commitment = None\<rparr>])"

lemma change_outputs_due:
  assumes "change_outputs e b l wal ch c = Inr outs"
  shows "change_due e b l wal ch (unat c) outs"
  using assms
  by (auto simp: change_outputs_def change_due_def plain_output_def dust_def key_at_def wallet_path_def word_less_nat_alt result_simps
      split: if_splits option.splits)

text \<open>C19. A payment takes the largest spendable outputs until they exceed the amount by 100000 units, or all of them.  It pays the
  amount to the address as its first output and the fee of the closed form \<^const>\<open>settled_fee\<close>.  What is left goes to the next
  change key of the wallet if it is more than dust, else to the change address if there is one, and else to the miner.  Every input
  carries a signature, under the key of the output it spends, of the transaction as it is finally sent, and the hash returned is that of
  the signed transaction.\<close>

theorem create_tx_balanced:
  assumes "create_tx e b l conn wal to amount rate ch = Inr (tx, h)" "get_utxos e l conn wal True = Inr utxos"
    "(\<Sum>u\<leftarrow>utxos. unat (u_value u)) < 2 ^ 64" "unat amount + 100000 + (110 * length utxos + 94) * unat rate < 2 ^ 63"
  shows "\<exists>k\<le>length utxos. let coins = sort_desc u_value utxos; total = (\<lambda>j. \<Sum>u\<leftarrow>take j coins. unat (u_value u));
      spare = total k - unat amount; fee = settled_fee k (unat rate) spare in
    (\<forall>j. 0 < j \<and> j < k \<longrightarrow> total j < unat amount + 100000) \<and> (unat amount + 100000 \<le> total k \<or> k = length utxos) \<and>
    unat amount + fee \<le> total k \<and> map outpoint (inputs tx) = map (\<lambda>u. (u_txid u, u_vout u)) (take k coins) \<and>
    (\<exists>pkh outs. address_to_pubkey_hash b to = Inr pkh \<and> change_due e b l wal ch (spare - fee) outs \<and>
      outputs tx = \<lparr>out_value = amount, script_pubkey = p2pkh_script_from_pkh pkh, commitment = None\<rparr> # outs) \<and>
    (\<forall>j<k. signed_by e l wal tx j (coins ! j)) \<and> h = tx_hash e tx"
  using assms(1,2)
proof (rule create_tx_steps)
  fix k s f outs pkh
  define total where "total = (\<lambda>j. \<Sum>u\<leftarrow>take j (sort_desc u_value utxos). unat (u_value u))"
  assume k: "k \<le> length utxos" and s: "s = sum_list (map u_value (take k (sort_desc u_value utxos)))"
    and f: "f = payment_fee s amount rate (of_nat k)" and stop: "amount + 100000 \<le> s \<or> k = length utxos"
    and more: "\<forall>j. 0 < j \<and> j < k \<longrightarrow> sum_list (map u_value (take j (sort_desc u_value utxos))) < amount + 100000"
    and le: "amount \<le> s" "amount + f \<le> s" and pkh: "address_to_pubkey_hash b to = Inr pkh"
    and outs: "change_outputs e b l wal ch (s - amount - f) = Inr outs"
      "outputs tx = plain_output amount (p2pkh_script_from_pkh pkh) # outs"
    and rest: "map outpoint (inputs tx) = map (\<lambda>u. (u_txid u, u_vout u)) (take k (sort_desc u_value utxos))"
      "\<forall>j<k. signed_by e l wal tx j (sort_desc u_value utxos ! j)" "h = tx_hash e tx"
  have worth: "unat (sum_list (map u_value (take j (sort_desc u_value utxos)))) = total j" for j
    unfolding total_def by (rule picked_sum [OF assms(3)])
  have bound: "unat (amount + 100000) = unat amount + 100000"
    using assms(4) by (simp add: unat_word_ariths)
  have "(110 * k + 94) * unat rate \<le> (110 * length utxos + 94) * unat rate" using k by (intro mult_right_mono) simp_all
  then have small: "unat amount + (110 * k + 94) * unat rate < 2 ^ 63" using assms(4) by linarith
  have us: "unat s = total k" by (simp only: s worth)
  have fee: "unat f = settled_fee k (unat rate) (total k - unat amount)"
    using payment_fee_settled [OF le(1) small] le(2) by (simp only: f us)
  have "unat f \<le> (110 * k + 94) * unat rate" unfolding f using small by (intro fee_bounds(2)) simp
  then have "unat amount + unat f < 2 ^ 63" using small by linarith
  then have af: "unat amount + unat f < 2 ^ 64" by simp
  note change = unat_change [OF af le(2)]
  have paid: "unat amount + settled_fee k (unat rate) (total k - unat amount) \<le> total k" using change us fee by linarith
  have "unat (s - amount - f) = total k - unat amount - settled_fee k (unat rate) (total k - unat amount)" using change us fee by linarith
  then have "change_due e b l wal ch (total k - unat amount - settled_fee k (unat rate) (total k - unat amount)) outs"
    using change_outputs_due [OF outs(1)] by (simp only:)
  moreover have "\<forall>j. 0 < j \<and> j < k \<longrightarrow> total j < unat amount + 100000"
    using more by (simp only: word_less_nat_alt worth bound)
  moreover have "unat amount + 100000 \<le> total k \<or> k = length utxos"
    using stop us by (simp only: word_le_nat_alt bound)
  moreover have "outputs tx = \<lparr>out_value = amount, script_pubkey = p2pkh_script_from_pkh pkh, commitment = None\<rparr> # outs"
    by (simp only: outs(2) plain_output_def)
  ultimately show ?thesis
    using paid k pkh rest unfolding Let_def total_def by blast
qed

section \<open>Witnesses\<close>

definition demo_lib :: wallet_lib where
  "demo_lib = \<lparr>mnemonic_seed = (\<lambda>_. Some [1]), new_master = (\<lambda>_. Some),
     derive_priv = (\<lambda>_ p. Some (if p = wallet_path 0 0 then [1] else [0])), scan_base_ok = True,
     normal_idx_ok = (\<lambda>i. unat i < 2 ^ 31), pubkey_of = (\<lambda>sk. sk), sign_der = (\<lambda>_ msg. msg), hex_encode = (\<lambda>_. []),
     scan_mempool = (\<lambda>_ _. [])\<rparr>"

definition demo_wal :: wallet where
  "demo_wal = \<lparr>master = [1], current_change_index = 0\<rparr>"

definition purse_db :: rocksdb where
  "purse_db = \<lparr>cfs = [default_cf, ''addr_index'', ''utxo'', ''tx_index''], tables = (\<lambda>_. [])
     (default_cf := [(ascii ''height'', u32_be 200)],
      ''addr_index'' := [(addr_key demo_env [1] zero_hash 0, u64_be 200000)],
      ''utxo'' := [(utxo_key False zero_hash 0, ser_output demo_env (plain_output 200000 [1]))],
      ''tx_index'' := [(zero_hash, ser_index demo_env (0, 0))])\<rparr>"

lemma purse_db_ok: "db_ok purse_db"
  by (simp add: db_ok_def purse_db_def tbl_ok_def)

lemma first_path: "wallet_paths = wallet_path 0 0 # tl wallet_paths" "wallet_path 0 0 \<notin> set (tl wallet_paths)"
  by code_simp+

lemma demo_env_hash160: "hash160 demo_env = hash160 demo_crypto"
  by (simp add: fun_eq_iff hash160_def hash_ripemd160_def demo_env_def)

lemma demo_keys_differ: "hash160 demo_crypto [0] \<noteq> hash160 demo_crypto [1]"
  using last_demo_hash [of "[0]"] last_demo_hash [of "[1]"] by auto

lemma purse_rows:
  "addr_rows purse_db (hash160 demo_crypto [1]) = [(addr_key demo_env [1] zero_hash 0, u64_be 200000)]"
  "addr_rows purse_db (hash160 demo_crypto [0]) = []"
proof -
  have "tbl_ok (tables purse_db ''addr_index'')" using purse_db_ok by (simp add: db_ok_def)
  note rows = prefix_scan_eq [OF this]
  note key = prefix_addr_key [OF demo_env_crypto_ok length_hash160 [OF demo_crypto_ok]]
  show "addr_rows purse_db (hash160 demo_crypto [1]) = [(addr_key demo_env [1] zero_hash 0, u64_be 200000)]"
    unfolding addr_rows_def rows by (simp add: purse_db_def key demo_env_hash160)
  show "addr_rows purse_db (hash160 demo_crypto [0]) = []"
    unfolding addr_rows_def rows using demo_keys_differ by (simp add: purse_db_def key demo_env_hash160)
qed

lemma purse_utxo:
  "utxo_row demo_env purse_db 200 True p us (addr_key demo_env [1] zero_hash 0, u64_be 200000) =
     Inr (us @ [\<lparr>u_txid = zero_hash, u_vout = 0, u_value = 200000, confirmations = 201, u_script = [1], u_height = 0, derivation_path = p,
       is_confirmed = True\<rparr>])"
proof -
  have row: "wallet_row (addr_key demo_env [1] zero_hash 0, u64_be 200000) = Inr (zero_hash, 0, 200000)"
    using length_hash160 [OF demo_crypto_ok] by (simp add: wallet_row_def addr_key_def slice_def demo_env_hash160 codec_simps)
  have "de_output demo_env (ser_output demo_env x) = Some x" "de_index demo_env (ser_index demo_env (i, j)) = Some (i, j)" for x i j
    using demo_env_bincode_ok by (simp_all add: bincode_ok_def)
  then show ?thesis
    unfolding utxo_row_def row
    by (simp add: purse_db_def db_get_def tbl_get_def plain_output_def saturating_sub_def COINBASE_MATURITY_def)
qed

lemma purse_utxos:
  "get_utxos demo_env demo_lib purse_db demo_wal True =
     Inr [\<lparr>u_txid = zero_hash, u_vout = 0, u_value = 200000, confirmations = 201, u_script = [1], u_height = 0,
       derivation_path = wallet_path 0 0, is_confirmed = True\<rparr>]"
proof -
  have cfs: "wallet_cfs purse_db True = Inr 200"
    by (simp add: wallet_cfs_def load_current_height_def DB_KEY_HEIGHT_def cf_handle_def purse_db_def db_get_def tbl_get_def codec_simps)
  let ?step = "\<lambda>utxos p. rbind (key_at demo_lib (master demo_wal) p) (\<lambda>sk.
    try_fold (utxo_row demo_env purse_db 200 True p) utxos (addr_rows purse_db (hash160 demo_env (pubkey_of demo_lib sk))))"
  have rest: "try_fold ?step us ps = Inr us" if "wallet_path 0 0 \<notin> set ps" for us ps
    using that by (induction ps) (auto simp: key_at_def demo_lib_def demo_env_hash160 purse_rows)
  have "?step [] (wallet_path 0 0) = Inr [\<lparr>u_txid = zero_hash, u_vout = 0, u_value = 200000, confirmations = 201, u_script = [1],
      u_height = 0, derivation_path = wallet_path 0 0, is_confirmed = True\<rparr>]"
    by (simp add: key_at_def demo_lib_def demo_env_hash160 purse_rows purse_utxo)
  then show ?thesis
    unfolding get_utxos_def cfs by (subst first_path(1)) (simp add: rest [OF first_path(2)])
qed

theorem scan_loop_returns_witness:
  "\<exists>r. scan_loop (scan_index demo_env demo_base58 demo_lib purse_db [1] 0 200) 20 0 0 [] [] = Some r"
  by (rule scan_loop_returns) (simp add: demo_lib_def)

theorem index_row_roundtrip_witness:
  "wallet_row (addr_key demo_crypto [1] zero_hash 3, u64_be 7) = Inr (zero_hash, 3, 7)"
  using index_row_roundtrip [OF demo_crypto_ok, of zero_hash "[1]" 3 7] by simp

theorem privkey_search_exact_witness:
  "get_privkey_for_address demo_crypto demo_base58 demo_lib demo_wal (to_base58check demo_base58 (0 # hash160 demo_crypto [1])) = Inr [1]"
  (is "?get = _")
proof -
  have b58: "address_to_pubkey_hash demo_base58 (to_base58check demo_base58 (0 # hash160 demo_crypto [1])) = Inr (hash160 demo_crypto [1])"
    using demo_base58_ok length_hash160 [OF demo_crypto_ok] by (simp add: address_to_pubkey_hash_def base58_ok_def)
  have "\<forall>chain i. chain < 2 \<and> i < 100 \<longrightarrow>
      derive_priv demo_lib (master demo_wal) \<lparr>hardened = False, path_chain = of_nat chain, path_index = of_nat i\<rparr> \<noteq> None"
    by (simp add: demo_lib_def)
  note exact = privkey_search_exact [OF b58 this, of demo_crypto, unfolded Let_def]
  have keys: "derive_priv demo_lib (master demo_wal) p = Some (if p = wallet_path 0 0 then [1] else [0])" "pubkey_of demo_lib sk = sk" for p sk
    by (simp_all add: demo_lib_def)
  show ?thesis
  proof (cases ?get)
    case (Inl f)
    from exact [unfolded Inl] show ?thesis by (auto simp: keys wallet_path_def dest!: spec [of _ 0])
  next
    case (Inr sk)
    from exact [unfolded Inr] show ?thesis unfolding Inr using demo_keys_differ by (auto simp: keys split: if_splits)
  qed
qed

lemma purse_pays:
  "\<exists>tx h. create_tx demo_env demo_base58 demo_lib purse_db demo_wal (to_base58check demo_base58 (0 # hash160 demo_crypto [1])) 50000 1 None =
     Inr (tx, h)"
proof -
  have b58: "address_to_pubkey_hash demo_base58 (to_base58check demo_base58 (0 # hash160 demo_crypto [1])) = Inr (hash160 demo_crypto [1])"
    using demo_base58_ok length_hash160 [OF demo_crypto_ok] by (simp add: address_to_pubkey_hash_def base58_ok_def)
  have f: "payment_fee 200000 50000 1 1 = 204"
    by code_simp
  have "length (sha256d demo_env x) = 32" for x using demo_env_crypto_ok by (simp add: sha256d_def crypto_ok_def)
  moreover have "derive_priv demo_lib m p = Some (if p = wallet_path 0 0 then [1] else [0])" for m p by (simp add: demo_lib_def)
  ultimately show ?thesis
    by (auto simp: create_tx_def purse_utxos sort_desc_def f b58 change_outputs_def dust_def key_at_def
      sign_input_def sighash_def clear_script_sigs_def unsigned_tx_def Let_def)
qed

theorem create_tx_balanced_witness:
  "\<exists>tx h. create_tx demo_env demo_base58 demo_lib purse_db demo_wal (to_base58check demo_base58 (0 # hash160 demo_crypto [1])) 50000 1 None =
     Inr (tx, h) \<and> map out_value (outputs tx) = [50000, 149796] \<and> settled_fee 1 1 150000 = 204"
proof -
  obtain tx h where run: "create_tx demo_env demo_base58 demo_lib purse_db demo_wal (to_base58check demo_base58 (0 # hash160 demo_crypto [1])) 50000 1 None =
     Inr (tx, h)" using purse_pays by blast
  let ?us = "[\<lparr>u_txid = zero_hash, u_vout = 0, u_value = 200000, confirmations = 201, u_script = [1], u_height = 0,
       derivation_path = wallet_path 0 0, is_confirmed = True\<rparr>]"
  have fee: "settled_fee 1 1 150000 = 204" by (simp add: settled_fee_def)
  have "sort_desc u_value ?us = ?us" by (simp add: sort_desc_def)
  then obtain k where k: "k \<le> 1" "50000 + settled_fee k 1 ((\<Sum>u\<leftarrow>take k ?us. unat (u_value u)) - 50000) \<le> (\<Sum>u\<leftarrow>take k ?us. unat (u_value u))"
      "\<exists>pkh outs. change_due demo_env demo_base58 demo_lib demo_wal None ((\<Sum>u\<leftarrow>take k ?us. unat (u_value u)) - 50000 -
          settled_fee k 1 ((\<Sum>u\<leftarrow>take k ?us. unat (u_value u)) - 50000)) outs \<and>
        outputs tx = \<lparr>out_value = 50000, script_pubkey = p2pkh_script_from_pkh pkh, commitment = None\<rparr> # outs"
    using create_tx_balanced [OF run purse_utxos] by (auto simp: Let_def)
  have "k = 1" using k(1,2) by (cases k) auto
  then have "map out_value (outputs tx) = [50000, 149796]" using k(3) fee by (auto simp: change_due_def)
  then show ?thesis using run fee by (intro exI [of _ tx] exI [of _ h] conjI)
qed

end
