(* ===== verification/Config.thy ===== *)
theory Config
  imports Errors
begin

text \<open>
  \<^verbatim>\<open>config.rs\<close>: the settings of the node and \<^verbatim>\<open>AppConfig::load\<close>.  Parsing of the
  configuration file and the environment, base64, hexadecimal decoding, the random numbers, the number of
  processors and the reservation of huge pages are parameters.
\<close>

section \<open>Settings\<close>

record app_config =
  mainnet :: bool
  coinbase_sk :: string
  db_path :: string
  p2p_port :: "16 word"
  rpc_port :: "16 word"
  max_peers :: nat
  max_mempool_size :: nat
  seed_nodes :: "string list"
  tls_cert :: string
  tls_key :: string
  ca_cert :: string
  reorg_max_depth :: nat
  backup_signing_key :: string
  signing_key_path :: string
  tx_expiration_ms :: nat
  log_level :: string
  max_threads :: nat
  num_randomx_threads :: nat
  enable_huge_pages :: bool
  rpc_jwt_secret :: string
  coinbase_sk_bytes :: bytes
  cfg_checkpoint_hashes :: "usize \<rightharpoonup> hash256"
  checkpoints :: "(usize \<times> string) list"

text \<open>
  What loading takes from outside: the deserialised settings, the two decoders, the encoder, the 64 random
  bytes, the number of physical processors and the outcome of \<^verbatim>\<open>init_huge_pages\<close>.
\<close>

record config_lib =
  try_deserialize :: "app_config option"
  b64_decode :: "string \<Rightarrow> bytes option"
  b64_encode :: "bytes \<Rightarrow> string"
  decode_to_slice :: "string \<Rightarrow> bytes option"
  random_secret :: "bytes option"
  get_physical :: nat
  init_huge_pages :: "unit result"

section \<open>Loading\<close>

definition load_checkpoint :: "config_lib \<Rightarrow> (usize \<rightharpoonup> hash256) \<Rightarrow> usize \<times> string \<Rightarrow> (usize \<rightharpoonup> hash256) result" where
  "load_checkpoint l hashes = (\<lambda>(height, hex_str).
     rbind (or_err (decode_to_slice l hex_str) (Anyhow ''Invalid checkpoint hash'')) (\<lambda>hash.
     Inr (hashes(height \<mapsto> hash))))"

definition ensure_secret :: "config_lib \<Rightarrow> app_config \<Rightarrow> app_config result" where
  "ensure_secret l cfg =
     (if rpc_jwt_secret cfg = []
      then rbind (unwrap (random_secret l)) (\<lambda>secret. Inr (cfg\<lparr>rpc_jwt_secret := b64_encode l secret\<rparr>))
      else Inr cfg)"

definition validate_config :: "config_lib \<Rightarrow> app_config \<Rightarrow> app_config result" where
  "validate_config l cfg =
     rbind (bail_if (p2p_port cfg = 0 \<or> rpc_port cfg = 0) (Anyhow ''Ports must be > 0'')) (\<lambda>_.
     rbind (bail_if (rpc_jwt_secret cfg = []) (Anyhow ''RPC JWT secret required'')) (\<lambda>_.
     let cfg = (if num_randomx_threads cfg = 0 then cfg\<lparr>num_randomx_threads := min (get_physical l) 64\<rparr> else cfg) in
     rbind (bail_if (seed_nodes cfg = []) (Anyhow ''At least one seed node required'')) (\<lambda>_.
     rbind (if enable_huge_pages cfg then init_huge_pages l else Inr ()) (\<lambda>_. Inr cfg))))"

definition config_load :: "config_lib \<Rightarrow> app_config result" where
  "config_load l =
     rbind (or_err (try_deserialize l) (Anyhow ''Invalid configuration'')) (\<lambda>cfg.
     rbind (or_err (b64_decode l (coinbase_sk cfg)) (Anyhow ''Invalid base64 coinbase_sk'')) (\<lambda>decoded.
     rbind (bail_if (length decoded \<noteq> 32) (Anyhow ''coinbase_sk must be 32 bytes'')) (\<lambda>_.
     let cfg = cfg\<lparr>coinbase_sk_bytes := decoded\<rparr> in
     rbind (try_fold (load_checkpoint l) Map.empty (checkpoints cfg)) (\<lambda>hashes.
     rbind (ensure_secret l (cfg\<lparr>cfg_checkpoint_hashes := hashes\<rparr>)) (validate_config l)))))"


section \<open>What a loaded configuration satisfies\<close>

lemma load_checkpoint_simp [simp]:
  "load_checkpoint l hashes (h, s) =
     rbind (or_err (decode_to_slice l s) (Anyhow ''Invalid checkpoint hash'')) (\<lambda>hash. Inr (hashes(h \<mapsto> hash)))"
  by (simp add: load_checkpoint_def)

lemma load_checkpoints:
  assumes "try_fold (load_checkpoint l) hashes cps = Inr hashes'"
  shows "hashes' h = (case map_of (rev cps) h of Some s \<Rightarrow> decode_to_slice l s | None \<Rightarrow> hashes h) \<and>
    (\<forall>(_, s) \<in> set cps. decode_to_slice l s \<noteq> None)"
  using assms
proof (induction cps arbitrary: hashes)
  case (Cons cp cps)
  obtain k s where cp: "cp = (k, s)" by (cases cp)
  obtain hash where hash: "decode_to_slice l s = Some hash"
    using Cons.prems by (auto simp: cp result_simps)
  have "try_fold (load_checkpoint l) (hashes(k \<mapsto> hash)) cps = Inr hashes'"
    using Cons.prems by (simp add: cp hash)
  from Cons.IH [OF this] show ?case by (auto simp: cp hash map_add_def split: option.splits)
qed simp

lemma ensure_secret_Inr:
  "ensure_secret l cfg = Inr cfg' \<Longrightarrow> cfg' = cfg\<lparr>rpc_jwt_secret := rpc_jwt_secret cfg'\<rparr>"
  by (auto simp: ensure_secret_def result_simps split: if_splits)

lemma validate_config_Inr:
  assumes "validate_config l cfg = Inr cfg'"
  shows "p2p_port cfg \<noteq> 0 \<and> rpc_port cfg \<noteq> 0 \<and> rpc_jwt_secret cfg \<noteq> [] \<and> seed_nodes cfg \<noteq> [] \<and>
    cfg' = cfg\<lparr>num_randomx_threads := if num_randomx_threads cfg = 0 then min (get_physical l) 64 else num_randomx_threads cfg\<rparr>"
  using assms by (auto simp: validate_config_def Let_def result_simps split: if_splits)

lemma config_load_Inr:
  assumes "config_load l = Inr cfg"
  shows "\<exists>cfg'. b64_decode l (coinbase_sk cfg') = Some (coinbase_sk_bytes cfg') \<and> length (coinbase_sk_bytes cfg') = 32 \<and>
    try_fold (load_checkpoint l) Map.empty (checkpoints cfg') = Inr (cfg_checkpoint_hashes cfg') \<and>
    validate_config l cfg' = Inr cfg"
proof -
  obtain raw decoded hashes cfg' where *: "b64_decode l (coinbase_sk raw) = Some decoded" "length decoded = 32"
      "try_fold (load_checkpoint l) Map.empty (checkpoints raw) = Inr hashes"
      "ensure_secret l (raw\<lparr>coinbase_sk_bytes := decoded, cfg_checkpoint_hashes := hashes\<rparr>) = Inr cfg'"
      "validate_config l cfg' = Inr cfg"
    using assms by (auto simp: config_load_def Let_def result_simps)
  have cfg': "cfg' = raw\<lparr>coinbase_sk_bytes := decoded, cfg_checkpoint_hashes := hashes, rpc_jwt_secret := rpc_jwt_secret cfg'\<rparr>"
    using ensure_secret_Inr [OF *(4)] by simp
  have "coinbase_sk cfg' = coinbase_sk raw" "coinbase_sk_bytes cfg' = decoded" "checkpoints cfg' = checkpoints raw"
      "cfg_checkpoint_hashes cfg' = hashes" by (subst cfg', simp)+
  with * show ?thesis by (intro exI [of _ cfg']) simp
qed

text \<open>C40. A configuration that loads has a coinbase key of 32 bytes, which is the decoded setting, both ports
  set, a token secret, a seed node and a mining thread where the machine has a processor.  Its checkpoint
  table holds exactly the decoded checkpoints, and all of them could be decoded.\<close>

theorem config_load_sound:
  assumes "config_load l = Inr cfg" "distinct (map fst (checkpoints cfg))" "0 < get_physical l"
  shows "b64_decode l (coinbase_sk cfg) = Some (coinbase_sk_bytes cfg) \<and> length (coinbase_sk_bytes cfg) = 32 \<and>
    p2p_port cfg \<noteq> 0 \<and> rpc_port cfg \<noteq> 0 \<and> rpc_jwt_secret cfg \<noteq> [] \<and> seed_nodes cfg \<noteq> [] \<and> 0 < num_randomx_threads cfg \<and>
    (\<forall>h. cfg_checkpoint_hashes cfg h = Option.bind (map_of (checkpoints cfg) h) (decode_to_slice l)) \<and>
    (\<forall>(_, s) \<in> set (checkpoints cfg). decode_to_slice l s \<noteq> None)"
proof -
  obtain cfg' where loaded: "b64_decode l (coinbase_sk cfg') = Some (coinbase_sk_bytes cfg')" "length (coinbase_sk_bytes cfg') = 32"
      "try_fold (load_checkpoint l) Map.empty (checkpoints cfg') = Inr (cfg_checkpoint_hashes cfg')"
      and valid: "validate_config l cfg' = Inr cfg"
    using config_load_Inr [OF assms(1)] by blast
  note valid = validate_config_Inr [OF valid]
  have "map_of (rev (checkpoints cfg)) = map_of (checkpoints cfg)" using assms(2) by (simp add: map_of_inject_set rev_map [symmetric])
  then have "cfg_checkpoint_hashes cfg h = Option.bind (map_of (checkpoints cfg) h) (decode_to_slice l)" for h
    using load_checkpoints [OF loaded(3), of h] valid by (auto split: option.splits)
  with loaded valid load_checkpoints [OF loaded(3)] assms(3) show ?thesis by simp
qed

definition demo_config :: app_config where
  "demo_config = \<lparr>mainnet = False, coinbase_sk = ''key'', db_path = ''db'', p2p_port = 1, rpc_port = 2, max_peers = 100,
     max_mempool_size = 1000, seed_nodes = [''seed''], tls_cert = [], tls_key = [], ca_cert = [], reorg_max_depth = 10,
     backup_signing_key = [], signing_key_path = [], tx_expiration_ms = 1000, log_level = [], max_threads = 1,
     num_randomx_threads = 0, enable_huge_pages = False, rpc_jwt_secret = [], coinbase_sk_bytes = [],
     cfg_checkpoint_hashes = Map.empty, checkpoints = [(5, ''00'')]\<rparr>"

definition demo_config_lib :: config_lib where
  "demo_config_lib = \<lparr>try_deserialize = Some demo_config, b64_decode = (\<lambda>_. Some zero_hash), b64_encode = (\<lambda>_. ''secret''),
     decode_to_slice = (\<lambda>_. Some zero_hash), random_secret = Some [], get_physical = 4, init_huge_pages = Inr ()\<rparr>"

theorem config_load_sound_witness:
  "map_option num_randomx_threads (case config_load demo_config_lib of Inr cfg \<Rightarrow> Some cfg | Inl _ \<Rightarrow> None) = Some 4 \<and>
   (\<exists>cfg. config_load demo_config_lib = Inr cfg \<and> cfg_checkpoint_hashes cfg 5 = Some zero_hash)"
proof -
  let ?cfg = "demo_config\<lparr>coinbase_sk_bytes := zero_hash, cfg_checkpoint_hashes := [5 \<mapsto> zero_hash],
    rpc_jwt_secret := ''secret'', num_randomx_threads := 4\<rparr>"
  have run: "config_load demo_config_lib = Inr ?cfg"
    by (simp add: config_load_def demo_config_lib_def demo_config_def ensure_secret_def validate_config_def Let_def)
  have "cfg_checkpoint_hashes ?cfg 5 = Option.bind (map_of (checkpoints ?cfg) 5) (decode_to_slice demo_config_lib)"
    using config_load_sound [OF run] by (simp add: demo_config_lib_def demo_config_def)
  then show ?thesis using run by (simp add: demo_config_lib_def demo_config_def)
qed

end
