(* ===== verification/Net.thy ===== *)
theory Net
  imports Chain Config
begin

text \<open>
  \<^verbatim>\<open>net.rs\<close>: peers, bans, the handshake, the framing of messages and the message handler.  A peer is
  reached through an \<^verbatim>\<open>Arc\<close>: \<open>peer_store\<close> holds the objects and a peer is its index.  A guard that a
  task keeps for ever, because the task waits for ever, stays in the state: \<open>peers_lock\<close> and
  \<open>mempool_lock\<close> are write guards, \<open>chain_lock\<close> is the guard of the chain.  Rate limiters and
  full channels only delay, metrics and logging have no effect, and the tasks of a peer are given by their
  steps.
\<close>

section \<open>State\<close>

datatype ip_addr = V4 "u8 list" | V6 "u8 list"

datatype rw_lock = Free | Reading | Writing

record peer =
  reputation :: "8 word"
  peer_version :: u32
  peer_height :: nat
  peer_id :: bytes
  score :: u32
  receiver :: bool
  outbox :: "bytes list"

record peer_manager =
  peer_store :: "peer list"
  peers :: "(ip_addr \<times> nat list) list"
  peers_by_id :: "(bytes \<times> ip_addr \<times> nat) list"
  bans :: "(ip_addr \<times> nat) list"
  bans_persistent :: "(ip_addr \<times> nat) list"
  inv_queue :: "(u32 \<times> hash256) list"
  net_chain :: chain
  signature_cache :: "bytes \<rightharpoonup> bytes \<times> nat"
  known_peers :: "string list"
  pending_inv :: "bytes \<rightharpoonup> usize"
  peers_lock :: bool
  chain_lock :: rw_lock

text \<open>
  Libraries: the key pair of the node, ed25519, peer identities, \<^verbatim>\<open>zeroize\<close>, snappy and the
  encodings of the values that only messages carry.
\<close>

record net_lib =
  our_pub :: bytes
  sign :: "bytes \<Rightarrow> bytes"
  ed_key_ok :: "bytes \<Rightarrow> bool"
  ed_sig_ok :: "bytes \<Rightarrow> bool"
  ed_verify :: "bytes \<Rightarrow> bytes \<Rightarrow> bytes \<Rightarrow> bool"
  peer_id_from_bytes :: "bytes \<Rightarrow> bytes option"
  zeroize_mut :: "bytes \<Rightarrow> bytes"
  snappy_compress :: "bytes \<Rightarrow> bytes option"
  snappy_uncompress :: "bytes \<Rightarrow> bytes option"
  ser_u32 :: "u32 \<Rightarrow> bytes"
  ser_headers :: "block_header list \<Rightarrow> bytes"
  de_headers :: "bytes \<Rightarrow> block_header list option"
  ser_addrs :: "string list \<Rightarrow> bytes"
  de_addrs :: "bytes \<Rightarrow> string list option"
  ser_addr_msg :: "u32 \<times> nat \<times> string list \<Rightarrow> bytes"

definition VERSION :: u32 where "VERSION = 1"
definition MIN_VERSION :: u32 where "MIN_VERSION = 1"
definition MAX_MESSAGE_SIZE :: nat where "MAX_MESSAGE_SIZE = 4 * 1024 * 1024"
definition SIGNATURE_CACHE_TTL_MS :: nat where "SIGNATURE_CACHE_TTL_MS = 3600000"
definition MAX_PEERS_PER_SUBNET :: nat where "MAX_PEERS_PER_SUBNET = 2"
definition MSG_GETADDR :: u32 where "MSG_GETADDR = 9"
definition MSG_ADDR :: u32 where "MSG_ADDR = 10"
definition MSG_PONG :: u32 where "MSG_PONG = 12"
definition MSG_HEADERS :: u32 where "MSG_HEADERS = 8"
definition MSG_TX :: u32 where "MSG_TX = 5"
definition MSG_BLOCK :: u32 where "MSG_BLOCK = 6"

definition ban_hours :: nat where "ban_hours = 72 * 3600"

text \<open>The text form of an address, as the standard library prints it.\<close>

fun join_with :: "string \<Rightarrow> string list \<Rightarrow> string" where
  "join_with sep [] = []"
| "join_with sep [s] = s"
| "join_with sep (s # ss) = s @ sep @ join_with sep ss"

fun hex_digits :: "nat \<Rightarrow> string" where
  "hex_digits n = (let d = [char_of (if n mod 16 < 10 then 48 + n mod 16 else 87 + n mod 16)]
     in if n < 16 then d else hex_digits (n div 16) @ d)"

declare hex_digits.simps [simp del]

fun segments :: "u8 list \<Rightarrow> nat list" where
  "segments (a # b # bs) = (unat a * 256 + unat b) # segments bs"
| "segments _ = []"

definition zero_run :: "nat list \<Rightarrow> nat \<times> nat" where
  "zero_run segs = fst (fold (\<lambda>i ((start, len), (s, l)).
     if segs ! i = 0
     then let run = (if l = 0 then i else s, l + 1) in (if l + 1 > len then run else (start, len), run)
     else ((start, len), (0, 0))) [0..<length segs] ((0, 0), (0, 0)))"

fun show_ip :: "ip_addr \<Rightarrow> string" where
  "show_ip (V4 octets) = join_with ''.'' (map (\<lambda>b. decimal (unat b)) octets)"
| "show_ip (V6 octets) =
     (let segs = segments octets; hex = (\<lambda>ss. join_with '':'' (map hex_digits ss))
      in if take 5 segs = replicate 5 0 \<and> segs ! 5 = 0xffff
         then ''::ffff:'' @ join_with ''.'' (map (\<lambda>b. decimal (unat b)) (drop 12 octets))
         else case zero_run segs of (start, len) \<Rightarrow>
           if len > 1 then hex (take start segs) @ ''::'' @ hex (drop (start + len) segs) else hex segs)"

section \<open>Peers and bans\<close>

definition penalize :: "u32 \<Rightarrow> peer \<Rightarrow> peer \<times> bool" where
  "penalize cost p = (p\<lparr>score := score p - cost\<rparr>, sint (score p) \<le> 0)"

definition is_banned :: "nat \<Rightarrow> ip_addr \<Rightarrow> peer_manager \<Rightarrow> peer_manager \<times> bool" where
  "is_banned now ip pm =
     (let live = filter (\<lambda>(_, expiry). now < expiry);
          pm = pm\<lparr>bans := live (bans pm), bans_persistent := live (bans_persistent pm)\<rparr>
      in (pm, map_of (bans pm) ip \<noteq> None \<or> map_of (bans_persistent pm) ip \<noteq> None))"

definition remove_peers :: "ip_addr \<Rightarrow> peer_manager \<Rightarrow> peer_manager \<times> unit result" where
  "remove_peers ip pm =
     (if peers_lock pm then (pm, Inl Blocked) else (pm\<lparr>peers := al_delete ip (peers pm)\<rparr>, Inr ()))"

definition ban_key :: "ip_addr \<Rightarrow> dbkey" where
  "ban_key ip = (default_cf, ascii (''ban:'' @ show_ip ip))"

definition store_ban :: "world \<Rightarrow> ip_addr \<Rightarrow> u64 \<Rightarrow> peer_manager \<Rightarrow> peer_manager" where
  "store_ban w ip expiry pm =
     (let c = net_chain pm
      in if write_ok w then pm\<lparr>net_chain := c\<lparr>chain_db := db_put (ban_key ip) (u64_be expiry) (chain_db c)\<rparr>\<rparr> else pm)"

definition ban_ip :: "world \<Rightarrow> ip_addr \<Rightarrow> nat \<Rightarrow> peer_manager \<Rightarrow> peer_manager \<times> unit result" where
  "ban_ip w ip duration pm =
     (let pm = pm\<lparr>bans := al_insert ip (instant w + duration) (bans pm)\<rparr>
      in case clock_ms w of
           None \<Rightarrow> (pm, Inl Panic)
         | Some now \<Rightarrow>
             let pm = pm\<lparr>bans_persistent := al_insert ip (instant w + duration) (bans_persistent pm)\<rparr>
             in remove_peers ip (store_ban w ip (of_nat (now div 1000) + of_nat duration) pm))"

definition set_peer :: "nat \<Rightarrow> (peer \<Rightarrow> peer) \<Rightarrow> peer_manager \<Rightarrow> peer_manager" where
  "set_peer h f pm = pm\<lparr>peer_store := (peer_store pm)[h := f (peer_store pm ! h)]\<rparr>"

definition decrease_reputation :: "world \<Rightarrow> nat \<Rightarrow> ip_addr \<Rightarrow> peer_manager \<Rightarrow> peer_manager \<times> unit result" where
  "decrease_reputation w h ip pm =
     (let pm = set_peer h (\<lambda>p. p\<lparr>reputation := reputation p - 10\<rparr>) pm
      in if sint (reputation (peer_store pm ! h)) \<le> - 50 then ban_ip w ip ban_hours pm else (pm, Inr ()))"

definition remove_peer :: "ip_addr \<Rightarrow> nat \<Rightarrow> peer_manager \<Rightarrow> peer_manager \<times> unit result" where
  "remove_peer ip h pm =
     (if peers_lock pm then (pm, Inl Blocked)
      else
        let pm = pm\<lparr>peers_lock := True,
                    peers := filter (\<lambda>(k, hs). k \<noteq> ip \<or> hs \<noteq> []) (al_modify ip (filter (\<lambda>p. p \<noteq> h)) (peers pm)),
                    peers_by_id := al_delete (peer_id (peer_store pm ! h)) (peers_by_id pm)\<rparr>
        in if peers_lock pm then (pm, Inl Blocked) else (pm\<lparr>peers_lock := False\<rparr>, Inr ()))"

text \<open>\<^verbatim>\<open>write_tx.send\<close> fails when the receiving half of the channel is gone.\<close>

definition send_to :: "nat \<Rightarrow> bytes \<Rightarrow> peer_manager \<Rightarrow> peer_manager \<times> bool" where
  "send_to h msg pm =
     (if receiver (peer_store pm ! h) then (set_peer h (\<lambda>p. p\<lparr>outbox := outbox p @ [msg]\<rparr>) pm, True) else (pm, False))"

definition send_ok :: "nat \<Rightarrow> bytes \<Rightarrow> peer_manager \<Rightarrow> peer_manager \<times> unit result" where
  "send_ok h msg pm = (fst (send_to h msg pm), Inr ())"

definition broadcast :: "bytes \<Rightarrow> peer_manager \<Rightarrow> peer_manager \<times> unit result" where
  "broadcast msg pm =
     (if peers_lock pm then (pm, Inl Blocked)
      else (fold (\<lambda>h pm. fst (send_to h msg pm)) (concat (map snd (peers pm))) pm, Inr ()))"

section \<open>Handshake\<close>

definition handshake_prefix :: "net_lib \<Rightarrow> hash256 \<Rightarrow> nat \<Rightarrow> bytes \<Rightarrow> bytes" where
  "handshake_prefix x ghash stamp salt = ser_u32 x VERSION @ ghash @ le_bytes 16 stamp @ salt"

definition cached_key :: "peer_manager \<Rightarrow> nat \<Rightarrow> bytes \<Rightarrow> bytes \<Rightarrow> bool" where
  "cached_key pm now pid key =
     (case signature_cache pm pid of
        None \<Rightarrow> False
      | Some (cached, time) \<Rightarrow> key = cached \<and> (now + 2 ^ 128 - time) mod 2 ^ 128 < SIGNATURE_CACHE_TTL_MS)"

definition check_claims :: "net_lib \<Rightarrow> hash256 \<Rightarrow> nat \<Rightarrow> bytes \<Rightarrow> u32 result" where
  "check_claims x ghash stamp buf =
     rbind (slice buf 0 4) (\<lambda>version.
     rbind (bail_if (u32_from_le version < MIN_VERSION) InvalidHandshake) (\<lambda>_.
     rbind (slice buf 4 36) (\<lambda>recv_genesis.
     rbind (bail_if (recv_genesis \<noteq> ghash) InvalidHandshake) (\<lambda>_.
     rbind (slice buf 36 44) (\<lambda>recv_stamp.
     rbind (slice buf 44 56) (\<lambda>recv_nonce.
     rbind (bail_if (zeroize_mut x recv_nonce = replicate 12 0) InvalidHandshake) (\<lambda>_.
     rbind (bail_if (wrapping_abs (u64_from_le recv_stamp - of_nat stamp) > 300) InvalidHandshake) (\<lambda>_.
     Inr (u32_from_le version)))))))))"

definition check_handshake ::
  "net_lib \<Rightarrow> hash256 \<Rightarrow> nat \<Rightarrow> nat \<Rightarrow> nat \<Rightarrow> bytes \<Rightarrow> nat \<Rightarrow> peer_manager \<Rightarrow> peer_manager \<times> unit result" where
  "check_handshake x ghash stamp now msg_len buf h pm =
     sbind (pm, slice buf msg_len (msg_len + 32)) (\<lambda>key pm.
     sbind (pm, bail_if (\<not> ed_key_ok x key) (Anyhow ''Invalid public key'')) (\<lambda>_ pm.
     sbind (pm, or_err (peer_id_from_bytes x key) (Anyhow ''PeerId from bytes failed'')) (\<lambda>pid pm.
     if cached_key pm now pid key then (pm, Inr ())
     else
       sbind (pm, slice buf (msg_len + 32) (msg_len + 96)) (\<lambda>sig pm.
       sbind (pm, bail_if (\<not> ed_sig_ok x sig) (Anyhow ''Invalid signature'')) (\<lambda>_ pm.
       sbind (pm, bail_if (\<not> ed_verify x key (take msg_len buf @ key) sig) (Anyhow ''Signature verification failed'')) (\<lambda>_ pm.
       sbind (pm, check_claims x ghash stamp buf) (\<lambda>version pm.
       (set_peer h (\<lambda>p. p\<lparr>peer_version := version\<rparr>) (pm\<lparr>signature_cache := (signature_cache pm)(pid \<mapsto> (key, now))\<rparr>), Inr ()))))))))"

definition handshake ::
  "net_lib \<Rightarrow> world \<Rightarrow> bytes option \<Rightarrow> bytes \<Rightarrow> nat \<Rightarrow> peer_manager \<Rightarrow> peer_manager \<times> unit result" where
  "handshake x w random incoming h pm =
     (if chain_lock pm = Writing then (pm, Inl Blocked)
      else
        let ghash = genesis_hash (net_chain pm) in
        sbind (pm, or_err (clock_ms w) InvalidTimestamp) (\<lambda>now pm.
        sbind (pm, or_err random (Anyhow ''Nonce generation error'')) (\<lambda>salt pm.
        let stamp = now div 1000; msg = handshake_prefix x ghash stamp salt; to_sign = msg @ our_pub x in
        case send_to h (to_sign @ sign x to_sign) pm of (pm, sent) \<Rightarrow>
        sbind (pm, bail_if (\<not> sent) (Anyhow ''Send handshake error'')) (\<lambda>_ pm.
        let want = 0 + length msg + 32 + 64 + 4 in
        sbind (pm, bail_if (length incoming < want) (Anyhow ''Handshake timeout'')) (\<lambda>_ pm.
        let buf = take want incoming in
        sbind (pm, bail_if (length buf \<noteq> length msg + 32 + 64) InvalidHandshake) (\<lambda>_ pm.
        check_handshake x ghash stamp now (length msg) buf h pm))))))"

section \<open>Connections\<close>

fun subnet_of :: "ip_addr \<Rightarrow> ip_addr" where
  "subnet_of (V4 octets) = V4 (take 3 octets @ [0])"
| "subnet_of (V6 octets) = V6 (take 14 octets @ [0, 0])"

definition connections :: "ip_addr \<Rightarrow> peer_manager \<Rightarrow> nat" where
  "connections ip pm = (case map_of (peers pm) ip of Some hs \<Rightarrow> length hs | None \<Rightarrow> 0)"

definition has_room :: "app_config \<Rightarrow> ip_addr \<Rightarrow> peer_manager \<Rightarrow> bool" where
  "has_room cfg ip pm \<longleftrightarrow>
     \<not> (connections ip pm \<ge> max_peers cfg div 10 \<or> length (peers pm) \<ge> max_peers cfg) \<and>
     \<not> connections (subnet_of ip) pm \<ge> MAX_PEERS_PER_SUBNET"

definition peer_manager_new :: "app_config \<Rightarrow> chain \<Rightarrow> peer_manager" where
  "peer_manager_new cfg c =
     \<lparr>peer_store = [], peers = [], peers_by_id = [], bans = [], bans_persistent = [], inv_queue = [], net_chain = c,
      signature_cache = Map.empty, known_peers = seed_nodes cfg, pending_inv = Map.empty, peers_lock = False,
      chain_lock = Free\<rparr>"

text \<open>\<^verbatim>\<open>mpsc::channel(100).0\<close> keeps the sending half and drops the receiving one.\<close>

definition new_peer :: "bytes \<Rightarrow> peer" where
  "new_peer pid =
     \<lparr>reputation = 0, peer_version = 0, peer_height = 0, peer_id = pid, score = 100, receiver = False, outbox = []\<rparr>"

definition peer_addr :: "app_config \<Rightarrow> ip_addr \<Rightarrow> string" where
  "peer_addr cfg ip = show_ip ip @ '':'' @ decimal (unat (p2p_port cfg))"

definition register_peer :: "net_lib \<Rightarrow> app_config \<Rightarrow> world \<Rightarrow> nat \<Rightarrow> ip_addr \<Rightarrow> peer_manager \<Rightarrow> peer_manager \<times> unit result" where
  "register_peer x cfg w h ip pm =
     (let pm = pm\<lparr>known_peers := known_peers pm @ [peer_addr cfg ip]\<rparr> in
      sbind (pm, or_err (clock_ms w) InvalidTimestamp) (\<lambda>now pm.
      sbind (broadcast (ser_addr_msg x (MSG_ADDR, now, [peer_addr cfg ip])) pm) (\<lambda>_ pm.
      sbind (send_ok h (ser_u32 x MSG_GETADDR) pm) (\<lambda>_ pm.
      if peers_lock pm then (pm, Inl Blocked)
      else (pm\<lparr>peers := al_entry ip [] (\<lambda>hs. hs @ [h]) (peers pm),
               peers_by_id := al_insert (peer_id (peer_store pm ! h)) (ip, h) (peers_by_id pm)\<rparr>, Inr ())))))"

definition add_peer ::
  "net_lib \<Rightarrow> app_config \<Rightarrow> world \<Rightarrow> bytes option \<Rightarrow> bytes \<Rightarrow> ip_addr \<Rightarrow> peer_manager \<Rightarrow> peer_manager \<times> unit result" where
  "add_peer x cfg w random incoming ip pm =
     (case is_banned (instant w) ip pm of (pm, banned) \<Rightarrow>
      if banned then (pm, Inr ())
      else if peers_lock pm then (pm, Inl Blocked)
      else if \<not> has_room cfg ip pm then (pm, Inr ())
      else case peer_id_from_bytes x (our_pub x) of
        None \<Rightarrow> (pm, bail (Anyhow ''PeerId from bytes failed''))
      | Some pid \<Rightarrow>
          let h = length (peer_store pm); pm = pm\<lparr>peer_store := peer_store pm @ [new_peer pid]\<rparr>
          in case handshake x w random incoming h pm of
               (pm, Inr _) \<Rightarrow> register_peer x cfg w h ip pm
             | (pm, Inl (Err _)) \<Rightarrow> decrease_reputation w h ip pm
             | (pm, Inl f) \<Rightarrow> (pm, Inl f))"

section \<open>Framing\<close>

definition frame_out :: "net_lib \<Rightarrow> bytes \<Rightarrow> bytes result" where
  "frame_out x msg =
     (if length msg > 1024
      then rbind (or_err (snappy_compress x msg) DecompressionFailed) (\<lambda>compressed. Inr (1 # compressed))
      else Inr (0 # msg))"

definition unpack :: "net_lib \<Rightarrow> bool \<Rightarrow> bytes \<Rightarrow> bytes result" where
  "unpack x is_compressed dat =
     (if is_compressed
      then
        rbind (bail_if (length dat > MAX_COMPRESSED_SIZE) AttackDetected) (\<lambda>_.
        rbind (or_err (snappy_uncompress x dat) DecompressionFailed) (\<lambda>decomp.
        rbind (bail_if (length decomp > MAX_MSG_DECOMPRESSED) AttackDetected) (\<lambda>_. Inr decomp)))
      else Inr dat)"

definition frame_in :: "net_lib \<Rightarrow> bytes \<Rightarrow> bytes result" where
  "frame_in x buf =
     (let dat = tl buf in
      rbind (unpack x (hd buf = 1) dat) (\<lambda>processed.
      rbind (bail_if (length dat < 4) (InvalidBlock ''Message too short'')) (\<lambda>_. Inr processed)))"

definition heartbeat :: bytes where
  "heartbeat = [0]"

section \<open>Locks of the handler\<close>

text \<open>A guard is released when its scope ends, and never when the task waits for ever.\<close>

definition holding ::
  "(peer_manager \<Rightarrow> peer_manager) \<Rightarrow> (peer_manager \<Rightarrow> peer_manager) \<Rightarrow>
   (peer_manager \<Rightarrow> peer_manager \<times> 'a result) \<Rightarrow> peer_manager \<Rightarrow> peer_manager \<times> 'a result" where
  "holding acquire release f pm =
     (case f (acquire pm) of (pm, r) \<Rightarrow> (case r of Inl Blocked \<Rightarrow> (pm, r) | _ \<Rightarrow> (release pm, r)))"

definition set_mempool_lock :: "bool \<Rightarrow> peer_manager \<Rightarrow> peer_manager" where
  "set_mempool_lock b pm = pm\<lparr>net_chain := (net_chain pm)\<lparr>mempool_lock := b\<rparr>\<rparr>"

definition set_chain_lock :: "rw_lock \<Rightarrow> peer_manager \<Rightarrow> peer_manager" where
  "set_chain_lock l pm = pm\<lparr>chain_lock := l\<rparr>"

definition write_mempool :: "(peer_manager \<Rightarrow> peer_manager \<times> 'a result) \<Rightarrow> peer_manager \<Rightarrow> peer_manager \<times> 'a result" where
  "write_mempool f pm =
     (if mempool_lock (net_chain pm) then (pm, Inl Blocked)
      else holding (set_mempool_lock True) (set_mempool_lock False) f pm)"

definition read_chain :: "(peer_manager \<Rightarrow> peer_manager \<times> 'a result) \<Rightarrow> peer_manager \<Rightarrow> peer_manager \<times> 'a result" where
  "read_chain f pm =
     (if chain_lock pm = Writing then (pm, Inl Blocked)
      else holding (set_chain_lock Reading) (set_chain_lock (chain_lock pm)) f pm)"

definition write_chain :: "(peer_manager \<Rightarrow> peer_manager \<times> 'a result) \<Rightarrow> peer_manager \<Rightarrow> peer_manager \<times> 'a result" where
  "write_chain f pm =
     (if chain_lock pm \<noteq> Free then (pm, Inl Blocked)
      else holding (set_chain_lock Writing) (set_chain_lock Free) f pm)"

section \<open>Messages\<close>

text \<open>\<^verbatim>\<open>let _ = f();\<close> drops an error, while a panic or a wait remains.\<close>

definition ignore_err :: "'s \<times> 'a result \<Rightarrow> 's \<times> unit result" where
  "ignore_err m = (case m of (s, Inl Panic) \<Rightarrow> (s, Inl Panic) | (s, Inl Blocked) \<Rightarrow> (s, Inl Blocked) | (s, _) \<Rightarrow> (s, Inr ()))"

definition count_inv :: "bytes \<Rightarrow> peer_manager \<Rightarrow> peer_manager" where
  "count_inv pid pm =
     pm\<lparr>pending_inv := (pending_inv pm)(pid \<mapsto> (case pending_inv pm pid of Some n \<Rightarrow> n | None \<Rightarrow> 0) + 1)\<rparr>"

definition on_inv :: "u32 \<Rightarrow> bytes \<Rightarrow> peer_manager \<Rightarrow> peer_manager \<times> unit result" where
  "on_inv kind dat pm =
     sbind (pm, slice dat 4 36) (\<lambda>hash pm. (pm\<lparr>inv_queue := inv_queue pm @ [(kind, hash)]\<rparr>, Inr ()))"

definition on_getdata :: "'a codec_scheme \<Rightarrow> bytes \<Rightarrow> nat \<Rightarrow> peer_manager \<Rightarrow> peer_manager \<times> unit result" where
  "on_getdata e dat h pm =
     sbind (pm, slice dat 4 8) (\<lambda>kind pm.
     sbind (pm, slice dat 8 40) (\<lambda>hash pm.
     if u32_from_le kind = 1
     then if mempool_lock (net_chain pm) then (pm, Inl Blocked)
       else case map_of (pool (chain_mempool (net_chain pm))) hash of
         None \<Rightarrow> (pm, Inr ())
       | Some entry \<Rightarrow> send_ok h (u32_le MSG_TX @ ser_tx e (entry_tx entry)) pm
     else if u32_from_le kind = 2
     then read_chain (\<lambda>pm.
       sbind (pm, unwrap (hash_to_height (state (net_chain pm)) hash)) (\<lambda>height pm.
       sbind (pm, load_block_from_db e (chain_db (net_chain pm)) height) (\<lambda>blk pm.
       send_ok h (u32_le MSG_BLOCK @ ser_block e blk) pm))) pm
     else (pm, Inr ())))"

definition on_getheaders :: "net_lib \<Rightarrow> 'a codec_scheme \<Rightarrow> bytes \<Rightarrow> nat \<Rightarrow> peer_manager \<Rightarrow> peer_manager \<times> unit result" where
  "on_getheaders x e dat h pm =
     sbind (pm, bail_if (length dat < 40) (InvalidBlock ''GETHEADERS too short'')) (\<lambda>_ pm.
     sbind (pm, slice dat 4 36) (\<lambda>locator pm.
     sbind (pm, if length dat \<ge> 72 then slice dat 36 68 else Inr zero_hash) (\<lambda>stop pm.
     sbind (read_chain (\<lambda>pm. let c = net_chain pm in
         (pm, get_headers e (chain_db c) (hash_to_height (state c)) (best_height c) locator stop)) pm) (\<lambda>headers pm.
     send_ok h (u32_le MSG_HEADERS @ ser_headers x headers) pm))))"

definition on_tx :: "'a codec_scheme \<Rightarrow> world \<Rightarrow> bytes \<Rightarrow> peer_manager \<Rightarrow> peer_manager \<times> unit result" where
  "on_tx e w dat pm =
     sbind (pm, or_err (de_tx e (drop 4 dat)) Bincode) (\<lambda>tx pm.
     write_mempool (read_chain (\<lambda>pm.
       let c = net_chain pm in
       case mempool_insert e (chain_db c) (clock_ms w) (chain_mempool c) tx of (mp, r) \<Rightarrow>
       let pm = pm\<lparr>net_chain := c\<lparr>chain_mempool := mp\<rparr>\<rparr> in
       if r = Inr True then broadcast (u32_le 1 @ tx_hash e tx) pm else ignore_err (pm, r))) pm)"

definition on_block ::
  "('p::ab_group_add, 'a) env_scheme \<Rightarrow> externals \<Rightarrow> world \<Rightarrow> bytes \<Rightarrow> peer_manager \<Rightarrow> peer_manager \<times> unit result" where
  "on_block e n w dat pm =
     sbind (pm, or_err (de_block e (drop 4 dat)) Bincode) (\<lambda>blk pm.
     write_chain (write_mempool (\<lambda>pm.
       case add_block e n w blk (net_chain pm) of (c, r) \<Rightarrow>
       sbind (pm\<lparr>net_chain := c\<rparr>, r) (\<lambda>added pm.
       if added
       then sbind (pm, header_hash e (header blk)) (\<lambda>hash pm. broadcast (u32_le 2 @ hash) pm)
       else (pm, Inr ())))) pm)"

fun headers_loop ::
  "('p::ab_group_add, 'a) env_scheme \<Rightarrow> externals \<Rightarrow> world \<Rightarrow> block_header list \<Rightarrow> hash256 \<Rightarrow> peer_manager \<Rightarrow> peer_manager \<times> unit result" where
  "headers_loop e n w [] prev pm = (pm, Inr ())"
| "headers_loop e n w (hdr # hdrs) prev pm =
     sbind (pm, header_hash e hdr) (\<lambda>hash pm.
     sbind (pm, bail_if (prev_hash hdr \<noteq> prev) (InvalidBlock ''Discontinuous headers'')) (\<lambda>_ pm.
     case add_block e n w \<lparr>header = hdr, txs = []\<rparr> (net_chain pm) of (c, r) \<Rightarrow>
     sbind (ignore_err (pm\<lparr>net_chain := c\<rparr>, r)) (\<lambda>_ pm.
     headers_loop e n w hdrs hash pm)))"

definition on_headers ::
  "net_lib \<Rightarrow> ('p::ab_group_add, 'a) env_scheme \<Rightarrow> externals \<Rightarrow> world \<Rightarrow> bytes \<Rightarrow> peer_manager \<Rightarrow> peer_manager \<times> unit result" where
  "on_headers x e n w dat pm =
     sbind (pm, or_err (de_headers x (drop 4 dat)) (Anyhow ''Deserialize headers failed'')) (\<lambda>headers pm.
     if headers = [] then (pm, Inr ())
     else write_chain (headers_loop e n w headers (prev_hash (hd headers))) pm)"

definition on_addr :: "net_lib \<Rightarrow> bytes \<Rightarrow> peer_manager \<Rightarrow> peer_manager \<times> unit result" where
  "on_addr x dat pm =
     sbind (pm, or_err (de_addrs x (drop 4 dat)) Bincode) (\<lambda>addrs pm.
     (pm\<lparr>known_peers := fold (\<lambda>addr known. if addr \<in> set known then known else known @ [addr]) addrs (known_peers pm)\<rparr>, Inr ()))"

definition on_ping :: "bytes \<Rightarrow> nat \<Rightarrow> peer_manager \<Rightarrow> peer_manager \<times> unit result" where
  "on_ping dat h pm = sbind (pm, slice dat 4 12) (\<lambda>nonce pm. send_ok h (u32_le MSG_PONG @ nonce) pm)"

definition dispatch ::
  "net_lib \<Rightarrow> ('p::ab_group_add, 'a) env_scheme \<Rightarrow> externals \<Rightarrow> world \<Rightarrow> u32 \<Rightarrow> bytes \<Rightarrow> nat \<Rightarrow> peer_manager \<Rightarrow> peer_manager \<times> unit result" where
  "dispatch x e n w msg_type dat h pm =
     (if msg_type = 1 \<or> msg_type = 2 then on_inv msg_type dat pm
      else if msg_type = 3 then on_getdata e dat h pm
      else if msg_type = 4 then on_getheaders x e dat h pm
      else if msg_type = 5 then on_tx e w dat pm
      else if msg_type = 6 then on_block e n w dat pm
      else if msg_type = 8 then on_headers x e n w dat pm
      else if msg_type = 9 then send_ok h (u32_le MSG_ADDR @ ser_addrs x (known_peers pm)) pm
      else if msg_type = 10 then on_addr x dat pm
      else if msg_type = 11 then on_ping dat h pm
      else if msg_type = 12 then (pm, Inr ())
      else (pm, bail (Anyhow ''Unknown message type'')))"

definition handle_message ::
  "net_lib \<Rightarrow> ('p::ab_group_add, 'a) env_scheme \<Rightarrow> externals \<Rightarrow> world \<Rightarrow> bytes \<Rightarrow> nat \<Rightarrow> ip_addr \<Rightarrow> peer_manager \<Rightarrow> peer_manager \<times> unit result" where
  "handle_message x e n w dat h ip pm =
     (if length dat < 4 then (pm, bail (InvalidBlock ''Message too short''))
      else
        let msg_type = u32_from_le (take 4 dat); pid = peer_id (peer_store pm ! h);
            pm = (if msg_type = 1 \<or> msg_type = 2 then count_inv pid pm else pm)
        in if (msg_type = 1 \<or> msg_type = 2) \<and> (case pending_inv pm pid of Some n \<Rightarrow> n > 1000 | None \<Rightarrow> False)
           then decrease_reputation w h ip pm
           else dispatch x e n w msg_type dat h pm)"

text \<open>One round of the reading task: \<open>None\<close> is a timeout or a closed connection; the result says whether
  the task goes on.  The code takes what one read returns as one frame, although the stream may cut a frame or
  join two.\<close>

definition read_step ::
  "net_lib \<Rightarrow> ('p::ab_group_add, 'a) env_scheme \<Rightarrow> externals \<Rightarrow> world \<Rightarrow> bytes option \<Rightarrow> nat \<Rightarrow> ip_addr \<Rightarrow> peer_manager \<Rightarrow> peer_manager \<times> bool result" where
  "read_step x e n w received h ip pm =
     (case received of
        Some (b # bs) \<Rightarrow>
          if length (b # bs) \<le> MAX_MESSAGE_SIZE
          then sbind (pm, frame_in x (b # bs)) (\<lambda>processed pm.
            case handle_message x e n w processed h ip pm of
              (pm, Inl (Err _)) \<Rightarrow> sbind (decrease_reputation w h ip pm) (\<lambda>_ pm. (pm, Inr True))
            | m \<Rightarrow> sbind m (\<lambda>_ pm. (pm, Inr True)))
          else sbind (decrease_reputation w h ip pm) (\<lambda>_ pm. (pm, Inr True))
      | _ \<Rightarrow> sbind (remove_peer ip h pm) (\<lambda>_ pm. (pm, Inr False)))"

section \<open>No peer is ever admitted\<close>

lemma sbind_bail_if: "sbind (s, bail_if b err) k = (if b then (s, bail err) else k () s)"
  by (simp add: bail_if_def ensure_def)

abbreviation same_tables :: "peer_manager \<Rightarrow> peer_manager \<Rightarrow> bool" where
  "same_tables pm pm' \<equiv> peers pm' = peers pm \<and> peers_by_id pm' = peers_by_id pm \<and> known_peers pm' = known_peers pm \<and>
     net_chain pm' = net_chain pm \<and> inv_queue pm' = inv_queue pm"

lemma set_peer_simps [simp]:
  "same_tables pm (set_peer h f pm)" "bans (set_peer h f pm) = bans pm" "peers_lock (set_peer h f pm) = peers_lock pm"
  "length (peer_store (set_peer h f pm)) = length (peer_store pm)"
  "h < length (peer_store pm) \<Longrightarrow> peer_store (set_peer h f pm) ! h = f (peer_store pm ! h)"
  by (simp_all add: set_peer_def)

lemma handshake_fails:
  assumes "handshake x w random incoming h pm = (pm', r)"
  shows "r \<noteq> Inr () \<and> (pm' = pm \<or> (\<exists>msg. pm' = set_peer h (\<lambda>p. p\<lparr>outbox := outbox p @ [msg]\<rparr>) pm))"
  using assms unfolding handshake_def
  by (auto simp: Let_def send_to_def sbind_bail_if elim!: sbindE split: if_splits prod.splits)

lemma is_banned_keeps: "is_banned now ip pm = (pm', b) \<Longrightarrow> same_tables pm pm' \<and> peer_store pm' = peer_store pm"
  by (auto simp: is_banned_def Let_def)

lemma handshake_new_peer:
  assumes "handshake x w random incoming (length (peer_store pm)) (pm\<lparr>peer_store := peer_store pm @ [p]\<rparr>) = (pm', r)"
  shows "r \<noteq> Inr () \<and> same_tables pm pm' \<and>
    length (peer_store pm) < length (peer_store pm') \<and> reputation (peer_store pm' ! length (peer_store pm)) = reputation p"
  using handshake_fails [OF assms] by (auto simp: set_peer_def)

lemma add_peer_keeps: "same_tables pm (fst (add_peer x cfg w random incoming ip pm))"
proof -
  obtain pm1 banned where start: "is_banned (instant w) ip pm = (pm1, banned)" by fastforce
  note keeps = is_banned_keeps [OF start]
  show ?thesis
  proof (cases "banned \<or> peers_lock pm1 \<or> \<not> has_room cfg ip pm1 \<or> peer_id_from_bytes x (our_pub x) = None")
    case True
    then show ?thesis using keeps by (auto simp: add_peer_def start)
  next
    case False
    then obtain pid where pid: "peer_id_from_bytes x (our_pub x) = Some pid" by auto
    let ?pm2 = "pm1\<lparr>peer_store := peer_store pm1 @ [new_peer pid]\<rparr>"
    obtain pm3 r where run: "handshake x w random incoming (length (peer_store pm1)) ?pm2 = (pm3, r)" by fastforce
    note hs = handshake_new_peer [OF run]
    have rep: "reputation (peer_store pm3 ! length (peer_store pm1)) = 0" using hs by (simp add: new_peer_def)
    have "\<not> sint (- 10 :: 8 word) \<le> - 50" by simp
    then have "decrease_reputation w (length (peer_store pm1)) ip pm3 =
        (set_peer (length (peer_store pm1)) (\<lambda>p. p\<lparr>reputation := reputation p - 10\<rparr>) pm3, Inr ())"
      using hs rep by (simp add: decrease_reputation_def Let_def)
    moreover have "add_peer x cfg w random incoming ip pm = (case r of
          Inr _ \<Rightarrow> register_peer x cfg w (length (peer_store pm1)) ip pm3
        | Inl (Err _) \<Rightarrow> decrease_reputation w (length (peer_store pm1)) ip pm3 | Inl f \<Rightarrow> (pm3, Inl f))"
      using False by (simp add: add_peer_def start pid Let_def run split: sum.split fault.split)
    ultimately show ?thesis using hs keeps by (auto split: sum.splits fault.splits)
  qed
qed

section \<open>Blocks from peers\<close>

lemma reorganise_mempool_lock:
  "reorganise e n w blk p new cur (c\<lparr>mempool_lock := b\<rparr>) =
     (case reorganise e n w blk p new cur c of (c', r) \<Rightarrow> (c'\<lparr>mempool_lock := b\<rparr>, r))"
  unfolding reorganise_def by (simp add: Let_def split: option.split sum.split)

lemma attach_block_mempool_lock:
  "state_lock c \<Longrightarrow> attach_block e n w blk p (c\<lparr>mempool_lock := b\<rparr>) =
     (case attach_block e n w blk p c of (c', r) \<Rightarrow> (c'\<lparr>mempool_lock := b\<rparr>, r))"
  unfolding attach_block_def by (simp add: Let_def reorganise_mempool_lock split: sum.split)

lemma add_block_pool_held:
  assumes "add_block e n w blk c = (c', Inr True)"
  shows "\<exists>c''. add_block e n w blk (c\<lparr>mempool_lock := True\<rparr>) = (c'', Inl Blocked) \<and> mempool_lock c''"
proof -
  let ?c = "c\<lparr>state_lock := True\<rparr>"
  have free: "\<not> state_lock c" using assms by (auto simp: add_block_def add_block_with_def with_lock_def)
  then have run: "snd (add_locked (\<lambda>_ c. (c, Inl Blocked)) e n w blk ?c) = Inr True"
    using assms by (auto simp: add_block_def add_block_with_def with_lock_def split: prod.splits sum.splits fault.splits)
  then obtain hash p c1 reorg where steps: "header_hash e (header blk) = Inr hash" "hash_to_height (state c) hash = None"
      "hash_to_height (state c) (prev_hash (header blk)) = Some p" "attach_block e n w blk p ?c = (c1, Inr reorg)"
    unfolding add_locked_def
    by (auto simp: sbind_def split: sum.splits if_splits option.splits prod.splits)
  obtain conn where saved: "save_block e (chain_db c1) (p + 1) blk = Inr conn" using steps(1) by (simp add: save_block_def)
  have "c\<lparr>mempool_lock := True, state_lock := True\<rparr> = ?c\<lparr>mempool_lock := True\<rparr>" by simp
  then have "attach_block e n w blk p (c\<lparr>mempool_lock := True, state_lock := True\<rparr>) = (c1\<lparr>mempool_lock := True\<rparr>, Inr reorg)"
    using steps(4) by (simp only:) (subst attach_block_mempool_lock, simp_all)
  then have "add_block e n w blk (c\<lparr>mempool_lock := True\<rparr>) = (c1\<lparr>mempool_lock := True, chain_db := conn\<rparr>, Inl Blocked)"
    using free steps(1-3) saved
    by (simp add: add_block_def add_block_with_def with_lock_def add_locked_def finish_block_def forget_txs_def)
  then show ?thesis by simp
qed

lemma on_block_deadlock:
  assumes "de_block e (drop 4 dat) = Some blk" "chain_lock pm = Free" "\<not> mempool_lock (net_chain pm)"
    "add_block e n w blk (net_chain pm) = (c', Inr True)"
  shows "\<exists>pm'. on_block e n w dat pm = (pm', Inl Blocked) \<and> chain_lock pm' = Writing \<and> mempool_lock (net_chain pm')"
proof -
  obtain c'' where held: "add_block e n w blk ((net_chain pm)\<lparr>mempool_lock := True\<rparr>) = (c'', Inl Blocked)" "mempool_lock c''"
    using add_block_pool_held [OF assms(4)] by auto
  then have "on_block e n w dat pm = (pm\<lparr>chain_lock := Writing, net_chain := c''\<rparr>, Inl Blocked)"
    using assms(1-3)
    by (simp add: on_block_def write_chain_def write_mempool_def holding_def set_chain_lock_def set_mempool_lock_def)
  then show ?thesis using held(2) by simp
qed

text \<open>A handler that needs a lock which is never released waits for ever.\<close>

lemma frozen_handlers:
  assumes "chain_lock pm = Writing" "mempool_lock (net_chain pm)"
  shows "de_tx e (drop 4 dat) = Some tx \<Longrightarrow> snd (on_tx e w dat pm) = Inl Blocked"
    "de_block e' (drop 4 dat) = Some b \<Longrightarrow> snd (on_block e' n w dat pm) = Inl Blocked"
    "40 \<le> length dat \<Longrightarrow> snd (on_getheaders x e dat h pm) = Inl Blocked"
  using assms by (simp_all add: on_tx_def on_block_def on_getheaders_def slice_def read_chain_def write_mempool_def write_chain_def)

section \<open>Headers from peers\<close>

lemma set_chain_lock_simps [simp]:
  "net_chain (set_chain_lock l pm) = net_chain pm" "chain_lock (set_chain_lock l pm) = l" "peers (set_chain_lock l pm) = peers pm"
  "known_peers (set_chain_lock l pm) = known_peers pm"
  by (simp_all add: set_chain_lock_def)

lemma no_txs_invalid: "txs blk = [] \<Longrightarrow> validate_block e d best cps now blk height \<noteq> Inr ()"
  by (auto simp: validate_block_def result_simps)

lemma attach_block_no_txs:
  assumes "txs blk = []"
  shows "\<exists>f. attach_block e n w blk p c = (c, Inl f)"
proof (cases "validate_block e (chain_db c) (best_height c) (checkpoint_hashes c) (clock_ms w) blk (p + 1)")
  case (Inl f)
  then show ?thesis by (simp add: attach_block_def Let_def)
next
  case (Inr u)
  with no_txs_invalid [OF assms, of e "chain_db c" "best_height c" "checkpoint_hashes c" "clock_ms w" "p + 1"] show ?thesis by simp
qed

lemma add_block_no_txs:
  assumes "add_block e n w blk c = (c', r)" "txs blk = []"
  shows "chain_db c' = chain_db c \<and> state c' = state c \<and> best_height c' = best_height c \<and> best_tip c' = best_tip c"
proof -
  obtain c1 r1 where body: "add_locked (\<lambda>_ c. (c, Inl Blocked)) e n w blk (c\<lparr>state_lock := True\<rparr>) = (c1, r1)" by fastforce
  have "chain_db c1 = chain_db c \<and> state c1 = state c \<and> best_height c1 = best_height c \<and> best_tip c1 = best_tip c"
  proof (cases "\<exists>hash p. header_hash e (header blk) = Inr hash \<and> hash_to_height (state c) hash = None \<and>
      hash_to_height (state c) (prev_hash (header blk)) = Some p")
    case True
    then obtain hash p where known: "header_hash e (header blk) = Inr hash" "hash_to_height (state c) hash = None"
      "hash_to_height (state c) (prev_hash (header blk)) = Some p" by blast
    obtain f where "attach_block e n w blk p (c\<lparr>state_lock := True\<rparr>) = (c\<lparr>state_lock := True\<rparr>, Inl f)"
      using attach_block_no_txs [OF assms(2)] by blast
    with body known show ?thesis by (auto simp: add_locked_def)
  next
    case False
    with body show ?thesis by (auto simp: add_locked_def split: sum.splits if_splits option.splits)
  qed
  with assms(1) body show ?thesis
    by (auto simp: add_block_def add_block_with_def with_lock_def split: if_splits sum.splits fault.splits)
qed

lemma ignore_err_keeps [simp]: "fst (ignore_err m) = fst m"
  by (cases m) (auto simp: ignore_err_def split: sum.split fault.split)

abbreviation same_chain :: "chain \<Rightarrow> chain \<Rightarrow> bool" where
  "same_chain c c' \<equiv> chain_db c' = chain_db c \<and> state c' = state c \<and> best_height c' = best_height c \<and> best_tip c' = best_tip c"

lemma headers_loop_keeps: "same_chain (net_chain pm) (net_chain (fst (headers_loop e n w hdrs prev pm)))"
proof (induction hdrs arbitrary: prev pm)
  case (Cons hdr hdrs)
  show ?case
  proof (cases "header_hash e hdr")
    case (Inr hash)
    obtain c r where add: "add_block e n w \<lparr>header = hdr, txs = []\<rparr> (net_chain pm) = (c, r)" by fastforce
    obtain u where ign: "ignore_err (pm\<lparr>net_chain := c\<rparr>, r) = (pm\<lparr>net_chain := c\<rparr>, u)"
      using ignore_err_keeps [of "(pm\<lparr>net_chain := c\<rparr>, r)"] by (cases "ignore_err (pm\<lparr>net_chain := c\<rparr>, r)") auto
    show ?thesis
      using add_block_no_txs [OF add] Cons.IH [of hash "pm\<lparr>net_chain := c\<rparr>"]
      by (cases u) (auto simp: Inr add ign sbind_bail_if)
  qed simp
qed simp

text \<open>Headers from a peer never extend the chain: each is tried as a block without transactions, which is
  invalid for the lack of a coinbase, so the database, the index and the tip remain what they were.\<close>

theorem headers_add_nothing: "same_chain (net_chain pm) (net_chain (fst (on_headers x e n w dat pm)))"
proof (cases "de_headers x (drop 4 dat)")
  case (Some hdrs)
  obtain pm' r where run: "headers_loop e n w hdrs (prev_hash (hd hdrs)) (set_chain_lock Writing pm) = (pm', r)" by fastforce
  have "same_chain (net_chain pm) (net_chain pm')"
    using headers_loop_keeps [where e = e and n = n and w = w and pm = "set_chain_lock Writing pm" and prev = "prev_hash (hd hdrs)" and hdrs = hdrs] run by simp
  then show ?thesis
    by (auto simp: on_headers_def Some write_chain_def holding_def run split: sum.split fault.split)
qed (simp add: on_headers_def)

section \<open>Framing\<close>

definition snappy_ok :: "net_lib \<Rightarrow> bool" where
  "snappy_ok x \<longleftrightarrow> (\<forall>msg c. snappy_compress x msg = Some c \<longrightarrow> snappy_uncompress x c = Some msg)"

text \<open>C32. A message that fits into a frame arrives as it was sent, compressed or not, when one read delivers the frame, its
  transmitted form has at least four bytes and it is not larger than the receiver unpacks.\<close>

theorem frame_roundtrip:
  assumes "snappy_ok x" "frame_out x msg = Inr buf" "4 < length buf" "length buf \<le> MAX_MESSAGE_SIZE"
    "length msg \<le> MAX_MSG_DECOMPRESSED"
  shows "frame_in x buf = Inr msg"
  using assms
  by (auto simp: frame_out_def frame_in_def unpack_def snappy_ok_def result_simps MAX_COMPRESSED_SIZE_def
      MAX_MSG_DECOMPRESSED_def MAX_MESSAGE_SIZE_def split: if_splits)

text \<open>The heartbeat that every node sends is too short for a message: receiving it ends the reading task of the
  receiver with an error, and the peer stays in the tables.\<close>

theorem heartbeat_ends_reader:
  "rbind (frame_out x heartbeat) (\<lambda>buf. snd (read_step x e n w (Some buf) h ip pm)) = bail (InvalidBlock ''Message too short'') \<and>
   rbind (frame_out x heartbeat) (\<lambda>buf. Inr (fst (read_step x e n w (Some buf) h ip pm))) = Inr pm"
  by (simp add: heartbeat_def frame_out_def read_step_def frame_in_def unpack_def MAX_MESSAGE_SIZE_def)

section \<open>Malformed messages\<close>

text \<open>C37. Any peer can stop the node: a ping of fewer than twelve bytes and a request for an unknown block panic.\<close>

theorem peer_can_stop_node:
  assumes "4 \<le> length msg" "length msg < MAX_MESSAGE_SIZE"
    "u32_from_le (take 4 msg) = 11 \<and> length msg < 12 \<or>
     u32_from_le (take 4 msg) = 3 \<and> 40 \<le> length msg \<and> u32_from_le (take 4 (drop 4 msg)) = 2 \<and>
       chain_lock pm \<noteq> Writing \<and> hash_to_height (state (net_chain pm)) (take 32 (drop 8 msg)) = None"
  shows "snd (read_step x e n w (Some (0 # msg)) h ip pm) = Inl Panic"
proof -
  have "snd (handle_message x e n w msg h ip pm) = Inl Panic"
    using assms(1,3)
    by (auto simp: handle_message_def Let_def dispatch_def on_ping_def on_getdata_def slice_def read_chain_def holding_def
        set_chain_lock_def)
  then obtain pm' where "handle_message x e n w msg h ip pm = (pm', Inl Panic)"
    by (cases "handle_message x e n w msg h ip pm") auto
  then show ?thesis using assms(1,2) by (simp add: read_step_def frame_in_def unpack_def)
qed

section \<open>Reputation\<close>

abbreviation strike :: "world \<Rightarrow> nat \<Rightarrow> ip_addr \<Rightarrow> peer_manager \<Rightarrow> peer_manager" where
  "strike w h ip pm \<equiv> fst (decrease_reputation w h ip pm)"

lemma strike_reputation:
  assumes "h < length (peer_store pm)"
  shows "reputation (peer_store (strike w h ip pm) ! h) = reputation (peer_store pm ! h) - 10 \<and>
    length (peer_store (strike w h ip pm)) = length (peer_store pm)"
  using assms
  by (auto simp: decrease_reputation_def Let_def ban_ip_def remove_peers_def store_ban_def set_peer_def split: option.split)

lemma strikes_reputation:
  assumes "h < length (peer_store pm)"
  shows "reputation (peer_store ((strike w h ip ^^ k) pm) ! h) = reputation (peer_store pm ! h) - of_nat k * 10 \<and>
    h < length (peer_store ((strike w h ip ^^ k) pm))"
  by (induction k) (use assms in \<open>auto simp: strike_reputation algebra_simps\<close>)

lemma live_al_insert:
  "map_of (filter (\<lambda>(_, expiry). t < expiry) (al_insert k v xs)) k = (if t < v then Some v else None)"
proof -
  have "map_of (filter (\<lambda>(_, expiry). t < expiry) (al_delete k xs)) k = None"
    by (auto simp: map_of_eq_None_iff al_delete_def)
  then show ?thesis by (simp add: al_insert_def map_add_def)
qed

lemma ban_ip_bans:
  assumes "\<not> peers_lock pm" "clock_ms w = Some now"
  shows "snd (is_banned t ip (fst (ban_ip w ip d pm))) \<longleftrightarrow> t < instant w + d"
  using assms by (simp add: ban_ip_def Let_def remove_peers_def store_ban_def is_banned_def live_al_insert)

lemma ban_ip_disconnects:
  assumes "\<not> peers_lock pm" "clock_ms w = Some now"
  shows "map_of (peers (fst (ban_ip w ip d pm))) ip = None"
  using assms by (auto simp: ban_ip_def Let_def remove_peers_def store_ban_def map_of_eq_None_iff al_delete_def)

lemma mild_strike:
  assumes "h < length (peer_store pm)" "- 50 < sint (reputation (peer_store pm ! h) - 10)"
  shows "strike w h ip pm = set_peer h (\<lambda>p. p\<lparr>reputation := reputation p - 10\<rparr>) pm"
  using assms by (simp add: decrease_reputation_def Let_def)

lemma first_strikes:
  assumes "h < length (peer_store pm)" "reputation (peer_store pm ! h) = 0" "k \<le> 4"
  shows "bans ((strike w h ip ^^ k) pm) = bans pm \<and> peers ((strike w h ip ^^ k) pm) = peers pm \<and>
    peers_lock ((strike w h ip ^^ k) pm) = peers_lock pm"
  using assms(3)
proof (induction k)
  case (Suc k)
  have rep: "reputation (peer_store ((strike w h ip ^^ k) pm) ! h) = - of_nat k * 10" and
    h: "h < length (peer_store ((strike w h ip ^^ k) pm))"
    using strikes_reputation [OF assms(1)] assms(2) by simp_all
  have "k = 0 \<or> k = 1 \<or> k = 2 \<or> k = 3" using Suc.prems by auto
  then have "- 50 < sint (- of_nat k * 10 - 10 :: 8 word)" by auto
  then show ?case using Suc mild_strike [OF h, of w ip] by (simp add: rep)
qed simp

text \<open>C38. Four offences of a peer of reputation 0 leave bans and connections as they are; the fifth bans its address for exactly 72
  hours from then and removes the connections from that address.\<close>

theorem five_strikes_ban:
  assumes "h < length (peer_store pm)" "reputation (peer_store pm ! h) = 0" "\<not> peers_lock pm" "clock_ms w = Some now"
  shows "bans ((strike w h ip ^^ 4) pm) = bans pm \<and> peers ((strike w h ip ^^ 4) pm) = peers pm \<and>
    map_of (peers ((strike w h ip ^^ 5) pm)) ip = None \<and>
    snd (is_banned t ip ((strike w h ip ^^ 5) pm)) = (t < instant w + 72 * 3600)"
proof -
  let ?pm = "(strike w h ip ^^ 4) pm"
  have rep: "reputation (peer_store ?pm ! h) = - 40" and h: "h < length (peer_store ?pm)"
    using strikes_reputation [OF assms(1), where k = 4] assms(2) by simp_all
  note first = first_strikes [OF assms(1,2), of 4 w ip]
  let ?struck = "set_peer h (\<lambda>p. p\<lparr>reputation := reputation p - 10\<rparr>) ?pm"
  have "strike w h ip ?pm = fst (ban_ip w ip ban_hours ?struck)"
    using h rep by (simp add: decrease_reputation_def Let_def)
  moreover have "(strike w h ip ^^ 5) pm = strike w h ip ?pm" by (simp add: numeral_eq_Suc)
  ultimately show ?thesis
    using ban_ip_bans [of ?struck w now] ban_ip_disconnects [of ?struck w now] first assms(3,4) by (simp add: ban_hours_def)
qed

text \<open>The reputation is an \<^verbatim>\<open>i8\<close>: the thirteenth offence makes it positive again.\<close>

lemma reputation_wraps:
  assumes "h < length (peer_store pm)" "reputation (peer_store pm ! h) = 0"
  shows "sint (reputation (peer_store ((strike w h ip ^^ 12) pm) ! h)) = - 120 \<and>
    sint (reputation (peer_store ((strike w h ip ^^ 13) pm) ! h)) = 126"
  using strikes_reputation [OF assms(1), where k = 12] strikes_reputation [OF assms(1), where k = 13] assms(2) by simp

section \<open>Disconnection\<close>

text \<open>The end of a connection never completes: removing the peer asks for the table of peers while holding it.  From
  then on no broadcast returns and no address without a ban can connect.\<close>

theorem disconnect_locks_peers:
  "snd (read_step x e n w None h ip pm) = Inl Blocked \<and>
   snd (broadcast msg (fst (read_step x e n w None h ip pm))) = Inl Blocked \<and>
   (let (pm', banned) = is_banned (instant w') ip' (fst (read_step x e n w None h ip pm))
    in snd (add_peer x cfg w' random incoming ip' (fst (read_step x e n w None h ip pm))) = (if banned then Inr () else Inl Blocked))"
proof -
  have "snd (remove_peer ip h pm) = Inl Blocked \<and> peers_lock (fst (remove_peer ip h pm))"
    by (simp add: remove_peer_def Let_def)
  then obtain pm' where run: "read_step x e n w None h ip pm = (pm', Inl Blocked)" "peers_lock pm'"
    by (cases "remove_peer ip h pm") (auto simp: read_step_def)
  then show ?thesis
    by (auto simp: broadcast_def add_peer_def is_banned_def Let_def)
qed

section \<open>Announcements\<close>

text \<open>
  The budget of announcements is never refilled, and it is counted per peer identity, which \<open>add_peer\<close>
  derives from the key of the node itself: once it is used up, no announcement of any peer is followed.
\<close>

lemma inv_budget_exhausted:
  assumes "4 \<le> length dat" "u32_from_le (take 4 dat) = 1 \<or> u32_from_le (take 4 dat) = 2"
    "pending_inv pm (peer_id (peer_store pm ! h)) = Some k" "1000 \<le> k" "k \<noteq> - 1"
  shows "inv_queue (fst (handle_message x e n w dat h ip pm)) = inv_queue pm \<and>
    pending_inv (fst (handle_message x e n w dat h ip pm)) (peer_id (peer_store pm ! h)) = Some (k + 1)"
proof -
  have "1000 < k + 1" using assms(4,5) inc_less_eq_self_iff_eq by fastforce
  then have "handle_message x e n w dat h ip pm = decrease_reputation w h ip (count_inv (peer_id (peer_store pm ! h)) pm)"
    using assms(1-3) by (simp add: handle_message_def Let_def count_inv_def)
  then show ?thesis
    using assms(3)
    by (auto simp: decrease_reputation_def Let_def ban_ip_def remove_peers_def store_ban_def count_inv_def set_peer_def split: option.split)
qed

section \<open>Runs of the network\<close>

text \<open>
  The states the network reaches from its start: a connection is offered, a registered peer sends or goes away, or
  a message is broadcast.  A panic ends the run.
\<close>

inductive net_reach ::
  "net_lib \<Rightarrow> app_config \<Rightarrow> ('p::ab_group_add, 'a) env_scheme \<Rightarrow> externals \<Rightarrow> chain \<Rightarrow> peer_manager \<Rightarrow> bool"
  for x cfg e n c where
  start: "net_reach x cfg e n c (peer_manager_new cfg c)"
| connect: "net_reach x cfg e n c pm \<Longrightarrow> add_peer x cfg w random incoming ip pm = (pm', r) \<Longrightarrow> r \<noteq> Inl Panic \<Longrightarrow>
    net_reach x cfg e n c pm'"
| receive: "net_reach x cfg e n c pm \<Longrightarrow> map_of (peers pm) ip = Some hs \<Longrightarrow> h \<in> set hs \<Longrightarrow>
    read_step x e n w received h ip pm = (pm', r) \<Longrightarrow> r \<noteq> Inl Panic \<Longrightarrow> net_reach x cfg e n c pm'"
| announce: "net_reach x cfg e n c pm \<Longrightarrow> broadcast msg pm = (pm', r) \<Longrightarrow> net_reach x cfg e n c pm'"

lemma broadcast_alone: "peers pm = [] \<Longrightarrow> fst (broadcast msg pm) = pm"
  by (simp add: broadcast_def)

text \<open>C30. In every state the network reaches, the node is alone: no peer is connected, no announcement is queued, the
  addresses are the configured seeds and the chain is the one the node started with.\<close>

theorem node_isolated:
  assumes "net_reach x cfg e n c pm"
  shows "peers pm = [] \<and> peers_by_id pm = [] \<and> inv_queue pm = [] \<and> known_peers pm = seed_nodes cfg \<and> net_chain pm = c"
  using assms
proof (induction rule: net_reach.induct)
  case (connect pm w random incoming ip pm' r)
  then show ?case using add_peer_keeps [where pm = pm and x = x and cfg = cfg and w = w and random = random and incoming = incoming and ip = ip] by simp
next
  case (announce pm msg pm' r)
  then show ?case using broadcast_alone [of pm msg] by simp
qed (simp_all add: peer_manager_new_def)

section \<open>Witnesses\<close>

definition demo_net :: net_lib where
  "demo_net = \<lparr>our_pub = replicate 32 1, sign = (\<lambda>_. replicate 64 0), ed_key_ok = (\<lambda>_. True), ed_sig_ok = (\<lambda>_. True),
     ed_verify = (\<lambda>_ _ _. True), peer_id_from_bytes = Some, zeroize_mut = (\<lambda>bs. replicate (length bs) 0),
     snappy_compress = Some, snappy_uncompress = Some, ser_u32 = u32_le, ser_headers = (\<lambda>_. []),
     de_headers = (\<lambda>_. None), ser_addrs = (\<lambda>_. []), de_addrs = (\<lambda>_. None), ser_addr_msg = (\<lambda>_. [])\<rparr>"

abbreviation demo_pm :: peer_manager where
  "demo_pm \<equiv> peer_manager_new demo_config easy_chain"

theorem node_isolated_witness:
  "peers (fst (add_peer demo_net demo_config easy_world (Some (replicate 12 7)) [] (V4 [10, 0, 0, 1]) demo_pm)) = []"
proof -
  obtain pm' r where run: "add_peer demo_net demo_config easy_world (Some (replicate 12 7)) [] (V4 [10, 0, 0, 1]) demo_pm = (pm', r)"
    by fastforce
  have "r \<noteq> Inl Panic"
    using run by (auto simp: add_peer_def is_banned_def peer_manager_new_def has_room_def connections_def demo_config_def demo_net_def
        Let_def MAX_PEERS_PER_SUBNET_def handshake_def send_to_def new_peer_def decrease_reputation_def set_peer_def)
  then have "net_reach demo_net demo_config easy_env easy_ext easy_chain pm'"
    using run net_reach.connect net_reach.start by blast
  from node_isolated [OF this] run show ?thesis by simp
qed

theorem frame_roundtrip_witness:
  "frame_in demo_net (0 # replicate 1000 1) = Inr (replicate 1000 1) \<and>
   frame_in demo_net (1 # replicate 2000 1) = Inr (replicate 2000 1)"
proof -
  have "snappy_ok demo_net" by (simp add: snappy_ok_def demo_net_def)
  moreover have "frame_out demo_net (replicate 1000 1) = Inr (0 # replicate 1000 1)"
    "frame_out demo_net (replicate 2000 1) = Inr (1 # replicate 2000 1)"
    by (simp_all add: frame_out_def demo_net_def)
  ultimately show ?thesis
    using frame_roundtrip [of demo_net "replicate 1000 1" "0 # replicate 1000 1"]
      frame_roundtrip [of demo_net "replicate 2000 1" "1 # replicate 2000 1"]
    by (simp add: MAX_MESSAGE_SIZE_def MAX_MSG_DECOMPRESSED_def)
qed

theorem peer_can_stop_node_witness:
  "snd (read_step demo_net easy_env easy_ext easy_world (Some [0, 11, 0, 0, 0]) 0 (V4 [10, 0, 0, 1]) demo_pm) = Inl Panic"
  using peer_can_stop_node [of "[11, 0, 0, 0]" demo_pm demo_net easy_env easy_ext easy_world 0 "V4 [10, 0, 0, 1]"]
  by (simp add: u32_from_le_def nat_of_le_def nat_of_be_def MAX_MESSAGE_SIZE_def)

theorem five_strikes_ban_witness:
  "snd (is_banned 1000 (V4 [10, 0, 0, 1])
     ((strike easy_world 0 (V4 [10, 0, 0, 1]) ^^ 5) (demo_pm\<lparr>peer_store := [new_peer []]\<rparr>)))"
  using five_strikes_ban [of 0 "demo_pm\<lparr>peer_store := [new_peer []]\<rparr>" easy_world 10000 "V4 [10, 0, 0, 1]" 1000]
  by (simp add: new_peer_def peer_manager_new_def)

end
