(* ===== verification/Rpc.thy ===== *)
theory Rpc
  imports Net Queries
begin

text \<open>
  The RPC server of \<^verbatim>\<open>main.rs\<close> and the task that follows announcements: token validation and the
  handlers of \<^verbatim>\<open>/height\<close>, \<^verbatim>\<open>/balance\<close>, \<^verbatim>\<open>/block\<close>, \<^verbatim>\<open>/mempool\<close> and
  \<^verbatim>\<open>/send_tx\<close>.  They share the chain and the pool with the network, hence its state and its
  locks.  Tokens, hexadecimal text and the encoding of a list of transactions are parameters; rate limits
  only delay.  The handler of \<^verbatim>\<open>/balance\<close> reaches the database of the chain without naming its lock, and so does
  not wait for it here.
\<close>

section \<open>Requests and responses\<close>

datatype response = HttpOk bytes | BadRequest string | NotFound string | Unauthorized | InternalServerError

record rpc_lib =
  jwt_decode :: "string \<Rightarrow> string \<Rightarrow> (string \<rightharpoonup> string) option"
  jwt_encode :: "(string \<rightharpoonup> string) \<Rightarrow> string \<Rightarrow> string option"
  hex_decode :: "string \<Rightarrow> bytes option"
  ser_txs :: "transaction list \<Rightarrow> bytes"

record request =
  authorization :: "string option"
  now_secs :: "nat option"

text \<open>\<^verbatim>\<open>str::parse::<u64>\<close> and \<^verbatim>\<open>trim_start_matches\<close> of the standard library.\<close>

definition parse_digits :: "string \<Rightarrow> nat option" where
  "parse_digits s =
     (if s \<noteq> [] \<and> (\<forall>c\<in>set s. 48 \<le> (of_char c :: nat) \<and> (of_char c :: nat) \<le> 57)
      then Some (foldl (\<lambda>a c. a * 10 + (of_char c - 48)) 0 s) else None)"

definition parse_u64 :: "string \<Rightarrow> u64 option" where
  "parse_u64 s =
     (case parse_digits (case s of c # cs \<Rightarrow> if c = CHR ''+'' then cs else s | [] \<Rightarrow> s) of
        Some n \<Rightarrow> if n < 2 ^ 64 then Some (of_nat n) else None
      | None \<Rightarrow> None)"

function trim_start_matches :: "string \<Rightarrow> string \<Rightarrow> string" where
  "trim_start_matches p s = (if p \<noteq> [] \<and> prefix p s then trim_start_matches p (drop (length p) s) else s)"
  by auto
termination by (relation "measure (\<lambda>(p, s). length s)") (auto simp: prefix_def)

declare trim_start_matches.simps [simp del]

section \<open>Tokens\<close>

definition validate_jwt :: "rpc_lib \<Rightarrow> nat option \<Rightarrow> string \<Rightarrow> string \<Rightarrow> bool result" where
  "validate_jwt l now token secret =
     rbind (or_err (jwt_decode l token secret) (Anyhow ''Invalid JWT'')) (\<lambda>claims.
     let exp = (case Option.bind (claims ''exp'') parse_u64 of Some n \<Rightarrow> n | None \<Rightarrow> 0) in
     rbind (unwrap now) (\<lambda>secs. Inr (unat exp > secs)))"

definition refresh_jwt :: "rpc_lib \<Rightarrow> nat option \<Rightarrow> string \<Rightarrow> string \<Rightarrow> string result" where
  "refresh_jwt l now token secret =
     rbind (or_err (jwt_decode l token secret) (Anyhow ''Invalid JWT'')) (\<lambda>claims.
     rbind (unwrap now) (\<lambda>secs.
     or_err (jwt_encode l (claims(''exp'' \<mapsto> decimal (secs + 3600))) secret) (Anyhow ''Refresh failed'')))"

text \<open>The check that opens every handler: \<^verbatim>\<open>validate_jwt(...).is_ok()\<close>.\<close>

definition authorised ::
  "rpc_lib \<Rightarrow> string \<Rightarrow> request \<Rightarrow> (peer_manager \<Rightarrow> peer_manager \<times> response result) \<Rightarrow> peer_manager \<Rightarrow> peer_manager \<times> response result" where
  "authorised l secret req f pm =
     (case authorization req of
        None \<Rightarrow> (pm, Inr Unauthorized)
      | Some auth \<Rightarrow>
          (case validate_jwt l (now_secs req) (trim_start_matches ''Bearer '' auth) secret of
             Inr _ \<Rightarrow> f pm
           | Inl (Err _) \<Rightarrow> (pm, Inr Unauthorized)
           | Inl fault \<Rightarrow> (pm, Inl fault)))"

section \<open>Handlers\<close>

definition get_height :: "rpc_lib \<Rightarrow> string \<Rightarrow> request \<Rightarrow> peer_manager \<Rightarrow> peer_manager \<times> response result" where
  "get_height l secret req =
     authorised l secret req (read_chain (\<lambda>pm. (pm, Inr (HttpOk (ascii (decimal (unat (best_height (net_chain pm)))))))))"

definition get_balance :: "rpc_lib \<Rightarrow> base58 \<Rightarrow> string \<Rightarrow> string \<Rightarrow> request \<Rightarrow> peer_manager \<Rightarrow> peer_manager \<times> response result" where
  "get_balance l b secret address req =
     authorised l secret req (\<lambda>pm.
       (pm, case address_to_pubkey_hash b address of
          Inl _ \<Rightarrow> Inr (BadRequest ''Invalid address'')
        | Inr pkh \<Rightarrow>
            let conn = chain_db (net_chain pm)
            in if cf_handle conn ''addr_index'' = None then Inr InternalServerError
               else Inr (HttpOk (ascii (decimal (unat (rpc_balance conn pkh)))))))"

definition get_block :: "rpc_lib \<Rightarrow> 'a codec_scheme \<Rightarrow> string \<Rightarrow> request \<Rightarrow> peer_manager \<Rightarrow> peer_manager \<times> response result" where
  "get_block l e secret req =
     authorised l secret req (read_chain (\<lambda>pm. let c = net_chain pm in
       (pm, Inr (case blocks (state c) (best_height c) of
                   Some blk \<Rightarrow> HttpOk (u32_be 1 @ ser_block e blk)
                 | None \<Rightarrow> NotFound ''No block at tip''))))"

definition get_mempool :: "rpc_lib \<Rightarrow> string \<Rightarrow> request \<Rightarrow> peer_manager \<Rightarrow> peer_manager \<times> response result" where
  "get_mempool l secret req =
     authorised l secret req (\<lambda>pm.
       if mempool_lock (net_chain pm) then (pm, Inl Blocked)
       else (pm, Inr (HttpOk (u32_be 1 @ ser_txs l (map (\<lambda>(_, entry). entry_tx entry) (pool (chain_mempool (net_chain pm))))))))"

definition send_tx ::
  "rpc_lib \<Rightarrow> 'a codec_scheme \<Rightarrow> world \<Rightarrow> string \<Rightarrow> string option \<Rightarrow> request \<Rightarrow> peer_manager \<Rightarrow> peer_manager \<times> response result" where
  "send_tx l e w secret tx_field req =
     authorised l secret req (\<lambda>pm.
       case hex_decode l (case tx_field of Some s \<Rightarrow> s | None \<Rightarrow> []) of
         None \<Rightarrow> (pm, Inr (BadRequest ''Invalid hex''))
       | Some raw \<Rightarrow>
           (case de_tx e raw of
              None \<Rightarrow> (pm, Inr (BadRequest ''Invalid TX''))
            | Some tx \<Rightarrow>
                write_mempool (read_chain (\<lambda>pm.
                  let c = net_chain pm in
                  case mempool_insert e (chain_db c) (clock_ms w) (chain_mempool c) tx of (mp, r) \<Rightarrow>
                  let pm = pm\<lparr>net_chain := c\<lparr>chain_mempool := mp\<rparr>\<rparr> in
                  (pm, case r of Inr True \<Rightarrow> Inr (HttpOk (ascii ''TX sent''))
                       | Inl Panic \<Rightarrow> Inl Panic | Inl Blocked \<Rightarrow> Inl Blocked
                       | _ \<Rightarrow> Inr (BadRequest ''Invalid TX'')))) pm))"

section \<open>Announcements\<close>

text \<open>
  The task behind the announcement queue takes both locks and builds the request for an unknown item; the
  request is dropped at the end of its scope.
\<close>

definition follow_inv :: "u32 \<times> hash256 \<Rightarrow> peer_manager \<Rightarrow> peer_manager \<times> bytes option result" where
  "follow_inv = (\<lambda>(typ, hash).
     write_chain (write_mempool (\<lambda>pm. let c = net_chain pm in
       (pm, Inr
         (if typ = 1
          then if map_of (pool (chain_mempool c)) hash = None \<and> hash_to_height (state c) hash = None
               then Some (u32_le 3 @ u32_le 1 @ hash) else None
          else if typ = 2
          then if hash_to_height (state c) hash = None then Some (u32_le 3 @ u32_le 2 @ hash) else None
          else None)))))"

section \<open>Authorisation\<close>

lemma trim_bearer: "\<not> prefix ''Bearer '' token \<Longrightarrow> trim_start_matches ''Bearer '' (''Bearer '' @ token) = token"
  by (subst trim_start_matches.simps, simp) (subst trim_start_matches.simps, simp)

lemma authorised_by_any_token:
  assumes "authorization req = Some auth" "jwt_decode l (trim_start_matches ''Bearer '' auth) secret = Some claims" "now_secs req = Some t"
  shows "authorised l secret req f pm = f pm"
  using assms by (simp add: authorised_def validate_jwt_def Let_def)

text \<open>The expiry of a token is computed and then ignored: a token whose signature is right opens the server although its
  validation says that it has expired.\<close>

theorem expired_token_accepted:
  assumes "authorization req = Some auth" "now_secs req = Some t"
    "jwt_decode l (trim_start_matches ''Bearer '' auth) secret = Some claims"
    "claims ''exp'' = Some s" "parse_u64 s = Some exp" "unat exp \<le> t" "chain_lock pm = Free"
  shows "validate_jwt l (Some t) (trim_start_matches ''Bearer '' auth) secret = Inr False \<and>
    snd (get_height l secret req pm) = Inr (HttpOk (ascii (decimal (unat (best_height (net_chain pm))))))"
  using assms authorised_by_any_token [OF assms(1,3,2)]
  by (simp add: validate_jwt_def get_height_def read_chain_def holding_def)

text \<open>The wallet sends the secret itself as its token, which is not a token unless the library takes it for one.\<close>

lemma secret_is_no_token:
  assumes "\<not> prefix ''Bearer '' secret" "jwt_decode l secret secret = None" "authorization req = Some (''Bearer '' @ secret)"
  shows "send_tx l e w secret field req pm = (pm, Inr Unauthorized)"
  using assms trim_bearer [of secret] by (simp add: send_tx_def authorised_def validate_jwt_def)

section \<open>Submitting a transaction\<close>

lemma send_tx_OkE:
  assumes "send_tx l e w secret field req pm = (pm', Inr (HttpOk body))"
  shows "\<exists>raw tx mp. hex_decode l (case field of Some s \<Rightarrow> s | None \<Rightarrow> []) = Some raw \<and> de_tx e raw = Some tx \<and>
    mempool_insert e (chain_db (net_chain pm)) (clock_ms w) (chain_mempool (net_chain pm)) tx = (mp, Inr True) \<and>
    pm' = pm\<lparr>net_chain := (net_chain pm)\<lparr>chain_mempool := mp\<rparr>\<rparr>"
proof -
  obtain raw where raw: "hex_decode l (case field of Some s \<Rightarrow> s | None \<Rightarrow> []) = Some raw"
    using assms by (auto simp: send_tx_def authorised_def split: option.splits sum.splits fault.splits)
  obtain tx where tx: "de_tx e raw = Some tx"
    using assms raw by (auto simp: send_tx_def authorised_def split: option.splits sum.splits fault.splits)
  let ?c = "net_chain pm"
  obtain mp r where ins: "mempool_insert e (chain_db ?c) (clock_ms w) (chain_mempool ?c) tx = (mp, r)" by fastforce
  have "r = Inr True" "\<not> mempool_lock ?c" "pm' = pm\<lparr>net_chain := ?c\<lparr>chain_mempool := mp\<rparr>\<rparr>"
    using assms raw tx ins
    by (auto simp: send_tx_def authorised_def write_mempool_def read_chain_def holding_def set_mempool_lock_def set_chain_lock_def Let_def
        split: option.splits sum.splits fault.splits if_splits bool.splits)
  with raw tx ins show ?thesis by blast
qed

text \<open>C33. A transaction that the server reports as sent is in the pool, the pool is consistent and within its limits, and nothing
  else of the state has changed.\<close>

theorem send_tx_pools:
  assumes "pool_ok e (chain_mempool (net_chain pm))" "\<not> avg_lock (chain_mempool (net_chain pm))"
    "send_tx l e w secret field req pm = (pm', Inr (HttpOk body))"
  shows "\<exists>raw tx mp. hex_decode l (case field of Some s \<Rightarrow> s | None \<Rightarrow> []) = Some raw \<and> de_tx e raw = Some tx \<and>
    pm' = pm\<lparr>net_chain := (net_chain pm)\<lparr>chain_mempool := mp\<rparr>\<rparr> \<and> pool_ok e mp \<and> map_of (pool mp) (tx_hash e tx) \<noteq> None \<and>
    unat (total_bytes mp) \<le> max_size mp"
  using send_tx_OkE [OF assms(3)] mempool_insert_preserves [OF assms(1,2)] by blast

section \<open>A block from a peer\<close>

text \<open>C31. A block from a peer that would be accepted is not: its handler holds the pool, which the chain needs to remove the
  transactions of the block.  The handler never returns and keeps the chain and the pool locked, so that every later transaction,
  block and request for headers from a peer waits for ever, and so does every authorised request to the RPC server for the height
  or the pool.\<close>

theorem block_from_peer_freezes_node:
  assumes "de_block e (drop 4 dat) = Some blk" "chain_lock pm = Free" "\<not> mempool_lock (net_chain pm)"
    "add_block e n w blk (net_chain pm) = (c', Inr True)"
  shows "\<exists>pm'. on_block e n w dat pm = (pm', Inl Blocked) \<and>
    (\<forall>w' tx dat'. de_tx e (drop 4 dat') = Some tx \<longrightarrow> snd (on_tx e w' dat' pm') = Inl Blocked) \<and>
    (\<forall>w' b dat'. de_block e (drop 4 dat') = Some b \<longrightarrow> snd (on_block e n w' dat' pm') = Inl Blocked) \<and>
    (\<forall>h dat'. 40 \<le> length dat' \<longrightarrow> snd (on_getheaders x e dat' h pm') = Inl Blocked) \<and>
    (\<forall>req auth claims t. authorization req = Some auth \<and> now_secs req = Some t \<and>
       jwt_decode l (trim_start_matches ''Bearer '' auth) secret = Some claims \<longrightarrow>
       snd (get_height l secret req pm') = Inl Blocked \<and> snd (get_mempool l secret req pm') = Inl Blocked)"
proof -
  obtain pm' where run: "on_block e n w dat pm = (pm', Inl Blocked)" and held: "chain_lock pm' = Writing" "mempool_lock (net_chain pm')"
    using on_block_deadlock [OF assms] by auto
  have "snd (get_height l secret req pm') = Inl Blocked \<and> snd (get_mempool l secret req pm') = Inl Blocked"
    if "authorization req = Some auth" "now_secs req = Some t" "jwt_decode l (trim_start_matches ''Bearer '' auth) secret = Some claims"
    for req auth claims t
    using authorised_by_any_token [OF that(1,3,2)] held by (simp add: get_height_def get_mempool_def read_chain_def)
  with run frozen_handlers [OF held] show ?thesis by blast
qed

section \<open>Witnesses\<close>

definition demo_rpc :: rpc_lib where
  "demo_rpc = \<lparr>jwt_decode = (\<lambda>_ _. Some [''exp'' \<mapsto> ''5'']), jwt_encode = (\<lambda>_ _. None),
     hex_decode = (\<lambda>_. Some (ser_tx demo_env demo_spend)), ser_txs = (\<lambda>_. [])\<rparr>"

definition demo_request :: request where
  "demo_request = \<lparr>authorization = Some [], now_secs = Some 100\<rparr>"

theorem expired_token_accepted_witness: "snd (get_height demo_rpc [] demo_request demo_pm) = Inr (HttpOk [48])"
proof -
  have "parse_u64 ''5'' = Some 5" by (simp add: parse_u64_def parse_digits_def)
  then show ?thesis
    using expired_token_accepted [of demo_request "[]" 100 demo_rpc "[]" "[''exp'' \<mapsto> ''5'']" "''5''" 5 demo_pm]
    by (simp add: demo_request_def demo_rpc_def peer_manager_new_def decimal.simps ascii_def)
qed

definition pooled_pm :: peer_manager where
  "pooled_pm = demo_pm\<lparr>net_chain := easy_chain\<lparr>chain_db := demo_db, chain_mempool := mempool_new 1000\<rparr>\<rparr>"

theorem send_tx_pools_witness:
  "\<exists>pm'. send_tx demo_rpc demo_env (easy_world\<lparr>clock_ms := Some 7\<rparr>) [] None demo_request pooled_pm = (pm', Inr (HttpOk (ascii ''TX sent''))) \<and>
     map_of (pool (chain_mempool (net_chain pm'))) (tx_hash demo_env demo_spend) \<noteq> None"
proof -
  obtain mp where mp: "mempool_insert demo_env demo_db (Some 7) (mempool_new 1000) demo_spend = (mp, Inr True)"
    using demo_inserted by blast
  have de: "de_tx demo_env (ser_tx demo_env demo_spend) = Some demo_spend" using demo_env_bincode_ok by (simp only: bincode_ok_def)
  have "\<exists>pm'. send_tx demo_rpc demo_env (easy_world\<lparr>clock_ms := Some 7\<rparr>) [] None demo_request pooled_pm = (pm', Inr (HttpOk (ascii ''TX sent'')))"
    by (simp add: send_tx_def authorised_def demo_request_def demo_rpc_def validate_jwt_def Let_def de pooled_pm_def peer_manager_new_def
        write_mempool_def read_chain_def holding_def set_mempool_lock_def set_chain_lock_def mp)
  then obtain pm' where run: "send_tx demo_rpc demo_env (easy_world\<lparr>clock_ms := Some 7\<rparr>) [] None demo_request pooled_pm = (pm', Inr (HttpOk (ascii ''TX sent'')))"
    by blast
  from send_tx_pools [OF _ _ run] show ?thesis using run de by (auto simp: pooled_pm_def new_pool_ok demo_rpc_def)
qed

theorem block_from_peer_freezes_node_witness:
  "snd (on_block easy_env easy_ext easy_world (replicate 4 0 @ ser_block easy_env easy_block) demo_pm) = Inl Blocked"
proof -
  obtain c' where "add_block easy_env easy_ext easy_world easy_block easy_chain = (c', Inr True)" using easy_added by auto
  moreover have "de_block easy_env (ser_block easy_env easy_block) = Some easy_block"
    using easy_bincode by (simp only: bincode_ok_def)
  ultimately obtain pm' where "on_block easy_env easy_ext easy_world (replicate 4 0 @ ser_block easy_env easy_block) demo_pm = (pm', Inl Blocked)"
    using block_from_peer_freezes_node [where x = demo_net and dat = "replicate 4 0 @ ser_block easy_env easy_block" and pm = demo_pm
        and e = easy_env and n = easy_ext and w = easy_world and c' = c' and blk = easy_block and l = demo_rpc and secret = "[]"]
    by (auto simp: peer_manager_new_def)
  then show ?thesis by simp
qed

end
