(* ===== verification/Wallet_App.thy ===== *)
theory Wallet_App
  imports Wallet Rpc
begin

text \<open>
  The desktop wallet of \<^verbatim>\<open>main.rs\<close>: the state of the window, the encrypted wallet file, and one call of
  \<^verbatim>\<open>update\<close> for each frame.  A frame is described by the buttons pressed, the text in the fields, the random
  phrase, the answer of the node and the promises that have become ready.  Password hash, cipher, QR code and the task
  that sends a payment, which the sources call and do not define, are parameters; labels are left out.
\<close>

section \<open>State\<close>

datatype app_state = SetupPassword | CreateWallet | RestoreWallet | Main

datatype button = NewReceive | Lock | Unlock | Confirm | ReceiveTab | SendTab | HistoryTab | Refresh | Reconnect | NextAddress | Send

datatype text_field = PasswordField | ConfirmField | MnemonicField | ToField | AmountField | FeeField

datatype message = Text string | Reported chain_error

record app_lib =
  home_ok :: bool
  argon2 :: "string \<Rightarrow> bytes \<Rightarrow> bytes option"
  chacha_encrypt :: "bytes \<Rightarrow> bytes \<Rightarrow> bytes \<Rightarrow> bytes option"
  chacha_decrypt :: "bytes \<Rightarrow> bytes \<Rightarrow> bytes \<Rightarrow> bytes option"
  anon_public :: "bytes \<Rightarrow> bytes option"
  de_txs :: "bytes \<Rightarrow> transaction list option"
  qr_width :: "string \<Rightarrow> nat option"
  send_transaction_task :: "bytes \<Rightarrow> wallet_utxo list \<Rightarrow> string \<Rightarrow> u64 \<Rightarrow> u64 \<Rightarrow> u32 \<Rightarrow> (string \<times> bool) result"

record app =
  temp_password_input :: string
  temp_password_confirm :: string
  password :: string
  mnemonic :: "string option"
  seed :: "bytes option"
  app_utxos :: "wallet_utxo list"
  app_balance :: u64
  pending_balance :: u64
  receive_addresses :: "string list"
  change_addresses :: "string list"
  current_receive_index :: u32
  change_index :: u32
  app_db :: rocksdb
  current_height :: usize
  app_error :: "message option"
  to_address :: string
  amount_str :: string
  fee_rate_str :: string
  history :: "history_entry list"
  anon_spend_key :: "bytes option"
  anon_address :: string
  scan_promise :: "scan_result result option"
  send_promise :: "(string \<times> bool) result option"
  app_state :: app_state
  selected_tab :: "string option"
  wallet_file :: "bytes option"

record frame =
  clicked :: "button \<Rightarrow> bool"
  edited :: "text_field \<Rightarrow> string"
  generated :: "string option"
  mempool_body :: "bytes option"
  reopened :: "rocksdb option"
  scan_ready :: bool
  send_ready :: bool

text \<open>The libraries that the scan needs: bincode and hashes, base58, key derivation, and those of the window.\<close>

record 'p app_env =
  ae_env :: "'p env"
  ae_base58 :: base58
  ae_wallet :: wallet_lib
  ae_app :: app_lib

section \<open>The wallet file\<close>

definition encrypt_wallet :: "app_lib \<Rightarrow> bytes \<Rightarrow> bytes \<Rightarrow> string \<Rightarrow> app \<Rightarrow> bytes result" where
  "encrypt_wallet l salt nonce_bytes pw a =
     rbind (or_err (argon2 l pw salt) (Anyhow ''Argon2'')) (\<lambda>key.
     rbind (unwrap (seed a)) (\<lambda>sd.
     rbind (or_err (chacha_encrypt l key nonce_bytes sd) (Anyhow ''aead::Error'')) (\<lambda>ciphertext.
     Inr (salt @ nonce_bytes @ ciphertext))))"

definition decrypt_wallet :: "app_lib \<Rightarrow> string \<Rightarrow> bytes \<Rightarrow> app \<Rightarrow> app \<times> unit result" where
  "decrypt_wallet l pw dat a =
     (let salt = take 32 dat; nonce_bytes = take 12 (drop 32 dat); ciphertext = drop 44 dat in
      sbind (a, bail_if (length dat < 44) (Anyhow ''Corrupted wallet file'')) (\<lambda>_ a.
      sbind (a, or_err (argon2 l pw salt) (Anyhow ''Argon2'')) (\<lambda>key a.
      sbind (a, or_err (chacha_decrypt l key nonce_bytes ciphertext) (Anyhow ''aead::Error'')) (\<lambda>plaintext a.
      if length plaintext \<noteq> 64 then (a, Inl Panic) else (a\<lparr>seed := Some plaintext\<rparr>, Inr ())))))"

text \<open>\<^verbatim>\<open>save\<close> ignores an error of the encryption; a panic of it stops the wallet.\<close>

definition app_save :: "app_lib \<Rightarrow> bytes \<Rightarrow> bytes \<Rightarrow> bool \<Rightarrow> app \<Rightarrow> app \<times> unit result" where
  "app_save l salt nonce_bytes writable a =
     (case encrypt_wallet l salt nonce_bytes (password a) a of
        Inl (Err _) \<Rightarrow> (a, Inr ())
      | Inl f \<Rightarrow> (a, Inl f)
      | Inr dat \<Rightarrow>
          if \<not> home_ok l then (a, Inl Panic)
          else sbind (a, bail_if (\<not> writable) (Anyhow ''io::Error'')) (\<lambda>_ a. (a\<lparr>wallet_file := Some dat\<rparr>, Inr ())))"

section \<open>Start\<close>

definition app_load_height :: "app \<Rightarrow> app \<times> unit result" where
  "app_load_height a =
     (case db_get (app_db a) DB_KEY_HEIGHT of
        None \<Rightarrow> (a, Inr ())
      | Some h \<Rightarrow> if length h < 4 then (a, Inl Panic) else (a\<lparr>current_height := ucast (u32_from_be (take 4 h))\<rparr>, Inr ()))"

definition load_anon_key :: "'p app_env \<Rightarrow> bytes option \<Rightarrow> app \<Rightarrow> app \<times> unit result" where
  "load_anon_key ae anon_file a =
     (case anon_file of
        None \<Rightarrow> (a, Inr ())
      | Some dat \<Rightarrow>
          if length dat \<noteq> 32 then (a, Inr ())
          else sbind (a, unwrap (anon_public (ae_app ae) dat)) (\<lambda>pk a.
            (a\<lparr>anon_spend_key := Some dat, anon_address := pubkey_to_anon_address (ae_base58 ae) pk\<rparr>, Inr ())))"

definition blank_app :: "rocksdb \<Rightarrow> bytes option \<Rightarrow> app" where
  "blank_app conn file =
     \<lparr>temp_password_input = [], temp_password_confirm = [], password = [], mnemonic = None, seed = None, app_utxos = [], app_balance = 0,
      pending_balance = 0, receive_addresses = [], change_addresses = [], current_receive_index = 0, change_index = 0, app_db = conn,
      current_height = 0, app_error = None, to_address = [], amount_str = [], fee_rate_str = ''10'', history = [], anon_spend_key = None,
      anon_address = [], scan_promise = None, send_promise = None, app_state = SetupPassword, selected_tab = None, wallet_file = file\<rparr>"

definition app_new :: "'p app_env \<Rightarrow> rocksdb option \<Rightarrow> rocksdb option \<Rightarrow> bytes option \<Rightarrow> bytes option \<Rightarrow> app result" where
  "app_new ae secondary read_only file anon_file =
     rbind (case secondary of Some conn \<Rightarrow> Inr conn | None \<Rightarrow> unwrap read_only) (\<lambda>conn.
     let a = blank_app conn file in
     if \<not> home_ok (ae_app ae) then Inl Panic
     else
       let a = a\<lparr>app_state := (if wallet_file a \<noteq> None then SetupPassword else CreateWallet)\<rparr> in
       case sbind (load_anon_key ae anon_file a) (\<lambda>_ a. app_load_height a) of
         (a, Inr _) \<Rightarrow> Inr a
       | (a, Inl f) \<Rightarrow> Inl f)"

section \<open>Frames\<close>

text \<open>The answer of the node is cut after its first four bytes; a shorter one stops the wallet.\<close>

definition mempool_txs :: "app_lib \<Rightarrow> bytes option \<Rightarrow> transaction list result" where
  "mempool_txs l body =
     (case body of
        None \<Rightarrow> Inr []
      | Some dat \<Rightarrow> if length dat < 4 then Inl Panic else Inr (case de_txs l (drop 4 dat) of Some ts \<Rightarrow> ts | None \<Rightarrow> []))"

definition start_scan :: "'p app_env \<Rightarrow> frame \<Rightarrow> app \<Rightarrow> app \<times> unit result" where
  "start_scan ae f a =
     sbind (a, unwrap (seed a)) (\<lambda>sd a.
     sbind (a, mempool_txs (ae_app ae) (mempool_body f)) (\<lambda>ts a.
     (a\<lparr>scan_promise := Some (scan_wallet_task (ae_env ae) (ae_base58 ae) (ae_wallet ae) (app_db a) sd (current_height a) ts)\<rparr>, Inr ())))"

definition top_panel :: "frame \<Rightarrow> app \<Rightarrow> app" where
  "top_panel f a =
     (let a = (if clicked f NewReceive then a\<lparr>current_receive_index := current_receive_index a + 1\<rparr> else a)
      in if clicked f Lock then a\<lparr>app_state := SetupPassword, password := []\<rparr> else a)"

definition setup_panel :: "'p app_env \<Rightarrow> frame \<Rightarrow> app \<Rightarrow> app \<times> unit result" where
  "setup_panel ae f a =
     (let a = a\<lparr>temp_password_input := edited f PasswordField\<rparr> in
      if \<not> clicked f Unlock then (a, Inr ())
      else
        let pw = temp_password_input a; a = a\<lparr>temp_password_input := []\<rparr> in
        if \<not> home_ok (ae_app ae) then (a, Inl Panic)
        else case wallet_file a of
          None \<Rightarrow> (a, Inr ())
        | Some dat \<Rightarrow>
            (case decrypt_wallet (ae_app ae) pw dat a of
               (a, Inl (Err _)) \<Rightarrow> (a\<lparr>app_error := Some (Text ''Incorrect password'')\<rparr>, Inr ())
             | (a, Inl flt) \<Rightarrow> (a, Inl flt)
             | (a, Inr _) \<Rightarrow>
                 sbind (app_load_height (a\<lparr>password := pw\<rparr>)) (\<lambda>_ a.
                 sbind (start_scan ae f a) (\<lambda>_ a. (a\<lparr>app_state := Main\<rparr>, Inr ())))))"

definition confirm_wallet :: "'p app_env \<Rightarrow> frame \<Rightarrow> app \<Rightarrow> app \<times> unit result" where
  "confirm_wallet ae f a =
     (let a = a\<lparr>password := temp_password_input a, temp_password_input := [], temp_password_confirm := []\<rparr> in
      case mnemonic a of
        None \<Rightarrow> (a, Inr ())
      | Some m \<Rightarrow>
          sbind (a, or_err (mnemonic_seed (ae_wallet ae) m) (Anyhow ''Invalid mnemonic'')) (\<lambda>sd a.
          if length sd \<noteq> 64 then (a, Inl Panic)
          else
            sbind (app_load_height (a\<lparr>seed := Some sd\<rparr>)) (\<lambda>_ a.
            sbind (start_scan ae f a) (\<lambda>_ a. (a\<lparr>app_state := Main\<rparr>, Inr ())))))"

definition create_panel :: "'p app_env \<Rightarrow> frame \<Rightarrow> app \<Rightarrow> app \<times> unit result" where
  "create_panel ae f a =
     sbind (if app_state a = CreateWallet
            then sbind (a, or_err (generated f) (Anyhow ''Mnemonic'')) (\<lambda>m a. (a\<lparr>mnemonic := Some m\<rparr>, Inr ()))
            else (a\<lparr>mnemonic := Some (edited f MnemonicField)\<rparr>, Inr ())) (\<lambda>_ a.
     let a = a\<lparr>temp_password_input := edited f PasswordField, temp_password_confirm := edited f ConfirmField\<rparr> in
     if clicked f Confirm \<and> temp_password_input a = temp_password_confirm a \<and> temp_password_input a \<noteq> []
     then confirm_wallet ae f a else (a, Inr ()))"

definition side_panel :: "'p app_env \<Rightarrow> frame \<Rightarrow> app \<Rightarrow> app \<times> unit result" where
  "side_panel ae f a =
     (let a = (if clicked f ReceiveTab then a\<lparr>selected_tab := Some ''receive''\<rparr> else a);
          a = (if clicked f SendTab then a\<lparr>selected_tab := Some ''send''\<rparr> else a);
          a = (if clicked f HistoryTab then a\<lparr>selected_tab := Some ''history''\<rparr> else a)
      in if clicked f Refresh then sbind (app_load_height a) (\<lambda>_ a. start_scan ae f a) else (a, Inr ()))"

definition reconnect :: "'p app_env \<Rightarrow> frame \<Rightarrow> app \<Rightarrow> app \<times> unit result" where
  "reconnect ae f a =
     (if clicked f Reconnect
      then
        sbind (a, unwrap (reopened f)) (\<lambda>conn a.
        sbind (app_load_height (a\<lparr>app_db := conn\<rparr>)) (\<lambda>_ a. start_scan ae f a))
      else (a, Inr ()))"

definition take_scan :: "frame \<Rightarrow> app \<Rightarrow> app \<times> unit result" where
  "take_scan f a =
     (case scan_promise a of
        None \<Rightarrow> (a, Inr ())
      | Some (Inl Blocked) \<Rightarrow> (a, Inr ())
      | Some r \<Rightarrow>
          if \<not> scan_ready f then (a, Inr ())
          else case r of
            Inr s \<Rightarrow>
              (a\<lparr>app_utxos := scan_utxos s, app_balance := utxo_sum (filter is_confirmed (scan_utxos s)),
                 pending_balance := utxo_sum (filter (\<lambda>u. \<not> is_confirmed u) (scan_utxos s)), history := scan_history s,
                 receive_addresses := scan_receive s, change_addresses := scan_change s,
                 current_receive_index := scan_receive_index s, change_index := scan_change_index s\<rparr>, Inr ())
          | Inl (Err err) \<Rightarrow> (a\<lparr>app_error := Some (Reported err)\<rparr>, Inr ())
          | Inl flt \<Rightarrow> (a, Inl flt))"

text \<open>The picture of the code has one pixel for each module; the texture is loaded as one of 256 by 256 pixels.\<close>

definition receive_tab :: "app_lib \<Rightarrow> frame \<Rightarrow> app \<Rightarrow> app \<times> unit result" where
  "receive_tab l f a =
     (let a = (if clicked f NextAddress then a\<lparr>current_receive_index := current_receive_index a + 1\<rparr> else a);
          addr = (if receive_addresses a = [] then [] else last (receive_addresses a))
      in sbind (a, unwrap (qr_width l addr)) (\<lambda>w a. if w * w * 4 \<noteq> 256 * 256 * 4 then (a, Inl Panic) else (a, Inr ())))"

definition press_send :: "app_lib \<Rightarrow> frame \<Rightarrow> app \<Rightarrow> app \<times> unit result" where
  "press_send l f a =
     (case (clicked f Send, parse_u64 (amount_str a), parse_u64 (fee_rate_str a)) of
        (True, Some amount, Some fee_rate) \<Rightarrow>
          sbind (a, unwrap (seed a)) (\<lambda>sd a.
          (a\<lparr>send_promise := Some (send_transaction_task l sd (app_utxos a) (to_address a) amount fee_rate (change_index a))\<rparr>, Inr ()))
      | _ \<Rightarrow> (a\<lparr>app_error := Some (Text ''Invalid amount or fees'')\<rparr>, Inr ()))"

definition take_sent :: "'p app_env \<Rightarrow> frame \<Rightarrow> app \<Rightarrow> app \<times> unit result" where
  "take_sent ae f a =
     (case send_promise a of
        None \<Rightarrow> (a, Inr ())
      | Some (Inl Blocked) \<Rightarrow> (a, Inr ())
      | Some r \<Rightarrow>
          if \<not> send_ready f then (a, Inr ())
          else case r of
            Inr (_, used) \<Rightarrow>
              start_scan ae f (a\<lparr>change_index := (if used then change_index a + 1 else change_index a), to_address := [], amount_str := []\<rparr>)
          | Inl (Err _) \<Rightarrow> (a, Inr ())
          | Inl flt \<Rightarrow> (a, Inl flt))"

definition send_tab :: "'p app_env \<Rightarrow> frame \<Rightarrow> app \<Rightarrow> app \<times> unit result" where
  "send_tab ae f a =
     (let a = a\<lparr>to_address := edited f ToField, amount_str := edited f AmountField, fee_rate_str := edited f FeeField\<rparr> in
      sbind (press_send (ae_app ae) f a) (\<lambda>_ a. take_sent ae f a))"

definition history_tab :: "app \<Rightarrow> app \<times> unit result" where
  "history_tab a = (a, if list_all (\<lambda>h. 10 \<le> length (hist_txid h)) (history a) then Inr () else Inl Panic)"

definition main_panel :: "'p app_env \<Rightarrow> frame \<Rightarrow> app \<Rightarrow> app \<times> unit result" where
  "main_panel ae f a =
     sbind (side_panel ae f a) (\<lambda>_ a.
     sbind (reconnect ae f a) (\<lambda>_ a.
     sbind (take_scan f a) (\<lambda>_ a.
     if selected_tab a = None \<or> selected_tab a = Some ''receive'' then receive_tab (ae_app ae) f a
     else if selected_tab a = Some ''send'' then send_tab ae f a
     else if selected_tab a = Some ''history'' then history_tab a
     else (a, Inr ()))))"

definition update :: "'p app_env \<Rightarrow> frame \<Rightarrow> app \<Rightarrow> app \<times> unit result" where
  "update ae f a =
     (let a = top_panel f a in
      case app_state a of
        SetupPassword \<Rightarrow> setup_panel ae f a
      | CreateWallet \<Rightarrow> create_panel ae f a
      | RestoreWallet \<Rightarrow> create_panel ae f a
      | Main \<Rightarrow> main_panel ae f a)"

section \<open>Reachable states\<close>

inductive app_reach :: "'p app_env \<Rightarrow> app \<Rightarrow> bool" for ae where
  start: "app_new ae secondary read_only stored anon_file = Inr a \<Longrightarrow> app_reach ae a"
| frame: "app_reach ae a \<Longrightarrow> update ae f a = (a', r) \<Longrightarrow> app_reach ae a'"
| saved: "app_reach ae a \<Longrightarrow> app_save (ae_app ae) salt nonce_bytes writable a = (a', r) \<Longrightarrow> app_reach ae a'"

definition app_ok :: "app \<Rightarrow> bool" where
  "app_ok a \<longleftrightarrow> app_state a \<noteq> RestoreWallet \<and> (app_state a = Main \<longrightarrow> seed a \<noteq> None) \<and> (\<forall>sd. seed a = Some sd \<longrightarrow> length sd = 64)"

lemma sbind_inv:
  assumes "P (fst m)" "\<And>x a'. m = (a', Inr x) \<Longrightarrow> P (fst (k x a'))"
  shows "P (fst (sbind m k))"
  using assms by (cases m; cases "snd m") auto

definition keeps_seed :: "app \<Rightarrow> app \<Rightarrow> bool" where
  "keeps_seed a a' \<longleftrightarrow> seed a' = seed a \<and> app_state a' = app_state a"

lemma keeps_seed_refl [simp]: "keeps_seed a a"
  by (simp add: keeps_seed_def)

lemma sbind_keeps:
  assumes "keeps_seed a (fst m)" "\<And>x a'. keeps_seed a' (fst (k x a'))"
  shows "keeps_seed a (fst (sbind m k))"
  using assms by (cases m; cases "snd m") (auto simp: keeps_seed_def)

lemma sbind_pair_keeps: "(\<And>x. keeps_seed a (fst (k x a))) \<Longrightarrow> keeps_seed a (fst (sbind (a, r) k))"
  by (cases r) simp_all

lemma keeps_load_height: "keeps_seed a (fst (app_load_height a))"
  by (simp add: app_load_height_def keeps_seed_def split: option.split)

lemma keeps_start_scan: "keeps_seed a (fst (start_scan ae f a))"
  unfolding start_scan_def by (intro sbind_pair_keeps) (simp add: keeps_seed_def)

lemma keeps_side_panel: "keeps_seed a (fst (side_panel ae f a))"
proof -
  let ?a = "fst (side_panel ae (f\<lparr>clicked := (clicked f)(Refresh := False)\<rparr>) a)"
  have same: "keeps_seed a ?a" by (simp add: side_panel_def keeps_seed_def Let_def)
  have "side_panel ae f a = (if clicked f Refresh then sbind (app_load_height ?a) (\<lambda>_ a. start_scan ae f a) else (?a, Inr ()))"
    by (simp add: side_panel_def Let_def)
  moreover have "keeps_seed ?a (fst (sbind (app_load_height ?a) (\<lambda>_ a. start_scan ae f a)))"
    by (rule sbind_keeps [OF keeps_load_height keeps_start_scan])
  ultimately show ?thesis using same by (simp add: keeps_seed_def)
qed

lemma keeps_reconnect: "keeps_seed a (fst (reconnect ae f a))"
proof -
  have "keeps_seed a (fst (sbind (app_load_height (a\<lparr>app_db := conn\<rparr>)) (\<lambda>_ a. start_scan ae f a)))" for conn
    using keeps_load_height [of "a\<lparr>app_db := conn\<rparr>"]
    by (intro sbind_keeps keeps_start_scan) (simp add: keeps_seed_def)
  then show ?thesis unfolding reconnect_def by (simp add: sbind_pair_keeps)
qed

lemma keeps_take_scan: "keeps_seed a (fst (take_scan f a))"
  by (simp add: take_scan_def keeps_seed_def split: option.split sum.split fault.split)

lemma keeps_send_tab: "keeps_seed a (fst (send_tab ae f a))"
proof -
  have sent: "keeps_seed a (fst (take_sent ae f a))" for a
    using keeps_start_scan [of "a\<lparr>change_index := i, to_address := [], amount_str := []\<rparr>" ae f for i]
    by (auto simp: take_sent_def keeps_seed_def split: option.split sum.split fault.split)
  let ?a = "a\<lparr>to_address := edited f ToField, amount_str := edited f AmountField, fee_rate_str := edited f FeeField\<rparr>"
  have "keeps_seed ?a (fst (press_send (ae_app ae) f ?a))"
    unfolding press_send_def
    by (auto simp: keeps_seed_def split: option.split bool.split) (cases "seed a"; simp)+
  then have "keeps_seed ?a (fst (send_tab ae f a))"
    unfolding send_tab_def Let_def by (rule sbind_keeps [OF _ sent])
  then show ?thesis by (simp add: keeps_seed_def)
qed

lemma keeps_main_panel: "keeps_seed a (fst (main_panel ae f a))"
proof -
  have "fst (sbind (a, r) (\<lambda>w a. if w * w * 4 \<noteq> 256 * 256 * 4 then (a, Inl Panic) else (a, Inr ()))) = a" for a :: app and r :: "nat result"
    by (cases r) simp_all
  then have "keeps_seed a (fst (receive_tab l f a))" for a l
    unfolding receive_tab_def Let_def by (simp only:) (simp add: keeps_seed_def)
  then show ?thesis unfolding main_panel_def
    by (intro sbind_keeps [OF keeps_side_panel] sbind_keeps [OF keeps_reconnect] sbind_keeps [OF keeps_take_scan])
      (simp add: keeps_send_tab history_tab_def)
qed

lemma app_ok_keeps: "app_ok a \<Longrightarrow> keeps_seed a a' \<Longrightarrow> app_ok a'"
  by (simp add: app_ok_def keeps_seed_def)

lemma app_ok_top_panel: "app_ok a \<Longrightarrow> app_ok (top_panel f a)"
  by (simp add: app_ok_def top_panel_def Let_def)

lemma app_ok_enter:
  assumes "app_ok a" "seed a \<noteq> None"
  shows "app_ok (fst (sbind (app_load_height a) (\<lambda>_ a. sbind (start_scan ae f a) (\<lambda>_ a. (a\<lparr>app_state := Main\<rparr>, Inr ())))))"
proof (rule sbind_inv)
  show "app_ok (fst (app_load_height a))" by (rule app_ok_keeps [OF assms(1) keeps_load_height])
  fix x a' assume "app_load_height a = (a', Inr x)"
  then have a': "keeps_seed a a'" using keeps_load_height [of a] by simp
  show "app_ok (fst (sbind (start_scan ae f a') (\<lambda>_ a. (a\<lparr>app_state := Main\<rparr>, Inr ()))))"
  proof (rule sbind_inv)
    show "app_ok (fst (start_scan ae f a'))" by (rule app_ok_keeps [OF app_ok_keeps [OF assms(1) a'] keeps_start_scan])
    fix y a'' assume "start_scan ae f a' = (a'', Inr y)"
    then have "keeps_seed a' a''" using keeps_start_scan [of a' ae f] by simp
    then show "app_ok (fst (a''\<lparr>app_state := Main\<rparr>, Inr ()))" using a' assms by (simp add: app_ok_def keeps_seed_def)
  qed
qed

lemma decrypt_wallet_cases:
  "decrypt_wallet l pw dat a = (a', r) \<Longrightarrow>
     a' = a \<and> r \<noteq> Inr () \<or> (\<exists>sd. a' = a\<lparr>seed := Some sd\<rparr> \<and> length sd = 64 \<and> r = Inr ())"
  unfolding decrypt_wallet_def Let_def
  by (cases "length dat < 44"; cases "argon2 l pw (take 32 dat)";
      cases "chacha_decrypt l (the (argon2 l pw (take 32 dat))) (take 12 (drop 32 dat)) (drop 44 dat)") (auto split: if_splits)

lemma app_ok_setup_panel:
  assumes "app_ok a"
  shows "app_ok (fst (setup_panel ae f a))"
proof -
  let ?a = "a\<lparr>temp_password_input := []\<rparr>"
  have a: "app_ok ?a" using assms by (simp add: app_ok_def)
  show ?thesis
  proof (cases "clicked f Unlock \<and> home_ok (ae_app ae) \<and> wallet_file a \<noteq> None")
    case True
    then obtain dat where dat: "wallet_file a = Some dat" by blast
    obtain a' r where run: "decrypt_wallet (ae_app ae) (edited f PasswordField) dat ?a = (a', r)" by fastforce
    from decrypt_wallet_cases [OF run] consider
      (bad) err where "a' = ?a" "r = Inl err" | (ok) sd where "a' = ?a\<lparr>seed := Some sd\<rparr>" "length sd = 64" "r = Inr ()"
      by (cases r) auto
    then show ?thesis
    proof cases
      case bad
      then show ?thesis using True dat run a by (cases err) (simp_all add: setup_panel_def Let_def app_ok_def)
    next
      case ok
      have "app_ok (a'\<lparr>password := pw\<rparr>)" "seed (a'\<lparr>password := pw\<rparr>) \<noteq> None" for pw using ok a by (simp_all add: app_ok_def)
      from app_ok_enter [OF this] show ?thesis using True dat run ok by (simp add: setup_panel_def Let_def)
    qed
  qed (use assms in \<open>auto simp: setup_panel_def Let_def app_ok_def split: option.splits\<close>)
qed

lemma app_ok_confirm:
  assumes "app_ok a"
  shows "app_ok (fst (confirm_wallet ae f a))"
proof -
  let ?a = "a\<lparr>password := temp_password_input a, temp_password_input := [], temp_password_confirm := []\<rparr>"
  have a: "app_ok ?a" using assms by (simp add: app_ok_def)
  have "app_ok (fst (sbind (app_load_height (?a\<lparr>seed := Some sd\<rparr>)) (\<lambda>_ a. sbind (start_scan ae f a) (\<lambda>_ a. (a\<lparr>app_state := Main\<rparr>, Inr ())))))"
    if "length sd = 64" for sd
    by (rule app_ok_enter) (use a that in \<open>simp_all add: app_ok_def\<close>)
  then show ?thesis using a unfolding confirm_wallet_def Let_def
    by (cases "mnemonic a"; cases "mnemonic_seed (ae_wallet ae) (the (mnemonic a))") simp_all
qed

lemma app_ok_create_panel:
  assumes "app_ok a"
  shows "app_ok (fst (create_panel ae f a))"
proof -
  have tail: "app_ok (fst (let a = a\<lparr>temp_password_input := edited f PasswordField, temp_password_confirm := edited f ConfirmField\<rparr> in
     if clicked f Confirm \<and> temp_password_input a = temp_password_confirm a \<and> temp_password_input a \<noteq> []
     then confirm_wallet ae f a else (a, Inr ())))" if "app_ok a" for a
  proof -
    let ?a = "a\<lparr>temp_password_input := edited f PasswordField, temp_password_confirm := edited f ConfirmField\<rparr>"
    have ok: "app_ok ?a" using that by (simp add: app_ok_def)
    show ?thesis unfolding Let_def by (split if_split) (simp only: fst_conv app_ok_confirm [OF ok] ok simp_thms)
  qed
  have m: "app_ok (a\<lparr>mnemonic := m\<rparr>)" for m using assms by (simp add: app_ok_def)
  show ?thesis
  proof (cases "app_state a = CreateWallet")
    case True
    then show ?thesis unfolding create_panel_def
      by (cases "generated f") (simp_all only: simp_thms if_True or_err_simps sbind_simps fst_conv assms tail [OF m])
  next
    case False
    then show ?thesis unfolding create_panel_def by (simp only: if_False sbind_simps tail [OF m])
  qed
qed

lemma reachable_app_ok: "app_reach ae a \<Longrightarrow> app_ok a"
proof (induction rule: app_reach.induct)
  case (start secondary read_only stored anon_file a)
  have anon: "keeps_seed a (fst (load_anon_key ae anon_file a))" for a
    by (auto simp: load_anon_key_def keeps_seed_def unwrap_def ok_or_def split: option.split)
  have load: "keeps_seed a (fst (sbind (load_anon_key ae anon_file a) (\<lambda>_ a. app_load_height a)))" for a
    by (rule sbind_keeps [OF anon keeps_load_height])
  from start obtain conn st where "st = SetupPassword \<or> st = CreateWallet"
      "sbind (load_anon_key ae anon_file ((blank_app conn stored)\<lparr>app_state := st\<rparr>)) (\<lambda>_ a. app_load_height a) = (a, Inr ())"
    by (auto simp: app_new_def Let_def result_simps split: if_splits prod.splits sum.splits)
  moreover have "app_ok ((blank_app conn stored)\<lparr>app_state := st\<rparr>)" if "st = SetupPassword \<or> st = CreateWallet" for st conn
    using that by (auto simp: app_ok_def blank_app_def)
  ultimately show ?case using load app_ok_keeps by (metis fst_conv)
next
  case (frame a f a' r)
  have "app_ok (fst (update ae f a))"
    using app_ok_top_panel [OF frame.IH, of f] app_ok_keeps [OF _ keeps_main_panel] app_ok_setup_panel app_ok_create_panel
    unfolding update_def Let_def by (cases "app_state (top_panel f a)") simp_all
  then show ?case using frame.hyps by simp
next
  case (saved a salt nonce_bytes writable a' r)
  have "keeps_seed a (fst (app_save (ae_app ae) salt nonce_bytes writable a))" unfolding app_save_def
    by (cases writable) (simp_all add: keeps_seed_def split: sum.split fault.split)
  with saved show ?case using app_ok_keeps by (metis fst_conv)
qed

text \<open>C26. In every state that the window reaches, the main panel is shown only with a seed of 64 bytes in memory, so that none of the
  places of the main panel that unwrap the seed stops the wallet; and the panel that restores a wallet from a phrase is never shown.\<close>

theorem main_panel_has_seed:
  assumes "app_reach ae a"
  shows "app_state a \<noteq> RestoreWallet \<and> (app_state a = Main \<longrightarrow> (\<exists>sd. seed a = Some sd \<and> length sd = 64))"
  using reachable_app_ok [OF assms] by (auto simp: app_ok_def)

section \<open>The wallet file\<close>

definition aead_ok :: "app_lib \<Rightarrow> bool" where
  "aead_ok l \<longleftrightarrow> (\<forall>key n p c. chacha_encrypt l key n p = Some c \<longrightarrow> chacha_decrypt l key n c = Some p)"

lemma app_save_Inr:
  assumes "app_save l salt n writable a = (a', Inr ())"
  shows "a' = a \<or> (\<exists>dat. encrypt_wallet l salt n (password a) a = Inr dat \<and> home_ok l \<and> a' = a\<lparr>wallet_file := Some dat\<rparr>)"
proof (cases "encrypt_wallet l salt n (password a) a")
  case (Inl flt)
  then show ?thesis using assms by (cases flt) (simp_all add: app_save_def)
next
  case (Inr dat)
  then show ?thesis using assms by (cases "home_ok l"; cases writable) (simp_all add: app_save_def)
qed

lemma saved_file:
  assumes "app_save l salt n writable a = (a', Inr ())" "wallet_file a' \<noteq> wallet_file a"
  shows "\<exists>key sd c. argon2 l (password a) salt = Some key \<and> seed a = Some sd \<and> chacha_encrypt l key n sd = Some c \<and>
    a' = a\<lparr>wallet_file := Some (salt @ n @ c)\<rparr> \<and> home_ok l"
proof -
  have "a' \<noteq> a" using assms(2) by metis
  then obtain dat where dat: "encrypt_wallet l salt n (password a) a = Inr dat" "home_ok l" "a' = a\<lparr>wallet_file := Some dat\<rparr>"
    using app_save_Inr [OF assms(1)] by blast
  then obtain key sd c where "argon2 l (password a) salt = Some key" "seed a = Some sd" "chacha_encrypt l key n sd = Some c" "dat = salt @ n @ c"
    by (auto simp: encrypt_wallet_def rbind_eq_Inr or_err_eq_Inr unwrap_eq_Inr)
  with dat(2,3) show ?thesis by blast
qed

lemma decrypt_saved:
  assumes "aead_ok l" "argon2 l pw salt = Some key" "chacha_encrypt l key n sd = Some c" "length salt = 32" "length n = 12" "length sd = 64"
  shows "decrypt_wallet l pw (salt @ n @ c) b = (b\<lparr>seed := Some sd\<rparr>, Inr ())"
  using assms by (simp add: decrypt_wallet_def aead_ok_def Let_def)

definition height_ok :: "app \<Rightarrow> bool" where
  "height_ok a \<longleftrightarrow> (case db_get (app_db a) DB_KEY_HEIGHT of None \<Rightarrow> True | Some h \<Rightarrow> 4 \<le> length h)"

text \<open>A frame in which the password is entered and nothing else is pressed, while the node does not answer.\<close>

definition unlock_frame :: "string \<Rightarrow> frame" where
  "unlock_frame pw = \<lparr>clicked = (\<lambda>b. b = Unlock), edited = (\<lambda>_. pw), generated = None, mempool_body = None, reopened = None,
     scan_ready = False, send_ready = False\<rparr>"

lemma unlock_opens:
  assumes "wallet_file b = Some dat" "\<And>b. decrypt_wallet (ae_app ae) pw dat b = (b\<lparr>seed := Some sd\<rparr>, Inr ())" "app_state b = SetupPassword"
    "height_ok b" "home_ok (ae_app ae)"
  shows "\<exists>b'. update ae (unlock_frame pw) b = (b', Inr ()) \<and> app_state b' = Main \<and> seed b' = Some sd \<and> password b' = pw"
proof -
  let ?b = "b\<lparr>temp_password_input := [], seed := Some sd, password := pw\<rparr>"
  obtain b1 where b1: "app_load_height ?b = (b1, Inr ())"
    using assms(4) by (cases "db_get (app_db b) DB_KEY_HEIGHT") (simp_all add: app_load_height_def height_ok_def)
  have k1: "keeps_seed ?b b1 \<and> password b1 = pw"
    using b1 keeps_load_height [of ?b] by (auto simp: app_load_height_def split: option.splits if_splits)
  let ?f = "unlock_frame pw"
  have f: "clicked ?f x = (x = Unlock)" "edited ?f y = pw" "mempool_body ?f = None" for x y by (simp_all add: unlock_frame_def)
  have "seed b1 = Some sd" using k1 by (simp add: keeps_seed_def)
  then obtain b2 where b2: "start_scan ae ?f b1 = (b2, Inr ())" "seed b2 = Some sd" "password b2 = pw"
    using k1 by (simp add: start_scan_def mempool_txs_def f)
  have "update ae ?f b = (b2\<lparr>app_state := Main\<rparr>, Inr ())"
    using assms(1,3,5) b1 b2(1) by (simp add: update_def top_panel_def setup_panel_def f Let_def assms(2))
  then show ?thesis using b2(2,3) by simp
qed

lemma saved_file_opens:
  assumes "aead_ok (ae_app ae)" "app_save (ae_app ae) salt n writable a = (a', Inr ())" "wallet_file a' \<noteq> wallet_file a"
    "length salt = 32" "length n = 12" "seed a = Some sd" "length sd = 64"
    "wallet_file b = wallet_file a'" "app_state b = SetupPassword" "height_ok b"
  shows "\<exists>b'. update ae (unlock_frame (password a)) b = (b', Inr ()) \<and> app_state b' = Main \<and> seed b' = Some sd \<and> password b' = password a"
proof -
  obtain key c where stored: "argon2 (ae_app ae) (password a) salt = Some key" "chacha_encrypt (ae_app ae) key n sd = Some c"
    "a' = a\<lparr>wallet_file := Some (salt @ n @ c)\<rparr>" "home_ok (ae_app ae)"
    using saved_file [OF assms(2,3)] unfolding assms(6) by (metis option.inject)
  show ?thesis
    by (rule unlock_opens [OF _ decrypt_saved [OF assms(1) stored(1,2) assms(4,5,7)]]) (use assms(8-10) stored(3,4) in simp_all)
qed

text \<open>C25. A wallet file that was saved opens with the password it was saved under: in any later session whose database holds a
  readable height or none, and while the node does not answer, the password brings back the seed and the main panel.\<close>

theorem save_unlock_roundtrip:
  assumes "aead_ok (ae_app ae)" "app_save (ae_app ae) salt n writable a = (a', Inr ())" "wallet_file a' \<noteq> wallet_file a"
    "length salt = 32" "length n = 12" "seed a = Some sd" "length sd = 64"
    "wallet_file b = wallet_file a'" "app_state b = SetupPassword" "height_ok b"
  shows "\<exists>b'. update ae (unlock_frame (password a)) b = (b', Inr ()) \<and> app_state b' = Main \<and> seed b' = Some sd \<and> password b' = password a"
  by (rule saved_file_opens [OF assms])

lemma lock_clears_password:
  assumes "clicked f Lock" "\<not> clicked f Unlock" "update ae f a = (a1, r)"
  shows "password a1 = [] \<and> seed a1 = seed a \<and> app_state a1 = SetupPassword \<and> wallet_file a1 = wallet_file a"
  using assms by (auto simp: update_def top_panel_def setup_panel_def Let_def)

text \<open>Locking the window gives the wallet away: the password is cleared and the seed is not, so that the next save, which the
  window does by itself, replaces the wallet file by one that the empty password opens.\<close>

theorem locked_wallet_opens_without_password:
  assumes "aead_ok (ae_app ae)" "clicked f Lock" "\<not> clicked f Unlock" "update ae f a = (a1, r)" "seed a = Some sd" "length sd = 64"
    "app_save (ae_app ae) salt n writable a1 = (a2, Inr ())" "wallet_file a2 \<noteq> wallet_file a" "length salt = 32" "length n = 12"
    "wallet_file b = wallet_file a2" "app_state b = SetupPassword" "height_ok b"
  shows "\<exists>b'. update ae (unlock_frame []) b = (b', Inr ()) \<and> app_state b' = Main \<and> seed b' = Some sd"
proof -
  note locked = lock_clears_password [OF assms(2,3,4)]
  then have "wallet_file a2 \<noteq> wallet_file a1" "seed a1 = Some sd" using assms(5,8) by simp_all
  from saved_file_opens [OF assms(1,7) this(1) assms(9,10) this(2) assms(6,11-13)] locked show ?thesis by auto
qed

section \<open>The panels of an open wallet\<close>

definition or_panic :: "('s \<Rightarrow> bool) \<Rightarrow> 's \<times> 'a result \<Rightarrow> bool" where
  "or_panic P m \<longleftrightarrow> (case m of (s, Inr _) \<Rightarrow> P s | (_, Inl flt) \<Rightarrow> flt = Panic)"

lemma or_panic_simps [simp]: "or_panic P (s, Inr x) = P s" "or_panic P (s, Inl flt) \<longleftrightarrow> flt = Panic"
  by (simp_all add: or_panic_def)

lemma or_panic_sbind:
  assumes "or_panic P m" "\<And>x s. P s \<Longrightarrow> or_panic Q (k x s)"
  shows "or_panic Q (sbind m k)"
  using assms by (cases m; cases "snd m") auto

lemma or_panic_unwrap: "P s \<Longrightarrow> or_panic P (s, unwrap x)"
  by (cases x) simp_all

definition receiving :: "app \<Rightarrow> bool" where
  "receiving a \<longleftrightarrow> selected_tab a = None \<or> selected_tab a = Some ''receive''"

lemma receiving_load_height: "receiving a \<Longrightarrow> or_panic receiving (app_load_height a)"
  by (simp add: app_load_height_def receiving_def split: option.split)

lemma receiving_start_scan: "receiving a \<Longrightarrow> or_panic receiving (start_scan ae f a)"
  unfolding start_scan_def mempool_txs_def
  by (cases "seed a"; cases "mempool_body f") (auto simp: receiving_def)

lemma receiving_rescan: "receiving a \<Longrightarrow> or_panic receiving (sbind (app_load_height a) (\<lambda>_ a. start_scan ae f a))"
  by (rule or_panic_sbind [OF receiving_load_height receiving_start_scan])

lemma receiving_side_panel:
  "receiving a \<Longrightarrow> \<not> clicked f SendTab \<Longrightarrow> \<not> clicked f HistoryTab \<Longrightarrow> or_panic receiving (side_panel ae f a)"
  using receiving_rescan [of a ae f] receiving_rescan [of "a\<lparr>selected_tab := Some ''receive''\<rparr>" ae f]
  by (auto simp: side_panel_def Let_def receiving_def)

lemma receiving_reconnect: "receiving a \<Longrightarrow> or_panic receiving (reconnect ae f a)"
  using receiving_rescan [of "a\<lparr>app_db := the (reopened f)\<rparr>" ae f]
  by (cases "reopened f") (simp_all add: reconnect_def receiving_def)

lemma receiving_take_scan: "receiving a \<Longrightarrow> or_panic receiving (take_scan f a)"
  by (simp add: take_scan_def receiving_def split: option.split sum.split fault.split)

text \<open>The panel that shows the receiving address stops the wallet: a code has at most 177 modules on a side, and its picture is
  loaded as a texture of 256 by 256.  It is the panel that an opened wallet shows first.\<close>

theorem receive_panel_aborts:
  assumes "app_state a = Main" "\<not> clicked f Lock" "selected_tab a = None \<or> selected_tab a = Some ''receive''"
    "\<not> clicked f SendTab" "\<not> clicked f HistoryTab" "\<forall>s w. qr_width (ae_app ae) s = Some w \<longrightarrow> w \<le> 177"
  shows "snd (update ae f a) = Inl Panic"
proof -
  have "w * w \<noteq> 256 * 256" if "qr_width (ae_app ae) s = Some w" for s w
    using assms(6) that mult_le_mono [of w 177 w 177] by fastforce
  then have last: "or_panic (\<lambda>_. False) (receive_tab (ae_app ae) f a)" for a
    by (cases "qr_width (ae_app ae) (if receive_addresses a = [] then [] else last (receive_addresses a))") (auto simp: receive_tab_def Let_def)
  have "receiving (top_panel f a)" using assms(2,3) by (simp add: receiving_def top_panel_def Let_def)
  then have "or_panic (\<lambda>_. False) (main_panel ae f (top_panel f a))" unfolding main_panel_def
    by (intro or_panic_sbind [OF receiving_side_panel] or_panic_sbind [OF receiving_reconnect] or_panic_sbind [OF receiving_take_scan])
      (use assms(4,5) last in \<open>simp_all add: receiving_def\<close>)
  moreover have "app_state (top_panel f a) = Main" using assms(1,2) by (simp add: top_panel_def Let_def)
  ultimately show ?thesis by (auto simp: update_def or_panic_def Let_def split: prod.splits sum.splits)
qed

section \<open>Witnesses\<close>

definition demo_app_lib :: app_lib where
  "demo_app_lib = \<lparr>home_ok = True, argon2 = (\<lambda>pw salt. Some (ascii pw)), chacha_encrypt = (\<lambda>key _ p. Some (key @ p)),
     chacha_decrypt = (\<lambda>key _ c. if prefix key c then Some (drop (length key) c) else None), anon_public = Some, de_txs = (\<lambda>_. None),
     qr_width = (\<lambda>_. Some 21), send_transaction_task = (\<lambda>_ _ _ _ _ _. Inr ([], False))\<rparr>"

definition demo_ae :: "int app_env" where
  "demo_ae = \<lparr>ae_env = demo_env, ae_base58 = demo_base58, ae_wallet = demo_lib, ae_app = demo_app_lib\<rparr>"

lemma demo_aead: "aead_ok demo_app_lib"
  by (simp add: aead_ok_def demo_app_lib_def)

definition demo_app :: app where
  "demo_app = (blank_app purse_db (Some []))\<lparr>password := ''pw'', seed := Some (replicate 64 1), app_state := Main\<rparr>"

definition lock_frame :: frame where
  "lock_frame = (unlock_frame [])\<lparr>clicked := (\<lambda>b. b = Lock)\<rparr>"

lemma purse_height: "db_get purse_db DB_KEY_HEIGHT = Some (u32_be 200)"
  by (simp add: purse_db_def db_get_def tbl_get_def DB_KEY_HEIGHT_def)

lemma height_ok_blank: "height_ok (blank_app purse_db x)"
  by (simp add: height_ok_def blank_app_def purse_height)

lemma demo_app_fields: "wallet_file demo_app = Some []" "seed demo_app = Some (replicate 64 1)" "password demo_app = ''pw''"
    "app_state demo_app = Main" "selected_tab demo_app = None"
  by (simp_all add: demo_app_def blank_app_def)

lemma demo_save:
  "seed a = Some sd \<Longrightarrow> app_save demo_app_lib (replicate 32 0) (replicate 12 0) True a =
     (a\<lparr>wallet_file := Some (replicate 32 0 @ replicate 12 0 @ ascii (password a) @ sd)\<rparr>, Inr ())"
  by (simp add: app_save_def encrypt_wallet_def demo_app_lib_def)

theorem save_unlock_roundtrip_witness:
  "\<exists>b'. update demo_ae (unlock_frame ''pw'')
     (blank_app purse_db (wallet_file (fst (app_save demo_app_lib (replicate 32 0) (replicate 12 0) True demo_app)))) = (b', Inr ()) \<and>
     app_state b' = Main \<and> seed b' = Some (replicate 64 1)"
proof -
  let ?r = "app_save demo_app_lib (replicate 32 0) (replicate 12 0) True demo_app"
  note run = demo_save [OF demo_app_fields(2)]
  have "app_save (ae_app demo_ae) (replicate 32 0) (replicate 12 0) True demo_app = (fst ?r, Inr ())" by (simp add: demo_ae_def run)
  moreover have "wallet_file (fst ?r) \<noteq> wallet_file demo_app" by (simp add: run demo_app_fields)
  moreover have "app_state (blank_app purse_db x) = SetupPassword" "wallet_file (blank_app purse_db x) = x" for x by (simp_all add: blank_app_def)
  moreover have "aead_ok (ae_app demo_ae)" by (simp add: demo_ae_def demo_aead)
  ultimately show ?thesis
    using save_unlock_roundtrip [of demo_ae "replicate 32 0" "replicate 12 0" True demo_app "fst ?r" "replicate 64 1" "blank_app purse_db (wallet_file (fst ?r))"]
    by (auto simp: demo_app_fields height_ok_blank)
qed

lemma demo_locked: "\<exists>a1. update demo_ae lock_frame demo_app = (a1, Inr ()) \<and> seed a1 = Some (replicate 64 1)"
  by (simp add: update_def top_panel_def setup_panel_def lock_frame_def Let_def demo_app_fields unlock_frame_def)

theorem locked_wallet_opens_without_password_witness:
  "\<exists>stored b'. update demo_ae (unlock_frame []) (blank_app purse_db (Some stored)) = (b', Inr ()) \<and> app_state b' = Main \<and>
     seed b' = seed demo_app"
proof -
  obtain a1 where a1: "update demo_ae lock_frame demo_app = (a1, Inr ())" "seed a1 = Some (replicate 64 1)" using demo_locked by blast
  let ?stored = "replicate 32 0 @ replicate 12 0 @ ascii (password a1) @ replicate 64 1"
  have run: "app_save (ae_app demo_ae) (replicate 32 0) (replicate 12 0) True a1 = (a1\<lparr>wallet_file := Some ?stored\<rparr>, Inr ())"
    using demo_save [OF a1(2)] by (simp add: demo_ae_def)
  have "\<exists>b'. update demo_ae (unlock_frame []) (blank_app purse_db (Some ?stored)) = (b', Inr ()) \<and> app_state b' = Main \<and> seed b' = Some (replicate 64 1)"
    by (rule locked_wallet_opens_without_password [OF _ _ _ a1(1) demo_app_fields(2) _ run])
      (simp_all add: demo_ae_def demo_aead lock_frame_def demo_app_fields blank_app_def height_ok_blank [unfolded blank_app_def])
  then show ?thesis by (auto simp: demo_app_fields)
qed

theorem receive_panel_aborts_witness:
  "snd (update demo_ae ((unlock_frame [])\<lparr>clicked := (\<lambda>_. False)\<rparr>) demo_app) = Inl Panic"
  by (rule receive_panel_aborts) (simp_all add: demo_app_fields demo_ae_def demo_app_lib_def)

theorem main_panel_has_seed_witness:
  "\<exists>a. app_reach demo_ae a \<and> app_state a = Main \<and> (\<exists>sd. seed a = Some sd \<and> length sd = 64)"
proof -
  let ?stored = "replicate 32 0 @ replicate 12 0 @ ascii [] @ replicate 64 1"
  obtain a where new: "app_new demo_ae (Some purse_db) None (Some ?stored) None = Inr a"
      and a: "a = (blank_app purse_db (Some ?stored))\<lparr>current_height := 200\<rparr>"
    using purse_height
    by (simp add: app_new_def load_anon_key_def app_load_height_def blank_app_def demo_ae_def demo_app_lib_def Let_def codec_simps)
  have dec: "decrypt_wallet (ae_app demo_ae) [] ?stored b = (b\<lparr>seed := Some (replicate 64 1)\<rparr>, Inr ())" for b
    by (simp add: decrypt_wallet_def demo_ae_def demo_app_lib_def Let_def ascii_def)
  have "\<exists>a'. update demo_ae (unlock_frame []) a = (a', Inr ()) \<and> app_state a' = Main \<and> seed a' = Some (replicate 64 1) \<and> password a' = []"
    by (rule unlock_opens [OF _ dec]) (simp_all add: a blank_app_def height_ok_def purse_height demo_ae_def demo_app_lib_def)
  then obtain a' where a': "update demo_ae (unlock_frame []) a = (a', Inr ())" "app_state a' = Main" by blast
  have "app_reach demo_ae a'" by (rule app_reach.frame [OF app_reach.start [OF new] a'(1)])
  from main_panel_has_seed [OF this] this a'(2) show ?thesis by blast
qed

end
