(* ===== verification/Miner.thy ===== *)
theory Miner
  imports Net
begin

text \<open>
  The mining task of \<^verbatim>\<open>miner.rs\<close>: the block template, the search for a nonce in chunks, the submission of the
  block, and the task as a sequence of turns of its loop.  The parallel search of rayon, the parsing of a key and
  the encoding of the header without its nonce are parameters; what a turn meets (clocks, random bytes, the
  interrupt flag, a waiting writer, the load) is its argument.
\<close>

section \<open>State\<close>

definition NONCE_CHUNK_SIZE :: u64 where "NONCE_CHUNK_SIZE = 1000000"

record header_without_nonce =
  base_version :: u32
  base_prev_hash :: hash256
  base_merkle_root :: hash256
  base_timestamp :: u32
  base_bits :: u32

record miner_lib =
  find_any :: "(u64 \<Rightarrow> bool) \<Rightarrow> u64 list \<Rightarrow> u64 option"
  parse_pubkey :: "string \<Rightarrow> bytes option"
  ser_base :: "header_without_nonce \<Rightarrow> bytes"

record turn =
  extra :: bytes
  writer_waiting :: bool
  stop_before :: "nat \<Rightarrow> bool"
  stop_at :: "nat \<Rightarrow> u64 \<Rightarrow> bool"
  start_ms :: "nat option"
  end_ms :: "nat option"
  tasks :: nat

record miner =
  readonly_attempts :: u8
  num_threads :: nat

datatype outcome = ReadOnly | NoBlock | Refused | Mined block

text \<open>The load is compared with nine and six tenths; for at most 64 threads the comparison of fractions is exact.\<close>

definition initial_threads :: "nat \<Rightarrow> nat \<Rightarrow> nat" where
  "initial_threads physical limit = min (max (min physical limit) 4) 64"

definition adjusted_threads :: "nat \<Rightarrow> nat \<Rightarrow> nat" where
  "adjusted_threads instrumented current =
     (if 10 * instrumented > 9 * current then max (current - 8) 4
      else if 10 * instrumented < 6 * current then min (current + 8) 64
      else current)"

section \<open>The template\<close>

definition template_fees :: "transaction list \<Rightarrow> u64 result" where
  "template_fees ts = unwrap (checked_sum (map (\<lambda>tx. fee tx Map.empty) ts))"

definition template_coinbase :: "'a crypto_scheme \<Rightarrow> miner_lib \<Rightarrow> app_config \<Rightarrow> bytes \<Rightarrow> bytes \<Rightarrow> usize \<Rightarrow> u64 \<Rightarrow> transaction result" where
  "template_coinbase c l cfg pubkey ext height fees =
     (let coinbase = create_coinbase c height ext pubkey; out = hd (outputs coinbase) in
      rbind (or_err (checked_add (subsidy height) fees) (Anyhow ''Subsidy overflow'')) (\<lambda>reward.
      let out = out\<lparr>out_value := reward\<rparr>;
          out = (case parse_pubkey l (coinbase_sk cfg) of Some dest \<Rightarrow> out\<lparr>script_pubkey := p2pkh_script c dest\<rparr> | None \<Rightarrow> out)
      in Inr (coinbase\<lparr>outputs := (outputs coinbase)[0 := out]\<rparr>)))"

definition block_template ::
  "'a codec_scheme \<Rightarrow> miner_lib \<Rightarrow> app_config \<Rightarrow> bytes \<Rightarrow> bytes \<Rightarrow> chain \<Rightarrow> (u32 \<times> transaction list) result" where
  "block_template e l cfg pubkey ext c =
     (let height = best_height c + 1 in
      rbind (calculate_next_bits e (chain_db c) height) (\<lambda>bits.
      rbind (ensure (\<not> mempool_lock c) Blocked) (\<lambda>_.
      let chosen = select_txs e (chain_mempool c) (MAX_BLOCK_SIZE - 1000) in
      rbind (template_fees chosen) (\<lambda>fees.
      rbind (template_coinbase e l cfg pubkey ext height fees) (\<lambda>coinbase.
      Inr (bits, coinbase # chosen))))))"

section \<open>The search\<close>

text \<open>A hash that cannot be computed counts as zero.\<close>

definition hit :: "'a crypto_scheme \<Rightarrow> bytes \<Rightarrow> nat \<Rightarrow> u64 \<Rightarrow> bool" where
  "hit c base target n \<longleftrightarrow>
     u256_from_hash (case pow_hash c (base @ u64_le n) of Inr hash \<Rightarrow> hash | Inl _ \<Rightarrow> zero_hash) \<le> target"

definition nonce_chunk :: "u64 \<Rightarrow> u64 list" where
  "nonce_chunk start = map of_nat [unat start..<unat (start + NONCE_CHUNK_SIZE)]"

partial_function (option) nonce_loop :: "miner_lib \<Rightarrow> turn \<Rightarrow> (u64 \<Rightarrow> bool) \<Rightarrow> nat \<Rightarrow> u64 \<Rightarrow> u64 option option" where
  "nonce_loop l t good k start =
     (if stop_before t k then Some None
      else case find_any l (\<lambda>n. \<not> stop_at t k n \<and> good n) (nonce_chunk start) of
        Some n \<Rightarrow> Some (Some n)
      | None \<Rightarrow> nonce_loop l t good (Suc k) (start + NONCE_CHUNK_SIZE))"

section \<open>A turn of the loop\<close>

definition submit_block ::
  "('p::ab_group_add, 'a) env_scheme \<Rightarrow> externals \<Rightarrow> world \<Rightarrow> hash256 \<Rightarrow> block \<Rightarrow> peer_manager \<Rightarrow> peer_manager \<times> outcome result" where
  "submit_block e n w current_tip blk =
     write_chain (\<lambda>pm.
       if prev_hash (header blk) \<noteq> current_tip then (pm, Inr Refused)
       else case add_block e n w blk (net_chain pm) of (c, r) \<Rightarrow>
         sbind (pm\<lparr>net_chain := c\<rparr>, r) (\<lambda>added pm.
         if \<not> added then (pm, Inr Refused)
         else sbind (pm, header_hash e (header blk)) (\<lambda>_ pm. (pm, Inr (Mined blk)))))"

text \<open>
  The guard of the chain that the turn takes first lives until its end.  A second reader waits behind a writer
  that waits already.
\<close>

definition mine_with ::
  "('p::ab_group_add, 'a) env_scheme \<Rightarrow> externals \<Rightarrow> world \<Rightarrow> miner_lib \<Rightarrow> turn \<Rightarrow> hash256 \<Rightarrow> u32 \<Rightarrow> transaction list \<Rightarrow> peer_manager \<Rightarrow> peer_manager \<times> outcome result" where
  "mine_with e n w l t prev bits ts pm =
     (let root = compute_merkle_root e ts in
      sbind (pm, compact_to_target bits) (\<lambda>target pm.
      sbind (pm, or_err (start_ms t) InvalidTimestamp) (\<lambda>now pm.
      let base = ser_base l \<lparr>base_version = 1, base_prev_hash = prev, base_merkle_root = root,
                   base_timestamp = of_nat (now div 1000), base_bits = bits\<rparr> in
      if writer_waiting t then (pm, Inl Blocked)
      else
        let current_tip = best_tip (net_chain pm) in
        case nonce_loop l t (hit e base target) 0 0 of
          None \<Rightarrow> (pm, Inl Blocked)
        | Some None \<Rightarrow> (pm, Inr NoBlock)
        | Some (Some nn) \<Rightarrow>
            sbind (pm, or_err (end_ms t) InvalidTimestamp) (\<lambda>later pm.
            submit_block e n w current_tip
              \<lparr>header = \<lparr>hdr_version = 1, prev_hash = prev, merkle_root = root, timestamp = of_nat (later div 1000), hdr_bits = bits, nonce = nn\<rparr>,
               txs = ts\<rparr> pm))))"

definition miner_turn ::
  "('p::ab_group_add, 'a) env_scheme \<Rightarrow> externals \<Rightarrow> world \<Rightarrow> miner_lib \<Rightarrow> app_config \<Rightarrow> bytes \<Rightarrow> turn \<Rightarrow> peer_manager \<Rightarrow> peer_manager \<times> outcome result" where
  "miner_turn e n w l cfg pubkey t =
     read_chain (\<lambda>pm.
       let c = net_chain pm in
       if read_only_mode c then (pm, Inr ReadOnly)
       else sbind (pm, block_template e l cfg pubkey (extra t) c) (\<lambda>(bits, ts) pm. mine_with e n w l t (best_tip c) bits ts pm))"

definition miner_step ::
  "('p::ab_group_add, 'a) env_scheme \<Rightarrow> externals \<Rightarrow> world \<Rightarrow> miner_lib \<Rightarrow> app_config \<Rightarrow> bytes \<Rightarrow> turn \<Rightarrow> miner \<times> peer_manager \<Rightarrow> (miner \<times> peer_manager) \<times> unit result" where
  "miner_step e n w l cfg pubkey t = (\<lambda>(m, pm).
     case miner_turn e n w l cfg pubkey t pm of
       (pm, Inl f) \<Rightarrow> ((m, pm), Inl f)
     | (pm, Inr ReadOnly) \<Rightarrow>
         let m = m\<lparr>readonly_attempts := readonly_attempts m + 1\<rparr>
         in ((m, pm), bail_if (readonly_attempts m > 30) (Anyhow ''Persistent read_only_mode''))
     | (pm, Inr _) \<Rightarrow>
         ((m\<lparr>readonly_attempts := 0, num_threads := adjusted_threads (tasks t) (num_threads m)\<rparr>, pm), Inr ()))"

fun miner_task ::
  "('p::ab_group_add, 'a) env_scheme \<Rightarrow> externals \<Rightarrow> miner_lib \<Rightarrow> app_config \<Rightarrow> bytes \<Rightarrow> (world \<times> turn) list \<Rightarrow> miner \<times> peer_manager \<Rightarrow> (miner \<times> peer_manager) \<times> unit result" where
  "miner_task e n l cfg pubkey [] s = (s, Inr ())"
| "miner_task e n l cfg pubkey ((w, t) # ts) s =
     sbind (miner_step e n w l cfg pubkey t s) (\<lambda>_ s. miner_task e n l cfg pubkey ts s)"

definition miner_start :: "nat \<Rightarrow> nat \<Rightarrow> miner" where
  "miner_start physical limit = \<lparr>readonly_attempts = 0, num_threads = initial_threads physical limit\<rparr>"

section \<open>The search\<close>

definition find_any_ok :: "miner_lib \<Rightarrow> bool" where
  "find_any_ok l \<longleftrightarrow> (\<forall>good ns. case find_any l good ns of Some n \<Rightarrow> n \<in> set ns \<and> good n | None \<Rightarrow> (\<forall>n\<in>set ns. \<not> good n))"

lemma find_any_Some: "find_any_ok l \<Longrightarrow> find_any l good ns = Some n \<Longrightarrow> n \<in> set ns \<and> good n"
  unfolding find_any_ok_def by (drule spec [of _ good], drule spec [of _ ns]) simp

lemma find_any_None: "find_any_ok l \<Longrightarrow> find_any l good ns = None \<Longrightarrow> n \<in> set ns \<Longrightarrow> \<not> good n"
  unfolding find_any_ok_def by (drule spec [of _ good], drule spec [of _ ns]) simp

lemma in_nonce_chunk:
  assumes "unat start + 1000000 < 2 ^ 64"
  shows "n \<in> set (nonce_chunk start) \<longleftrightarrow> unat start \<le> unat n \<and> unat n < unat start + 1000000"
proof -
  have "unat (start + NONCE_CHUNK_SIZE) = unat start + 1000000" using assms by (simp add: NONCE_CHUNK_SIZE_def unat_word_ariths)
  then show ?thesis unfolding nonce_chunk_def
    by (auto simp: image_iff unat_of_nat intro!: bexI [of _ "unat n"]) (use assms in simp_all)
qed

lemma nonce_loop_result:
  assumes "find_any_ok l" "good m" "unat m + 1000000 < 2 ^ 64" "\<forall>k n. stop_at t k n \<longrightarrow> stop_before t (Suc k)" "unat start \<le> unat m"
  shows "\<exists>r. nonce_loop l t good k start = Some r \<and> (case r of Some n \<Rightarrow> good n | None \<Rightarrow> \<exists>k. stop_before t k)"
  using assms(5)
proof (induction "unat m - unat start" arbitrary: k start rule: less_induct)
  case less
  let ?find = "find_any l (\<lambda>n. \<not> stop_at t k n \<and> good n) (nonce_chunk start)"
  have start: "unat start + 1000000 < 2 ^ 64" using less.prems assms(3) by linarith
  then have next_start: "unat (start + NONCE_CHUNK_SIZE) = unat start + 1000000" by (simp add: NONCE_CHUNK_SIZE_def unat_word_ariths)
  consider (stopped) "stop_before t k" | (found) n where "\<not> stop_before t k" "?find = Some n"
    | (none) "\<not> stop_before t k" "?find = None" by (cases ?find) auto
  then show ?case
  proof cases
    case stopped
    then show ?thesis by (subst nonce_loop.simps) auto
  next
    case found
    then show ?thesis using find_any_Some [OF assms(1) found(2)] by (subst nonce_loop.simps) auto
  next
    case none
    then have step: "nonce_loop l t good k start = nonce_loop l t good (Suc k) (start + NONCE_CHUNK_SIZE)" by (subst nonce_loop.simps) simp
    show ?thesis
    proof (cases "m \<in> set (nonce_chunk start)")
      case True
      then have "stop_before t (Suc k)" using find_any_None [OF assms(1) none(2)] assms(2,4) by blast
      then show ?thesis unfolding step by (subst nonce_loop.simps) auto
    next
      case False
      then have "unat start + 1000000 \<le> unat m" using less.prems in_nonce_chunk [OF start] by (metis not_less)
      then show ?thesis unfolding step by (intro less.hyps) (simp_all add: next_start)
    qed
  qed
qed

text \<open>C23. The search for a nonce ends when one nonce that is not among the last million meets the target, and then it has been
  interrupted or returns a nonce that meets the target.\<close>

theorem nonce_search_returns:
  assumes "find_any_ok l" "hit c base target m" "unat m + 1000000 < 2 ^ 64" "\<forall>k n. stop_at t k n \<longrightarrow> stop_before t (Suc k)"
  shows "\<exists>r. nonce_loop l t (hit c base target) 0 0 = Some r \<and> (case r of Some n \<Rightarrow> hit c base target n | None \<Rightarrow> \<exists>k. stop_before t k)"
  by (rule nonce_loop_result [where good = "hit c base target", OF assms]) simp

section \<open>The task\<close>

lemma submit_waits: "chain_lock pm \<noteq> Free \<Longrightarrow> submit_block e n w tip blk pm = (pm, Inl Blocked)"
  by (simp add: submit_block_def write_chain_def)

lemma mine_with_keeps:
  assumes "chain_lock pm \<noteq> Free"
  shows "fst (mine_with e n w l t prev bits ts pm) = pm"
  unfolding mine_with_def Let_def
  by (cases "compact_to_target bits"; cases "start_ms t"; cases "end_ms t") (simp_all add: submit_waits [OF assms] split: option.split)

lemma miner_turn_keeps:
  "net_chain (fst (miner_turn e n w l cfg pubkey t pm)) = net_chain pm"
proof -
  let ?pm = "set_chain_lock Reading pm"
  let ?body = "\<lambda>pm. let c = net_chain pm in if read_only_mode c then (pm, Inr ReadOnly)
    else sbind (pm, block_template e l cfg pubkey (extra t) c) (\<lambda>(bits, ts) pm. mine_with e n w l t (best_tip c) bits ts pm)"
  have "fst (?body ?pm) = ?pm"
    using mine_with_keeps [of ?pm e n w l t] unfolding Let_def
    by (cases "block_template e l cfg pubkey (extra t) (net_chain ?pm)") (auto simp: set_chain_lock_def)
  then show ?thesis unfolding miner_turn_def read_chain_def holding_def
    by (auto simp: set_chain_lock_def split: prod.split sum.split fault.split)
qed

lemma miner_step_keeps: "net_chain (snd (fst (miner_step e n w l cfg pubkey t (m, pm)))) = net_chain pm"
  using miner_turn_keeps [of e n w l cfg pubkey t pm]
  by (auto simp: miner_step_def Let_def split: prod.split sum.split outcome.split)

text \<open>C24. Mining never changes the chain, because no turn gets past its write lock: after any number of turns of the task, whatever they
  meet, the chain and its database are what they were.\<close>

theorem miner_never_extends_chain:
  "net_chain (snd (fst (miner_task e n l cfg pubkey ts (m, pm)))) = net_chain pm"
proof (induction ts arbitrary: m pm)
  case (Cons wt ts)
  obtain w t where wt: "wt = (w, t)" by (cases wt)
  obtain m' pm' r where step: "miner_step e n w l cfg pubkey t (m, pm) = ((m', pm'), r)" by (metis prod.exhaust)
  then have "net_chain pm' = net_chain pm" using miner_step_keeps [of e n w l cfg pubkey t m pm] by simp
  then show ?case using Cons.IH [of m' pm'] step by (cases r) (simp_all add: wt)
qed simp

text \<open>A turn that finds a nonce never ends: it waits for the write lock of the chain while it holds a read lock, so that from
  then on nothing can take the write lock, and no block from a peer is handled either.\<close>

theorem found_nonce_blocks_node:
  assumes "chain_lock pm \<noteq> Writing" "\<not> read_only_mode (net_chain pm)" "\<not> writer_waiting t" "start_ms t = Some now" "end_ms t = Some later"
    "block_template e l cfg pubkey (extra t) (net_chain pm) = Inr (bits, ts)" "compact_to_target bits = Inr target"
    "nonce_loop l t (hit e (ser_base l \<lparr>base_version = 1, base_prev_hash = best_tip (net_chain pm), base_merkle_root = compute_merkle_root e ts,
       base_timestamp = of_nat (now div 1000), base_bits = bits\<rparr>) target) 0 0 = Some (Some nn)"
  shows "\<exists>pm'. miner_turn e n w l cfg pubkey t pm = (pm', Inl Blocked) \<and> chain_lock pm' = Reading \<and>
    (\<forall>w' dat blk. de_block e (drop 4 dat) = Some blk \<longrightarrow> snd (on_block e n w' dat pm') = Inl Blocked)"
proof -
  let ?pm = "set_chain_lock Reading pm"
  have lock: "chain_lock ?pm \<noteq> Free" "net_chain ?pm = net_chain pm" by (simp_all add: set_chain_lock_def)
  have "mine_with e n w l t (best_tip (net_chain pm)) bits ts ?pm = (?pm, Inl Blocked)"
    using assms(3-5,7,8) unfolding mine_with_def Let_def by (simp add: lock(2) submit_waits [OF lock(1)])
  then have "miner_turn e n w l cfg pubkey t pm = (?pm, Inl Blocked)"
    using assms(1,2,6) by (simp add: miner_turn_def read_chain_def holding_def lock(2))
  moreover have "snd (on_block e n w' dat ?pm) = Inl Blocked" if "de_block e (drop 4 dat) = Some blk" for w' dat blk
    using that by (simp add: on_block_def write_chain_def set_chain_lock_def)
  ultimately show ?thesis by (auto simp: set_chain_lock_def)
qed

section \<open>The block that is found\<close>

lemma nonce_loop_sound:
  assumes "find_any_ok l" "nonce_loop l t good k start = Some (Some n)"
  shows "good n"
proof -
  let ?P = "\<lambda>l (t :: turn) good (k :: nat) (start :: u64) r. find_any_ok l \<longrightarrow> r = Some n \<longrightarrow> good n"
  have "?P l t good k start (Some n)"
  proof (rule nonce_loop.raw_induct [of ?P, OF _ assms(2)])
    fix loop l t good k start r
    assume IH: "\<And>l t good k start r. loop l t good k start = Some r \<Longrightarrow> ?P l t good k start r"
      and run: "(if stop_before t k then Some None
        else case find_any l (\<lambda>n. \<not> stop_at t k n \<and> good n) (nonce_chunk start) of
          None \<Rightarrow> loop l t good (Suc k) (start + NONCE_CHUNK_SIZE) | Some n \<Rightarrow> Some (Some n)) = Some r"
    show "?P l t good k start r"
    proof (intro impI)
      assume ok: "find_any_ok l" and r: "r = Some n"
      show "good n"
      proof (cases "find_any l (\<lambda>n. \<not> stop_at t k n \<and> good n) (nonce_chunk start)")
        case None
        then have "loop l t good (Suc k) (start + NONCE_CHUNK_SIZE) = Some r" using run r by (simp split: if_splits)
        from IH [OF this] ok r show ?thesis by blast
      next
        case (Some m)
        then show ?thesis using run r find_any_Some [OF ok Some] by (simp split: if_splits)
      qed
    qed
  qed
  then show ?thesis using assms by blast
qed

text \<open>bincode writes the fields of a record one after the other, so that the header ends with its nonce.\<close>

definition header_layout :: "'a codec_scheme \<Rightarrow> miner_lib \<Rightarrow> bool" where
  "header_layout e l \<longleftrightarrow> (\<forall>v p r ts b n. ser_header e \<lparr>hdr_version = v, prev_hash = p, merkle_root = r, timestamp = ts, hdr_bits = b, nonce = n\<rparr> =
     ser_base l \<lparr>base_version = v, base_prev_hash = p, base_merkle_root = r, base_timestamp = ts, base_bits = b\<rparr> @ u64_le n)"

text \<open>C22. The header built from a nonce that the search found meets the target, provided that the clock still shows the second in which the
  search began; the time stamp is read again after the search, and in a later second the header is not the one that was searched.\<close>

theorem mined_header_meets_target:
  assumes "find_any_ok l" "header_layout e l" "later div 1000 = now div 1000"
    "nonce_loop l t (hit e (ser_base l \<lparr>base_version = 1, base_prev_hash = prev, base_merkle_root = root,
       base_timestamp = of_nat (now div 1000), base_bits = bits\<rparr>) target) 0 0 = Some (Some nn)"
    "header_hash e \<lparr>hdr_version = 1, prev_hash = prev, merkle_root = root, timestamp = of_nat (later div 1000), hdr_bits = bits, nonce = nn\<rparr> = Inr hash"
  shows "u256_from_be hash \<le> target"
proof -
  have "hit e (ser_base l \<lparr>base_version = 1, base_prev_hash = prev, base_merkle_root = root, base_timestamp = of_nat (now div 1000), base_bits = bits\<rparr>) target nn"
    by (rule nonce_loop_sound [OF assms(1,4)])
  moreover have "pow_hash e (ser_base l \<lparr>base_version = 1, base_prev_hash = prev, base_merkle_root = root, base_timestamp = of_nat (now div 1000), base_bits = bits\<rparr> @ u64_le nn) = Inr hash"
    using assms(2,3,5) by (simp add: header_hash_def header_layout_def)
  ultimately show ?thesis by (simp add: hit_def u256_from_hash_def u256_from_be_def)
qed

section \<open>The template\<close>

lemma fee_without_outputs: "fee tx Map.empty = 0"
proof -
  have "checked_sum (map (\<lambda>vin. 0 :: u64) vins) = Some 0" for vins :: "txinput list"
    by (simp add: checked_sum_Some comp_def)
  then show ?thesis unfolding fee_def by (simp add: saturating_sub_def split: option.split)
qed

lemma template_fees_zero: "template_fees ts = Inr 0"
  by (simp add: template_fees_def fee_without_outputs checked_sum_Some comp_def unwrap_eq_Inr)

lemma block_template_Inr:
  assumes "block_template e l cfg pubkey ext c = Inr (bits, ts)"
  obtains cb out where "ts = cb # select_txs e (chain_mempool c) (MAX_BLOCK_SIZE - 1000)" "is_coinbase cb" "outputs cb = [out]"
    "out_value out = subsidy (best_height c + 1)" "calculate_next_bits e (chain_db c) (best_height c + 1) = Inr bits"
proof -
  obtain cb where cb: "ts = cb # select_txs e (chain_mempool c) (MAX_BLOCK_SIZE - 1000)"
      "template_coinbase e l cfg pubkey ext (best_height c + 1) 0 = Inr cb" "calculate_next_bits e (chain_db c) (best_height c + 1) = Inr bits"
    using assms by (auto simp: block_template_def template_fees_zero rbind_eq_Inr Let_def)
  from cb(2) have "is_coinbase cb \<and> (\<exists>out. outputs cb = [out] \<and> out_value out = subsidy (best_height c + 1))"
    by (auto simp: template_coinbase_def create_coinbase_def is_coinbase_def rbind_eq_Inr or_err_eq_Inr checked_add_eq_Some Let_def word_unat_eq_iff split: option.splits)
  with cb show thesis using that by blast
qed

text \<open>The template pays its miner the subsidy and nothing else, because the fees are looked up in an empty table.  A block with
  the transactions of a template is therefore valid only when the transactions it took from the pool pay no fee at all.\<close>

theorem template_claims_no_fees:
  assumes "block_template e l cfg pubkey ext c = Inr (bits, ts)" "txs b = ts"
    "validate_block e (chain_db c) best cps now b (best_height c + 1) = Inr ()"
  shows "\<exists>cb chosen out utxos anon_outputs. ts = cb # chosen \<and> outputs cb = [out] \<and> out_value out = subsidy (best_height c + 1) \<and>
    try_fold (\<lambda>maps tx. try_fold (fetch_block_input e (chain_db c) (is_anonymous tx)) maps (inputs tx)) (Map.empty, Map.empty) chosen =
      Inr (utxos, anon_outputs) \<and> block_fees utxos anon_outputs chosen = Some 0"
proof -
  obtain cb out where t: "ts = cb # select_txs e (chain_mempool c) (MAX_BLOCK_SIZE - 1000)" "outputs cb = [out]"
      "out_value out = subsidy (best_height c + 1)"
    using block_template_Inr [OF assms(1)] by metis
  from assms(3) show ?thesis
  proof (rule validate_block_accepts, goal_cases)
    case (1 hash target utxos anon_outputs fees median time cb' rest out' outs)
    then have same: "cb' = cb" "rest = select_txs e (chain_mempool c) (MAX_BLOCK_SIZE - 1000)" "out' = out" using t(1,2) assms(2) by simp_all
    then have "unat fees = 0" using 1 t(3) by simp
    then have "block_fees utxos anon_outputs rest = Some 0" using 1 by (simp add: unat_eq_zero)
    then show ?case using 1 t same by blast
  qed
qed

section \<open>Threads and patience\<close>

definition miner_ok :: "miner \<Rightarrow> bool" where
  "miner_ok m \<longleftrightarrow> 4 \<le> num_threads m \<and> num_threads m \<le> 64 \<and> readonly_attempts m \<le> 30"

definition miner_bounds :: "miner \<Rightarrow> unit result \<Rightarrow> bool" where
  "miner_bounds m r \<longleftrightarrow> 4 \<le> num_threads m \<and> num_threads m \<le> 64 \<and> readonly_attempts m \<le> 31 \<and> (readonly_attempts m = 31 \<longrightarrow> r \<noteq> Inr ())"

lemma adjusted_threads_bounds: "4 \<le> k \<Longrightarrow> k \<le> 64 \<Longrightarrow> 4 \<le> adjusted_threads j k \<and> adjusted_threads j k \<le> 64"
  by (auto simp: adjusted_threads_def)

lemma attempts_step: "(a :: u8) \<le> 30 \<Longrightarrow> a + 1 \<le> 31 \<and> (a + 1 = 31 \<longrightarrow> \<not> a + 1 \<le> 30) \<and> (a + 1 \<le> 30 \<or> a + 1 > 30)"
  by (auto simp: word_le_nat_alt word_less_nat_alt unat_word_ariths)

lemma miner_step_bounds:
  assumes "miner_ok m" "miner_step e n w l cfg pubkey t (m, pm) = ((m', pm'), r)"
  shows "miner_bounds m' r \<and> (r = Inr () \<longrightarrow> miner_ok m')"
proof -
  obtain pm1 o1 where turn: "miner_turn e n w l cfg pubkey t pm = (pm1, o1)" by fastforce
  have le: "readonly_attempts m \<le> 31" "readonly_attempts m \<noteq> 31" using assms(1) by (auto simp: miner_ok_def word_le_nat_alt)
  consider (failed) f where "o1 = Inl f" | (wait) "o1 = Inr ReadOnly" | (other) x where "o1 = Inr x" "x \<noteq> ReadOnly"
    by (cases o1) auto
  then show ?thesis
  proof cases
    case failed
    then show ?thesis using assms turn le by (auto simp: miner_step_def miner_bounds_def miner_ok_def)
  next
    case wait
    then have "m' = m\<lparr>readonly_attempts := readonly_attempts m + 1\<rparr>" "r = bail_if (readonly_attempts m + 1 > 30) (Anyhow ''Persistent read_only_mode'')"
      using assms(2) turn by (auto simp: miner_step_def Let_def)
    then show ?thesis using assms(1) attempts_step [of "readonly_attempts m"]
      by (auto simp: miner_bounds_def miner_ok_def bail_if_eq_Inr not_less)
  next
    case other
    then have "m' = m\<lparr>readonly_attempts := 0, num_threads := adjusted_threads (tasks t) (num_threads m)\<rparr>"
      using assms(2) turn by (cases x) (auto simp: miner_step_def)
    then show ?thesis using assms(1) adjusted_threads_bounds [of "num_threads m" "tasks t"] by (simp add: miner_bounds_def miner_ok_def)
  qed
qed

lemma miner_task_bounds:
  "miner_ok m \<Longrightarrow> miner_task e n l cfg pubkey ts (m, pm) = ((m', pm'), r) \<Longrightarrow> miner_bounds m' r"
proof (induction ts arbitrary: m pm)
  case Nil
  then show ?case by (auto simp: miner_bounds_def miner_ok_def word_le_nat_alt)
next
  case (Cons wt ts)
  obtain w t where wt: "wt = (w, t)" by (cases wt)
  obtain m1 pm1 r1 where step: "miner_step e n w l cfg pubkey t (m, pm) = ((m1, pm1), r1)" by (metis prod.exhaust)
  note bounds = miner_step_bounds [OF Cons.prems(1) step]
  show ?case
  proof (cases r1)
    case (Inl f)
    then show ?thesis using Cons.prems(2) step bounds by (simp add: wt)
  next
    case (Inr u)
    then have "miner_ok m1" "miner_task e n l cfg pubkey ts (m1, pm1) = ((m', pm'), r)" using Cons.prems(2) step bounds by (simp_all add: wt)
    then show ?thesis by (rule Cons.IH)
  qed
qed

lemma read_only_turn:
  assumes "read_only_mode (net_chain pm)" "chain_lock pm \<noteq> Writing"
  shows "miner_turn e n w l cfg pubkey t pm = (pm, Inr ReadOnly)"
  using assms by (simp add: miner_turn_def read_chain_def holding_def set_chain_lock_def)

lemma bail_if_attempts: "(a :: u8) \<le> 30 \<Longrightarrow>
    unat (a + 1) = Suc (unat a) \<and> (a + 1 > 30 \<longleftrightarrow> unat a = 30) \<and> (unat a \<noteq> 30 \<longrightarrow> a + 1 \<le> 30)"
  by (auto simp: word_le_nat_alt word_less_nat_alt unat_word_ariths)

lemma read_only_task:
  assumes "read_only_mode (net_chain pm)" "chain_lock pm \<noteq> Writing" "readonly_attempts m \<le> 30"
    "miner_task e n l cfg pubkey ts (m, pm) = ((m', pm'), r)"
  shows "unat (readonly_attempts m') = min (unat (readonly_attempts m) + length ts) 31 \<and> num_threads m' = num_threads m \<and>
    r = (if unat (readonly_attempts m) + length ts \<le> 30 then Inr () else bail (Anyhow ''Persistent read_only_mode''))"
  using assms(3,4)
proof (induction ts arbitrary: m)
  case Nil
  then show ?case by (auto simp: word_le_nat_alt)
next
  case (Cons wt ts)
  obtain w t where wt: "wt = (w, t)" by (cases wt)
  let ?m = "m\<lparr>readonly_attempts := readonly_attempts m + 1\<rparr>"
  note a = bail_if_attempts [OF Cons.prems(1)]
  have step: "miner_step e n w l cfg pubkey t (m, pm) = ((?m, pm), bail_if (readonly_attempts m + 1 > 30) (Anyhow ''Persistent read_only_mode''))"
    by (simp add: miner_step_def read_only_turn [OF assms(1,2)] Let_def)
  show ?case
  proof (cases "unat (readonly_attempts m) = 30")
    case True
    then have "((m', pm'), r) = ((?m, pm), bail (Anyhow ''Persistent read_only_mode''))"
      using Cons.prems(2) a by (simp add: wt step bail_if_def)
    then show ?thesis using a True by simp
  next
    case False
    then have "miner_task e n l cfg pubkey ts (?m, pm) = ((m', pm'), r)" using Cons.prems(2) a by (simp add: wt step bail_if_def)
    from Cons.IH [OF _ this] show ?thesis using a False by simp
  qed
qed

lemma mine_with_outcome:
  assumes "chain_lock pm \<noteq> Free"
  shows "snd (mine_with e n w l t prev bits ts pm) \<noteq> Inr ReadOnly"
  unfolding mine_with_def Let_def
  by (cases "compact_to_target bits"; cases "start_ms t"; cases "end_ms t") (simp_all add: submit_waits [OF assms] split: option.split)

lemma busy_turn:
  assumes "\<not> read_only_mode (net_chain pm)"
  shows "snd (miner_turn e n w l cfg pubkey t pm) \<noteq> Inr ReadOnly"
proof -
  let ?pm = "set_chain_lock Reading pm"
  have locked: "chain_lock ?pm \<noteq> Free" by (simp add: set_chain_lock_def)
  have mine: "mine_with e n w l t prev bits ts ?pm \<noteq> (pm', Inr ReadOnly)" for prev bits ts pm'
    using mine_with_outcome [OF locked, of e n w l t prev bits ts] by auto
  show ?thesis
    using assms mine
    by (cases "block_template e l cfg pubkey (extra t) (net_chain pm)")
      (auto simp: miner_turn_def read_chain_def holding_def Let_def set_chain_lock_def split: prod.split sum.split fault.split)
qed

lemma busy_task:
  assumes "miner_task e n l cfg pubkey ts (m, pm) = ((m', pm'), r)" "\<not> read_only_mode (net_chain pm)" "readonly_attempts m = 0"
  shows "readonly_attempts m' = 0"
  using assms
proof (induction ts arbitrary: m pm)
  case (Cons wt ts)
  obtain w t where wt: "wt = (w, t)" by (cases wt)
  obtain m1 pm1 r1 where step: "miner_step e n w l cfg pubkey t (m, pm) = ((m1, pm1), r1)" by (metis prod.exhaust)
  have "net_chain pm1 = net_chain pm" using miner_step_keeps [of e n w l cfg pubkey t m pm] step by simp
  moreover have "readonly_attempts m1 = 0"
    using step busy_turn [OF Cons.prems(2), of e n w l cfg pubkey t] Cons.prems(3)
    by (auto simp: miner_step_def Let_def split: prod.splits sum.splits outcome.splits)
  ultimately show ?case using Cons.IH [of m1 pm1] Cons.prems(1,2) step by (cases r1) (simp_all add: wt)
qed simp

text \<open>C39. The pool of the miner has between 4 and 64 threads from the start and after every turn.  On a chain in read-only mode it
  counts the turns and gives up at the thirty-first, neither before nor after, and its pool stays as it was; on any other chain the
  count stays 0.\<close>

theorem miner_stays_in_bounds:
  assumes "miner_task e n l cfg pubkey ts (miner_start physical limit, pm) = ((m, pm'), r)"
  shows "4 \<le> num_threads m \<and> num_threads m \<le> 64 \<and>
    (\<not> read_only_mode (net_chain pm) \<longrightarrow> readonly_attempts m = 0) \<and>
    (read_only_mode (net_chain pm) \<and> chain_lock pm \<noteq> Writing \<longrightarrow>
      unat (readonly_attempts m) = min (length ts) 31 \<and> num_threads m = min (max (min physical limit) 4) 64 \<and>
      r = (if length ts \<le> 30 then Inr () else bail (Anyhow ''Persistent read_only_mode'')))"
proof -
  have "miner_ok (miner_start physical limit)" by (simp add: miner_ok_def miner_start_def initial_threads_def)
  from miner_task_bounds [OF this assms] have "4 \<le> num_threads m" "num_threads m \<le> 64" by (simp_all add: miner_bounds_def)
  moreover have start: "readonly_attempts (miner_start physical limit) = 0" "num_threads (miner_start physical limit) = min (max (min physical limit) 4) 64"
    by (simp_all add: miner_start_def initial_threads_def)
  moreover have "readonly_attempts m = 0" if "\<not> read_only_mode (net_chain pm)" using busy_task [OF assms that start(1)] .
  ultimately show ?thesis using read_only_task [OF _ _ _ assms] by simp
qed

section \<open>Witnesses\<close>

definition demo_miner :: miner_lib where
  "demo_miner = \<lparr>find_any = find, parse_pubkey = (\<lambda>_. None),
     ser_base = (\<lambda>h. u32_le (base_version h) @ put_bytes (base_prev_hash h) @ put_bytes (base_merkle_root h) @
       u32_le (base_timestamp h) @ u32_le (base_bits h))\<rparr>"

definition quiet_turn :: turn where
  "quiet_turn = \<lparr>extra = [], writer_waiting = False, stop_before = (\<lambda>_. False), stop_at = (\<lambda>_ _. False), start_ms = Some 10000,
     end_ms = Some 10000, tasks = 0\<rparr>"

lemma demo_find_any: "find_any_ok demo_miner"
  by (auto simp: find_any_ok_def demo_miner_def find_None_iff find_Some_iff split: option.split)

lemma quiet_fields: "extra quiet_turn = []" "\<not> writer_waiting quiet_turn" "\<not> stop_before quiet_turn k" "\<not> stop_at quiet_turn k n"
    "start_ms quiet_turn = Some 10000" "end_ms quiet_turn = Some 10000"
  by (simp_all add: quiet_turn_def)

lemma demo_layout: "header_layout easy_env demo_miner"
  by (simp add: header_layout_def easy_env_def demo_env_def put_header_def demo_miner_def)

lemma easy_hit: "hit easy_env base target n"
  by (simp add: hit_def pow_hash_def easy_env_def u256_from_hash_def nat_of_be_zeros)

lemma easy_search: "\<exists>nn. nonce_loop demo_miner quiet_turn (hit easy_env base target) 0 0 = Some (Some nn)"
proof -
  have "\<exists>r. nonce_loop demo_miner quiet_turn (hit easy_env base target) 0 0 = Some r \<and>
      (case r of Some n \<Rightarrow> hit easy_env base target n | None \<Rightarrow> \<exists>k. stop_before quiet_turn k)"
    by (rule nonce_loop_result [where good = "hit easy_env base target", OF demo_find_any easy_hit [where n = 0]]) (simp_all add: quiet_fields)
  then show ?thesis by (auto simp: quiet_fields split: option.splits)
qed

lemma easy_template: "block_template easy_env demo_miner demo_config [] [] easy_chain = Inr (0x1d00ffff, [paid_coinbase])"
proof -
  have "select_txs easy_env (chain_mempool easy_chain) k = []" for k
    by (simp add: select_txs_def easy_chain_def mempool_new_def)
  moreover have "subsidy 1 = 10000000000" by (simp add: subsidy_def constants checked_shr_def)
  ultimately show ?thesis
    using easy_bits by (simp add: block_template_def template_fees_zero template_coinbase_def demo_miner_def checked_add_def paid_coinbase_def
      create_coinbase_def Let_def)
qed

theorem nonce_search_returns_witness:
  "\<exists>r. nonce_loop demo_miner quiet_turn (hit easy_env [] 0) 0 0 = Some r"
proof -
  have "\<exists>r. nonce_loop demo_miner quiet_turn (hit easy_env [] 0) 0 0 = Some r \<and>
      (case r of Some n \<Rightarrow> hit easy_env [] 0 n | None \<Rightarrow> \<exists>k. stop_before quiet_turn k)"
    by (rule nonce_search_returns [OF demo_find_any easy_hit [where n = 0]]) (simp_all add: quiet_fields)
  then show ?thesis by blast
qed

theorem found_nonce_blocks_node_witness:
  "\<exists>pm'. miner_turn easy_env easy_ext easy_world demo_miner demo_config [] quiet_turn demo_pm = (pm', Inl Blocked) \<and> chain_lock pm' = Reading"
proof -
  have pm: "net_chain demo_pm = easy_chain" "chain_lock demo_pm = Free" by (simp_all add: peer_manager_new_def)
  obtain target where target: "compact_to_target 0x1d00ffff = Inr target" using easy_target by blast
  obtain nn where nn: "nonce_loop demo_miner quiet_turn (hit easy_env (ser_base demo_miner \<lparr>base_version = 1,
      base_prev_hash = best_tip (net_chain demo_pm), base_merkle_root = compute_merkle_root easy_env [paid_coinbase],
      base_timestamp = of_nat (10000 div 1000), base_bits = 0x1d00ffff\<rparr>) target) 0 0 = Some (Some nn)" using easy_search by blast
  have "\<exists>pm'. miner_turn easy_env easy_ext easy_world demo_miner demo_config [] quiet_turn demo_pm = (pm', Inl Blocked) \<and> chain_lock pm' = Reading \<and>
      (\<forall>w' dat blk. de_block easy_env (drop 4 dat) = Some blk \<longrightarrow> snd (on_block easy_env easy_ext w' dat pm') = Inl Blocked)"
    by (rule found_nonce_blocks_node [OF _ _ _ _ _ _ target nn]) (simp_all add: pm quiet_fields easy_template)
  then show ?thesis by blast
qed

theorem mined_header_meets_target_witness:
  "\<exists>nn. nonce_loop demo_miner quiet_turn (hit easy_env (ser_base demo_miner \<lparr>base_version = 1, base_prev_hash = zero_hash, base_merkle_root = zero_hash,
       base_timestamp = of_nat (10000 div 1000), base_bits = 1\<rparr>) 0) 0 0 = Some (Some nn) \<and> u256_from_be zero_hash \<le> 0"
proof -
  obtain nn where nn: "nonce_loop demo_miner quiet_turn (hit easy_env (ser_base demo_miner \<lparr>base_version = 1, base_prev_hash = zero_hash,
      base_merkle_root = zero_hash, base_timestamp = of_nat (10000 div 1000), base_bits = 1\<rparr>) 0) 0 0 = Some (Some nn)" using easy_search by blast
  from mined_header_meets_target [OF demo_find_any demo_layout refl nn easy_hash] nn show ?thesis by blast
qed

theorem template_claims_no_fees_witness:
  "\<exists>cb chosen utxos anon_outputs. [paid_coinbase] = cb # chosen \<and> block_fees utxos anon_outputs chosen = Some 0"
proof -
  have "validate_block easy_env (chain_db easy_chain) 0 Map.empty (Some 10000) easy_block (best_height easy_chain + 1) = Inr ()"
    using easy_block_accepted [of 0] by simp
  from template_claims_no_fees [OF easy_template _ this] show ?thesis by fastforce
qed

definition paused_pm :: peer_manager where
  "paused_pm = peer_manager_new demo_config (easy_chain\<lparr>read_only_mode := True\<rparr>)"

theorem miner_stays_in_bounds_witness:
  "unat (readonly_attempts (fst (fst (miner_task easy_env easy_ext demo_miner demo_config [] (replicate 30 (easy_world, quiet_turn)) (miner_start 8 6, paused_pm))))) = 30 \<and>
   snd (miner_task easy_env easy_ext demo_miner demo_config [] (replicate 30 (easy_world, quiet_turn)) (miner_start 8 6, paused_pm)) = Inr () \<and>
   snd (miner_task easy_env easy_ext demo_miner demo_config [] (replicate 31 (easy_world, quiet_turn)) (miner_start 8 6, paused_pm)) =
     bail (Anyhow ''Persistent read_only_mode'')"
proof -
  let ?run = "\<lambda>k. miner_task easy_env easy_ext demo_miner demo_config [] (replicate k (easy_world, quiet_turn)) (miner_start 8 6, paused_pm)"
  have run: "?run k = ((fst (fst (?run k)), snd (fst (?run k))), snd (?run k))" for k by simp
  have "read_only_mode (net_chain paused_pm)" "chain_lock paused_pm \<noteq> Writing" by (simp_all add: paused_pm_def peer_manager_new_def)
  then show ?thesis using miner_stays_in_bounds [OF run [of 30]] miner_stays_in_bounds [OF run [of 31]] by simp
qed

end
