(* ===== verification/Backup.thy ===== *)
theory Backup
  imports Config Chain
begin

text \<open>
  Files that the node writes: secrets (\<^verbatim>\<open>secure_save_secret\<close> of \<^verbatim>\<open>utils.rs\<close>) and the backups of \<^verbatim>\<open>db.rs\<close>
  with the zip archive of a directory tree, the signature, the rotation and the periodic task.  Which system calls
  succeed is an argument; the zip encoding, the signature and the key parser are parameters.
\<close>

section \<open>Saving a secret\<close>

type_synonym file_system = "string \<rightharpoonup> secret_file"

record disk =
  create_ok :: bool
  write_all_ok :: bool
  landed :: nat
  sync_ok :: bool
  chown_ok :: bool
  rename_ok :: bool
  umask :: u32
  open_dir_ok :: "string \<Rightarrow> bool"

text \<open>\<^verbatim>\<open>Path::parent\<close>: nothing for the empty path and the root, the empty path for a bare name.\<close>

definition parent :: "string \<Rightarrow> string option" where
  "parent path =
     (if path = [] \<or> path = ''/'' then None
      else case rev (dropWhile (\<lambda>ch. ch \<noteq> CHR ''/'') (rev path)) of
        [] \<Rightarrow> Some []
      | dir \<Rightarrow> Some (if butlast dir = [] then ''/'' else butlast dir))"

definition new_file :: "u32 \<Rightarrow> u32 \<Rightarrow> bytes \<Rightarrow> secret_file" where
  "new_file euid um dat = \<lparr>st_uid = euid, st_mode = 0x8000 OR (0x180 AND NOT um), st_size = length dat, contents = dat\<rparr>"

definition sync_parent :: "disk \<Rightarrow> string \<Rightarrow> unit result" where
  "sync_parent d path =
     (case parent path of
        None \<Rightarrow> Inr ()
      | Some dir \<Rightarrow> bail_if (dir = [] \<or> \<not> open_dir_ok d dir) (Anyhow ''Unable to open parent directory for fsync''))"

definition secure_save_secret :: "disk \<Rightarrow> u32 \<Rightarrow> string \<Rightarrow> bytes \<Rightarrow> file_system \<Rightarrow> file_system \<times> unit result" where
  "secure_save_secret d euid path dat fs =
     (let tmp_path = path @ ''.tmp''; whole = new_file euid (umask d) dat in
      sbind (fs, bail_if (fs tmp_path \<noteq> None \<or> \<not> create_ok d) (Anyhow ''Failed to create temporary key file'')) (\<lambda>_ fs.
      if \<not> write_all_ok d then (fs(tmp_path \<mapsto> new_file euid (umask d) (take (landed d) dat)), bail (Anyhow ''io::Error''))
      else
        let fs = fs(tmp_path \<mapsto> whole) in
        sbind (fs, bail_if (\<not> sync_ok d) (Anyhow ''io::Error'')) (\<lambda>_ fs.
        sbind (fs, bail_if (\<not> chown_ok d) (Anyhow ''nix::Error'')) (\<lambda>_ fs.
        sbind (fs, bail_if (\<not> rename_ok d) (Anyhow ''Atomic rename failed'')) (\<lambda>_ fs.
        (fs(path \<mapsto> whole, tmp_path := None), sync_parent d path))))))"

section \<open>Archives\<close>

datatype node = File bytes | Dir "(string \<times> node) list" | Special | Unreadable

type_synonym archive = "(string \<times> bytes) list"

function add_dir_to_zip :: "string \<Rightarrow> (string \<times> node) list \<Rightarrow> archive \<Rightarrow> archive result" where
  "add_dir_to_zip base [] arch = Inr arch"
| "add_dir_to_zip base ((name, File dat) # entries) arch = add_dir_to_zip base entries (arch @ [(base @ name, dat)])"
| "add_dir_to_zip base ((name, Dir sub) # entries) arch =
     rbind (add_dir_to_zip (base @ name @ ''/'') sub arch) (\<lambda>arch. add_dir_to_zip base entries arch)"
| "add_dir_to_zip base ((name, Special) # entries) arch = add_dir_to_zip base entries arch"
| "add_dir_to_zip base ((name, Unreadable) # entries) arch = bail (Anyhow ''Open file error'')"
  by pat_completeness auto
termination by (relation "measure (\<lambda>(_, entries, _). size_list (size_prod (\<lambda>_. 0) size) entries)") auto

section \<open>Rotation\<close>

record backup_file =
  file_data :: bytes
  modified :: nat

type_synonym directory = "(string \<times> backup_file) list"

definition is_backup :: "string \<Rightarrow> bool" where
  "is_backup name \<longleftrightarrow> sublist ''_checkpoint_'' name \<and> suffix ''.zip'' name"

text \<open>\<^verbatim>\<open>with_extension\<close> replaces what follows the last dot, here always \<^verbatim>\<open>zip\<close>.\<close>

definition sig_of :: "string \<Rightarrow> string" where
  "sig_of name = take (length name - 4) name @ ''.sig''"

fun remove_backups :: "(string \<Rightarrow> bool) \<Rightarrow> string list \<Rightarrow> directory \<Rightarrow> directory \<times> unit result" where
  "remove_backups removable [] dir = (dir, Inr ())"
| "remove_backups removable (old # olds) dir =
     (if \<not> removable old then (dir, bail (Anyhow ''io::Error''))
      else
        let dir = al_delete old dir;
            dir = (if map_of dir (sig_of old) \<noteq> None \<and> removable (sig_of old) then al_delete (sig_of old) dir else dir)
        in remove_backups removable olds dir)"

definition rotate_backups :: "(string \<Rightarrow> bool) \<Rightarrow> nat \<Rightarrow> directory \<Rightarrow> directory \<times> unit result" where
  "rotate_backups removable keep dir =
     (let files = filter (\<lambda>(name, _). is_backup name) dir;
          files = rev (sort_key (\<lambda>(_, f). modified f) files)
      in remove_backups removable (map fst (drop keep files)) dir)"

section \<open>Backups\<close>

datatype io_step = MakeCheckpoint | CreateZip | FinishZip | ReadZip | WriteSig | RenameZip | RenameSig | ReadDir

record backup_env =
  pool_ready :: bool
  backup_ms :: "nat option"
  io_ok :: "io_step \<Rightarrow> bool"
  can_remove :: "string \<Rightarrow> bool"
  zip_bytes :: "archive \<Rightarrow> bytes"
  parse_key :: "bytes \<Rightarrow> bytes option"
  sign_backup :: "bytes \<Rightarrow> bytes \<Rightarrow> bytes"
  process_uid :: u32
  key_file :: "secret_file option"

record site =
  maintenance_lock :: bool
  db_name :: string
  db_tree :: "(string \<times> node) list"
  backup_dir :: directory

definition store_file :: "string \<Rightarrow> bytes \<Rightarrow> nat \<Rightarrow> directory \<Rightarrow> directory" where
  "store_file name dat time dir = al_insert name \<lparr>file_data = dat, modified = time\<rparr> dir"

definition rename_file :: "string \<Rightarrow> string \<Rightarrow> directory \<Rightarrow> directory" where
  "rename_file from to dir = (case map_of dir from of Some f \<Rightarrow> al_insert to f (al_delete from dir) | None \<Rightarrow> dir)"

definition io :: "backup_env \<Rightarrow> io_step \<Rightarrow> unit result" where
  "io be k = bail_if (\<not> io_ok be k) (Anyhow ''io::Error'')"

definition sign_and_publish :: "backup_env \<Rightarrow> string \<Rightarrow> nat \<Rightarrow> bytes \<Rightarrow> directory \<Rightarrow> directory \<times> unit result" where
  "sign_and_publish be stem now dat dir =
     sbind (dir, load_keypair (parse_key be) (process_uid be) (key_file be)) (\<lambda>key dir.
     sbind (dir, io be WriteSig) (\<lambda>_ dir.
     let dir = store_file (stem @ ''.sig.tmp'') (sign_backup be key dat) now dir in
     sbind (dir, io be RenameZip) (\<lambda>_ dir.
     let dir = rename_file (stem @ ''.zip.tmp'') (stem @ ''.zip'') dir in
     sbind (dir, io be RenameSig) (\<lambda>_ dir.
     let dir = rename_file (stem @ ''.sig.tmp'') (stem @ ''.sig'') dir in
     sbind (dir, io be ReadDir) (\<lambda>_ dir. rotate_backups (can_remove be) 3 dir)))))"

text \<open>The checkpoint is a directory that is removed again at the end, whatever happens, and is not part of the state.\<close>

definition write_backup :: "backup_env \<Rightarrow> string \<Rightarrow> (string \<times> node) list \<Rightarrow> directory \<Rightarrow> directory \<times> unit result" where
  "write_backup be name tree dir =
     sbind (dir, or_err (backup_ms be) InvalidTimestamp) (\<lambda>now dir.
     sbind (dir, io be MakeCheckpoint) (\<lambda>_ dir.
     let stem = name @ ''_checkpoint_'' @ decimal now; tmp = stem @ ''.zip.tmp'' in
     sbind (dir, bail_if (map_of dir tmp \<noteq> None \<or> \<not> io_ok be CreateZip) (Anyhow ''Zip file creation error'')) (\<lambda>_ dir.
     let dir = store_file tmp [] now dir in
     sbind (dir, add_dir_to_zip [] tree []) (\<lambda>arch dir.
     sbind (dir, io be FinishZip) (\<lambda>_ dir.
     let dat = zip_bytes be arch; dir = store_file tmp dat now dir in
     sbind (dir, io be ReadZip) (\<lambda>_ dir. sign_and_publish be stem now dat dir))))))"

definition secure_backup_db :: "backup_env \<Rightarrow> site \<Rightarrow> site \<times> unit result" where
  "secure_backup_db be s =
     (if maintenance_lock s then (s, Inl Blocked)
      else if \<not> pool_ready be then (s, bail (Anyhow ''DB pool error''))
      else case write_backup be (db_name s) (db_tree s) (backup_dir s) of (dir, r) \<Rightarrow> (s\<lparr>backup_dir := dir\<rparr>, r))"

text \<open>One round of the periodic task, which takes the lock itself and reports an error of the backup.\<close>

definition backup_round :: "backup_env \<Rightarrow> site \<Rightarrow> site \<times> unit result" where
  "backup_round be s =
     (if maintenance_lock s then (s, Inl Blocked)
      else case secure_backup_db be (s\<lparr>maintenance_lock := True\<rparr>) of
        (s, Inl Blocked) \<Rightarrow> (s, Inl Blocked)
      | (s, Inl Panic) \<Rightarrow> (s, Inl Panic)
      | (s, _) \<Rightarrow> (s\<lparr>maintenance_lock := False\<rparr>, Inr ()))"

definition backup_now :: "backup_env \<Rightarrow> site \<Rightarrow> site \<times> unit result" where
  "backup_now be s = secure_backup_db be (s\<lparr>maintenance_lock := False\<rparr>)"

section \<open>Secrets\<close>

lemma save_refused:
  "fs (path @ ''.tmp'') \<noteq> None \<or> \<not> create_ok d \<Longrightarrow>
     secure_save_secret d euid path dat fs = (fs, bail (Anyhow ''Failed to create temporary key file''))"
  by (simp add: secure_save_secret_def Let_def)

lemma save_broken_off:
  assumes "fs (path @ ''.tmp'') = None" "create_ok d" "\<not> (write_all_ok d \<and> sync_ok d \<and> chown_ok d \<and> rename_ok d)"
  shows "\<exists>part err. secure_save_secret d euid path dat fs = (fs(path @ ''.tmp'' \<mapsto> part), bail err)"
  using assms by (cases "write_all_ok d"; cases "sync_ok d"; cases "chown_ok d") (simp_all add: secure_save_secret_def Let_def, (rule exI, rule refl)+)

lemma save_done:
  assumes "fs (path @ ''.tmp'') = None" "create_ok d" "write_all_ok d" "sync_ok d" "chown_ok d" "rename_ok d"
  shows "secure_save_secret d euid path dat fs = (fs(path \<mapsto> new_file euid (umask d) dat, path @ ''.tmp'' := None), sync_parent d path)"
  using assms by (simp add: secure_save_secret_def Let_def)

lemma saved_files:
  assumes "secure_save_secret d euid path dat fs = (fs', r)"
  shows "fs' = fs \<and> r = bail (Anyhow ''Failed to create temporary key file'') \<or>
    (\<exists>part err. fs' = fs(path @ ''.tmp'' \<mapsto> part) \<and> r = bail err) \<or>
    fs' = fs(path \<mapsto> new_file euid (umask d) dat, path @ ''.tmp'' := None) \<and> r = sync_parent d path"
proof -
  consider (refused) "fs (path @ ''.tmp'') \<noteq> None \<or> \<not> create_ok d"
    | (broken) "fs (path @ ''.tmp'') = None" "create_ok d" "\<not> (write_all_ok d \<and> sync_ok d \<and> chown_ok d \<and> rename_ok d)"
    | (finished) "fs (path @ ''.tmp'') = None" "create_ok d" "write_all_ok d" "sync_ok d" "chown_ok d" "rename_ok d" by blast
  then show ?thesis
  proof cases
    case refused
    from save_refused [where fs = fs and path = path, OF this] show ?thesis using assms by (metis prod.inject)
  next
    case broken
    from save_broken_off [where fs = fs and path = path, OF this] show ?thesis using assms by (metis prod.inject)
  next
    case finished
    from save_done [where fs = fs and path = path, OF this] show ?thesis using assms by (metis prod.inject)
  qed
qed

text \<open>C27. A secret is saved as a whole or not at all: however the call ends (a loss of power apart), the file holds what it held before or all of the new
  secret, nothing but it and its temporary file has changed, and a save that succeeds has replaced it and left no temporary file.\<close>

theorem secret_save_atomic:
  assumes "secure_save_secret d euid path dat fs = (fs', r)"
  shows "(fs' path = fs path \<or> fs' path = Some (new_file euid (umask d) dat)) \<and>
    (\<forall>p. p \<noteq> path \<and> p \<noteq> path @ ''.tmp'' \<longrightarrow> fs' p = fs p) \<and>
    (r = Inr () \<longrightarrow> fs' path = Some (new_file euid (umask d) dat) \<and> fs' (path @ ''.tmp'') = None)"
  using saved_files [OF assms] by auto

lemma new_file_private: "st_mode (new_file euid um dat) AND 63 = 0"
proof -
  have "(0x8000 OR (0x180 AND NOT um)) AND 63 = (0x8000 AND 63) OR ((0x180 AND 63) AND NOT um)" for um :: u32
    by (simp add: bit.conj_disj_distrib2 ac_simps bit.conj_disj_distrib)
  moreover have "(0x8000 :: u32) AND 63 = 0" "(0x180 :: u32) AND 63 = 0" by simp_all
  ultimately show ?thesis by (simp only: new_file_def secret_file.simps and_zero_eq or.left_neutral zero_and_eq)
qed

text \<open>C28. A secret of at most 4096 bytes that was saved passes the checks of the loader and is read back as it was.\<close>

theorem secret_roundtrip:
  assumes "secure_save_secret d euid path dat fs = (fs', Inr ())" "length dat \<le> 4096"
  shows "secure_load_file euid (fs' path) = Inr dat"
proof -
  have "fs' path = Some (new_file euid (umask d) dat)" using saved_files [OF assms(1)] by auto
  then show ?thesis using assms(2) new_file_private [of euid "umask d" dat]
    by (simp add: secure_load_file_def) (simp add: new_file_def)
qed

text \<open>A save that fails after it has created its temporary file fails for good: the temporary file stays, and every later save
  of the same secret stops at it.\<close>

theorem failed_save_is_permanent:
  assumes "fs (path @ ''.tmp'') = None" "create_ok d" "\<not> (write_all_ok d \<and> sync_ok d \<and> chown_ok d \<and> rename_ok d)"
  shows "\<exists>fs' err. secure_save_secret d euid path dat fs = (fs', bail err) \<and>
    (\<forall>d' euid' dat'. secure_save_secret d' euid' path dat' fs' = (fs', bail (Anyhow ''Failed to create temporary key file'')))"
proof -
  obtain part err where "secure_save_secret d euid path dat fs = (fs(path @ ''.tmp'' \<mapsto> part), bail err)"
    using save_broken_off [where fs = fs and path = path, OF assms] by blast
  moreover have "secure_save_secret d' euid' path dat' (fs(path @ ''.tmp'' \<mapsto> part)) =
      (fs(path @ ''.tmp'' \<mapsto> part), bail (Anyhow ''Failed to create temporary key file''))" for d' euid' dat'
    by (rule save_refused) simp
  ultimately show ?thesis by blast
qed

section \<open>Archives\<close>

fun listing :: "string \<Rightarrow> (string \<times> node) list \<Rightarrow> archive" where
  "listing base [] = []"
| "listing base ((name, File dat) # entries) = (base @ name, dat) # listing base entries"
| "listing base ((name, Dir sub) # entries) = listing (base @ name @ ''/'') sub @ listing base entries"
| "listing base ((name, Special) # entries) = listing base entries"
| "listing base ((name, Unreadable) # entries) = listing base entries"

fun readable :: "(string \<times> node) list \<Rightarrow> bool" where
  "readable [] = True"
| "readable ((name, Dir sub) # entries) \<longleftrightarrow> readable sub \<and> readable entries"
| "readable ((name, Unreadable) # entries) \<longleftrightarrow> False"
| "readable (_ # entries) \<longleftrightarrow> readable entries"

lemma add_dir_listing: "readable entries \<Longrightarrow> add_dir_to_zip base entries arch = Inr (arch @ listing base entries)"
  by (induction base entries arch rule: add_dir_to_zip.induct) auto

text \<open>A path is a list of names; its text has a slash between them.\<close>

fun path_text :: "string list \<Rightarrow> string" where
  "path_text [] = []"
| "path_text [name] = name"
| "path_text (name # rest) = name @ ''/'' @ path_text rest"

fun file_at :: "(string \<times> node) list \<Rightarrow> string list \<Rightarrow> bytes option" where
  "file_at entries [] = None"
| "file_at entries [name] = (case map_of entries name of Some (File dat) \<Rightarrow> Some dat | _ \<Rightarrow> None)"
| "file_at entries (name # rest) = (case map_of entries name of Some (Dir sub) \<Rightarrow> file_at sub rest | _ \<Rightarrow> None)"

definition plain_name :: "string \<Rightarrow> bool" where
  "plain_name name \<longleftrightarrow> name \<noteq> [] \<and> CHR ''/'' \<notin> set name"

fun tree_ok :: "(string \<times> node) list \<Rightarrow> bool" where
  "tree_ok [] = True"
| "tree_ok ((name, Dir sub) # entries) \<longleftrightarrow> plain_name name \<and> name \<notin> fst ` set entries \<and> tree_ok sub \<and> tree_ok entries"
| "tree_ok ((name, _) # entries) \<longleftrightarrow> plain_name name \<and> name \<notin> fst ` set entries \<and> tree_ok entries"

lemma path_text_Cons: "rest \<noteq> [] \<Longrightarrow> path_text (name # rest) = name @ ''/'' @ path_text rest"
  by (cases rest) simp_all

lemma split_at_slash:
  assumes "CHR ''/'' \<notin> set xs" "CHR ''/'' \<notin> set ys" "xs @ CHR ''/'' # us = ys @ CHR ''/'' # vs"
  shows "xs = ys \<and> us = vs"
  using assms
proof (induction xs arbitrary: ys)
  case Nil
  then show ?case by (cases ys) auto
next
  case (Cons x xs)
  then show ?case by (cases ys) auto
qed

lemma path_text_starts:
  assumes "\<forall>x\<in>set p. plain_name x" "plain_name name" "path_text p = name @ CHR ''/'' # us"
  shows "\<exists>q. p = name # q \<and> q \<noteq> [] \<and> us = path_text q"
proof (cases p)
  case (Cons x q)
  show ?thesis
  proof (cases "q = []")
    case True
    then have "CHR ''/'' \<in> set x" using Cons assms(3) by simp
    then show ?thesis using Cons assms(1) by (simp add: plain_name_def)
  next
    case False
    have "x @ CHR ''/'' # path_text q = name @ CHR ''/'' # us" using path_text_Cons [OF False] Cons assms(3) by simp
    then have "x = name \<and> path_text q = us" using assms(1,2) Cons by (intro split_at_slash) (simp_all add: plain_name_def)
    then show ?thesis using Cons False by blast
  qed
qed (use assms(3) in simp)

lemma path_text_plain:
  assumes "\<forall>x\<in>set p. plain_name x" "plain_name name" "p \<noteq> []"
  shows "path_text p = name \<longleftrightarrow> p = [name]"
proof (cases p)
  case (Cons x q)
  then show ?thesis using assms(2) path_text_Cons [of q x] by (cases "q = []") (auto simp: plain_name_def)
qed (use assms(3) in simp)

lemma listing_keys: "(k, v) \<in> set (listing base entries) \<Longrightarrow> prefix base k"
proof (induction base entries rule: listing.induct)
  case (3 base name sub entries)
  then show ?case by (auto dest: append_prefixD)
qed auto

lemma file_at_absent: "name \<notin> fst ` set entries \<Longrightarrow> file_at entries (name # q) = None"
proof -
  assume "name \<notin> fst ` set entries"
  then have "map_of entries name = None" by (simp add: map_of_eq_None_iff)
  then show ?thesis by (cases q) simp_all
qed

lemma file_at_other: "x \<noteq> name \<Longrightarrow> file_at ((name, node) # entries) (x # q) = file_at entries (x # q)"
  by (cases q) simp_all

lemma listing_lookup:
  assumes "tree_ok entries" "\<forall>x\<in>set p. plain_name x" "p \<noteq> []"
  shows "map_of (listing base entries) (base @ path_text p) = file_at entries p"
  using assms
proof (induction base entries arbitrary: p rule: listing.induct)
  case (1 base)
  then obtain x q where "p = x # q" by (cases p) auto
  then show ?case using file_at_absent [of x "[]" q] by simp
next
  case (2 base name dat entries)
  then have name: "plain_name name" "name \<notin> fst ` set entries" and rest: "map_of (listing base entries) (base @ path_text p) = file_at entries p"
    by simp_all
  obtain x q where p: "p = x # q" using 2(4) by (cases p) auto
  show ?case
  proof (cases "p = [name]")
    case True
    then show ?thesis by simp
  next
    case False
    then have "path_text p \<noteq> name" using path_text_plain [OF 2(3) name(1) 2(4)] by simp
    then have "map_of (listing base ((name, File dat) # entries)) (base @ path_text p) = file_at entries p" using rest by simp
    also have "\<dots> = file_at ((name, File dat) # entries) p"
      using False p file_at_absent [OF name(2), of q] by (cases "x = name"; cases q) (simp_all add: file_at_other)
    finally show ?thesis .
  qed
next
  case (3 base name sub entries)
  then have name: "plain_name name" "name \<notin> fst ` set entries" "tree_ok sub"
    and rest: "map_of (listing base entries) (base @ path_text p) = file_at entries p" by simp_all
  let ?k = "base @ path_text p" and ?inner = "listing (base @ name @ ''/'') sub"
  have lookup: "map_of (listing base ((name, Dir sub) # entries)) ?k = (case map_of ?inner ?k of Some v \<Rightarrow> Some v | None \<Rightarrow> file_at entries p)"
    by (simp add: map_add_def rest split: option.split)
  obtain x q where p: "p = x # q" using 3(5) by (cases p) auto
  show ?case
  proof (cases "x = name \<and> q \<noteq> []")
    case True
    then have "?k = (base @ name @ ''/'') @ path_text q" using p path_text_Cons [of q x] by simp
    moreover have "map_of ?inner ((base @ name @ ''/'') @ path_text q) = file_at sub q"
      using 3(1) [OF name(3), of q] 3(4) p True by simp
    ultimately have inner: "map_of ?inner ?k = file_at sub q" by simp
    show ?thesis unfolding lookup inner using True p file_at_absent [OF name(2), of q] by (cases q) (auto split: option.split)
  next
    case False
    have "map_of ?inner ?k = None"
    proof (rule ccontr)
      assume "map_of ?inner ?k \<noteq> None"
      then obtain v where "(?k, v) \<in> set ?inner" by (auto dest: map_of_SomeD)
      from listing_keys [OF this] obtain us where "path_text p = name @ CHR ''/'' # us" by (auto simp: prefix_def)
      from path_text_starts [OF 3(4) name(1) this] False p show False by simp
    qed
    moreover have "file_at ((name, Dir sub) # entries) p = file_at entries p"
      using False p file_at_absent [OF name(2), of q] by (cases "x = name"; cases q) (simp_all add: file_at_other)
    ultimately show ?thesis unfolding lookup by simp
  qed
next
  case (4 base name entries)
  then have name: "name \<notin> fst ` set entries" and rest: "map_of (listing base entries) (base @ path_text p) = file_at entries p" by simp_all
  obtain x q where p: "p = x # q" using 4(4) by (cases p) auto
  have "file_at ((name, Special) # entries) p = file_at entries p"
    using p file_at_absent [OF name, of q] by (cases "x = name"; cases q) (simp_all add: file_at_other)
  then show ?case using rest by simp
next
  case (5 base name entries)
  then have name: "name \<notin> fst ` set entries" and rest: "map_of (listing base entries) (base @ path_text p) = file_at entries p" by simp_all
  obtain x q where p: "p = x # q" using 5(4) by (cases p) auto
  have "file_at ((name, Unreadable) # entries) p = file_at entries p"
    using p file_at_absent [OF name, of q] by (cases "x = name"; cases q) (simp_all add: file_at_other)
  then show ?case using rest by simp
qed

text \<open>C21. The archive of a directory that can be read holds every file under its path in the directory, and nothing else: looking a
  path up in the archive is looking it up in the directory.\<close>

theorem archive_is_directory:
  assumes "readable entries" "tree_ok entries"
  shows "\<exists>arch. add_dir_to_zip [] entries [] = Inr arch \<and>
    (\<forall>p. p \<noteq> [] \<and> (\<forall>x\<in>set p. plain_name x) \<longrightarrow> map_of arch (path_text p) = file_at entries p)"
  using add_dir_listing [OF assms(1), of "[]" "[]"] listing_lookup [OF assms(2), of _ "[]"] by auto

section \<open>Rotation\<close>

lemma sig_is_no_backup: "\<not> is_backup (sig_of name)"
proof
  assume "is_backup (sig_of name)"
  then obtain xs where "take (length name - 4) name @ ''.sig'' = xs @ ''.zip''" by (auto simp: is_backup_def sig_of_def suffix_def)
  then have "last (take (length name - 4) name @ ''.sig'') = last (xs @ ''.zip'')" by (rule arg_cong)
  then show False by simp
qed

lemma sig_of_zip: "sig_of (stem @ ''.zip'') = stem @ ''.sig''"
  by (simp add: sig_of_def)

lemma sig_of_inject: "is_backup a \<Longrightarrow> sig_of a = stem @ ''.sig'' \<Longrightarrow> a = stem @ ''.zip''"
  by (auto simp: is_backup_def sig_of_def suffix_def)

lemma al_delete_absent: "map_of xs k = None \<Longrightarrow> al_delete k xs = xs"
  unfolding al_delete_def filter_id_conv map_of_eq_None_iff by force

lemma remove_backups_all:
  assumes "\<forall>n. removable n"
  shows "remove_backups removable olds dir =
    (filter (\<lambda>(n, _). n \<notin> set olds \<and> n \<notin> sig_of ` set olds) dir, Inr ())"
proof (induction olds arbitrary: dir)
  case (Cons old olds)
  let ?dir = "al_delete (sig_of old) (al_delete old dir)"
  have "(if map_of (al_delete old dir) (sig_of old) \<noteq> None \<and> removable (sig_of old) then ?dir else al_delete old dir) = ?dir"
    using assms al_delete_absent [of "al_delete old dir" "sig_of old"] by (cases "map_of (al_delete old dir) (sig_of old)") simp_all
  then have "remove_backups removable (old # olds) dir = remove_backups removable olds ?dir"
    using assms by (simp only: remove_backups.simps Let_def) simp
  also have "\<dots> = (filter (\<lambda>(n, _). n \<notin> set olds \<and> n \<notin> sig_of ` set olds) ?dir, Inr ())" by (rule Cons.IH)
  also have "filter (\<lambda>(n, _). n \<notin> set olds \<and> n \<notin> sig_of ` set olds) ?dir =
      filter (\<lambda>(n, _). n \<notin> set (old # olds) \<and> n \<notin> sig_of ` set (old # olds)) dir"
    by (auto simp: al_delete_def intro: filter_cong)
  finally show ?case .
qed simp

definition newest_first :: "directory \<Rightarrow> directory" where
  "newest_first dir = rev (sort_key (\<lambda>(_, f). modified f) (filter (\<lambda>(name, _). is_backup name) dir))"

lemma newest_first_set: "set (newest_first dir) = {(n, f) \<in> set dir. is_backup n}"
  by (auto simp: newest_first_def)

lemma newest_first_sorted: "sorted_wrt (\<lambda>a b. modified (snd b) \<le> modified (snd a)) (newest_first dir)"
proof -
  have "sorted (map (\<lambda>(_, f). modified f) (sort_key (\<lambda>(_, f). modified f) (filter (\<lambda>(name, _). is_backup name) dir)))" by simp
  then show ?thesis unfolding newest_first_def sorted_wrt_rev sorted_map by (simp add: case_prod_beta sorted_wrt_map)
qed

lemma distinct_newest_first: "distinct (map fst dir) \<Longrightarrow> distinct (map fst (newest_first dir))"
proof -
  assume "distinct (map fst dir)"
  then have "distinct (map fst (filter (\<lambda>(name, _). is_backup name) dir))" by (rule distinct_map_filter)
  then show ?thesis
    by (simp add: newest_first_def rev_map [symmetric] distinct_map inj_on_def)
qed

lemma rotate_eq:
  assumes "\<forall>n. removable n"
  shows "rotate_backups removable keep dir =
    (filter (\<lambda>(n, _). n \<notin> fst ` set (drop keep (newest_first dir)) \<and> n \<notin> sig_of ` fst ` set (drop keep (newest_first dir))) dir, Inr ())"
  unfolding rotate_backups_def Let_def newest_first_def [symmetric] remove_backups_all [OF assms] by simp

lemma rotate_result:
  assumes "\<forall>n. removable n" "rotate_backups removable keep dir = (dir', r)"
  shows "r = Inr ()" "set dir' = {(n, f) \<in> set dir. n \<notin> fst ` set (drop keep (newest_first dir)) \<and> n \<notin> sig_of ` fst ` set (drop keep (newest_first dir))}"
proof -
  have filtered: "set (filter (\<lambda>(n, _). P n) dir) = {(n, f) \<in> set dir. P n}" for P by auto
  note eq = assms(2) [unfolded rotate_eq [OF assms(1)]]
  then show "r = Inr ()" by simp
  from eq have "dir' = filter (\<lambda>(n, _). n \<notin> fst ` set (drop keep (newest_first dir)) \<and> n \<notin> sig_of ` fst ` set (drop keep (newest_first dir))) dir" by (rule Pair_inject) (rule sym)
  then show "set dir' = {(n, f) \<in> set dir. n \<notin> fst ` set (drop keep (newest_first dir)) \<and> n \<notin> sig_of ` fst ` set (drop keep (newest_first dir))}"
    by (simp only: filtered)
qed

lemma select_by_name: "fst ` A \<inter> fst ` B = {} \<Longrightarrow> {(n, f) \<in> A \<union> B. n \<notin> fst ` B} = A"
  by force

lemma kept_backups:
  assumes "distinct (map fst dir)" "\<forall>n. removable n" "rotate_backups removable keep dir = (dir', r)"
  shows "{(n, f) \<in> set dir'. is_backup n} = set (take keep (newest_first dir))"
proof -
  let ?F = "newest_first dir"
  define gone where "gone = fst ` set (drop keep ?F)"
  have dir': "set dir' = {(n, f) \<in> set dir. n \<notin> gone \<and> n \<notin> sig_of ` gone}" unfolding gone_def by (rule rotate_result(2) [OF assms(2,3)])
  have "n \<notin> sig_of ` gone" if "is_backup n" for n using that sig_is_no_backup by blast
  then have "{(n, f) \<in> set dir'. is_backup n} = {(n, f) \<in> set ?F. n \<notin> gone}" unfolding dir' newest_first_set by blast
  also have "\<dots> = set (take keep ?F)"
  proof -
    have "distinct (map fst (take keep ?F @ drop keep ?F))" using distinct_newest_first [OF assms(1)] by simp
    then have disj: "fst ` set (take keep ?F) \<inter> fst ` set (drop keep ?F) = {}" by (simp only: map_append distinct_append set_map)
    have "set ?F = set (take keep ?F) \<union> set (drop keep ?F)" by (metis append_take_drop_id set_append)
    then show ?thesis unfolding gone_def using select_by_name [OF disj] by (simp only:)
  qed
  finally show ?thesis .
qed

text \<open>C29. The rotation keeps the newest backups, as many as it is told to, and no other: none of the backups it removes is newer than
  one it keeps.  With a backup goes its signature, and every other file stays.\<close>

theorem rotation_keeps_newest:
  assumes "distinct (map fst dir)" "\<forall>n. removable n" "rotate_backups removable keep dir = (dir', r)"
  shows "r = Inr () \<and> card {n. is_backup n \<and> n \<in> fst ` set dir'} = min keep (card {n. is_backup n \<and> n \<in> fst ` set dir}) \<and>
    (\<forall>n f m g. (n, f) \<in> set dir' \<and> is_backup n \<and> (m, g) \<in> set dir - set dir' \<and> is_backup m \<longrightarrow> modified g \<le> modified f) \<and>
    (\<forall>n f. (n, f) \<in> set dir \<and> \<not> is_backup n \<longrightarrow>
       ((n, f) \<in> set dir' \<longleftrightarrow> (\<forall>m g. (m, g) \<in> set dir - set dir' \<and> is_backup m \<longrightarrow> n \<noteq> sig_of m)))"
proof -
  let ?F = "newest_first dir"
  note kept = kept_backups [OF assms]
  note distinct = distinct_newest_first [OF assms(1)]
  note r = rotate_result(1) [OF assms(2,3)] and dir' = rotate_result(2) [OF assms(2,3)]
  have names: "{n. is_backup n \<and> n \<in> fst ` set d} = fst ` {(n, f) \<in> set d. is_backup n}" for d :: directory by force
  have "distinct (map fst (take keep ?F))" using distinct by (metis distinct_take take_map)
  from distinct_card [OF this] have "card {n. is_backup n \<and> n \<in> fst ` set dir'} = length (take keep ?F)" unfolding names kept by simp
  moreover have "card {n. is_backup n \<and> n \<in> fst ` set dir} = length ?F"
    unfolding names newest_first_set [symmetric] using distinct_card [OF distinct] by simp
  ultimately have count: "card {n. is_backup n \<and> n \<in> fst ` set dir'} = min keep (card {n. is_backup n \<and> n \<in> fst ` set dir})" by simp
  have removed: "{(n, f) \<in> set dir - set dir'. is_backup n} = set (drop keep ?F)"
  proof -
    have "set ?F = set (take keep ?F) \<union> set (drop keep ?F)" by (metis append_take_drop_id set_append)
    moreover have "set (take keep ?F) \<inter> set (drop keep ?F) = {}"
      using distinct by (intro set_take_disj_set_drop_if_distinct) (simp_all add: distinct_map)
    moreover have "{(n, f) \<in> set dir - set dir'. is_backup n} = {(n, f) \<in> set dir. is_backup n} - {(n, f) \<in> set dir'. is_backup n}" by blast
    ultimately show ?thesis unfolding kept newest_first_set [symmetric] by blast
  qed
  have order: "modified (snd b) \<le> modified (snd a)" if "a \<in> set (take keep ?F)" "b \<in> set (drop keep ?F)" for a b
  proof -
    have "sorted_wrt (\<lambda>a b. modified (snd b) \<le> modified (snd a)) (take keep ?F @ drop keep ?F)" using newest_first_sorted [of dir] by simp
    then show ?thesis unfolding sorted_wrt_append using that by blast
  qed
  have "modified g \<le> modified f" if "(n, f) \<in> set dir' \<and> is_backup n \<and> (m, g) \<in> set dir - set dir' \<and> is_backup m" for n f m g
  proof -
    have "(n, f) \<in> set (take keep ?F)" "(m, g) \<in> set (drop keep ?F)" unfolding kept [symmetric] removed [symmetric] using that by blast+
    from order [OF this] show ?thesis by simp
  qed
  moreover have "(n, f) \<in> set dir' \<longleftrightarrow> (\<forall>m g. (m, g) \<in> set dir - set dir' \<and> is_backup m \<longrightarrow> n \<noteq> sig_of m)"
    if "(n, f) \<in> set dir \<and> \<not> is_backup n" for n f
  proof -
    have gone: "m \<in> fst ` set (drop keep ?F) \<longleftrightarrow> (\<exists>g. (m, g) \<in> set dir - set dir' \<and> is_backup m)" for m
      unfolding removed [symmetric] by (auto simp: image_iff)
    then have "n \<notin> fst ` set (drop keep ?F)" using that by blast
    then have "(n, f) \<in> set dir' \<longleftrightarrow> n \<notin> sig_of ` fst ` set (drop keep ?F)" using that unfolding dir' by blast
    also have "\<dots> \<longleftrightarrow> (\<forall>m. m \<in> fst ` set (drop keep ?F) \<longrightarrow> n \<noteq> sig_of m)" by blast
    finally show ?thesis unfolding gone by blast
  qed
  ultimately show ?thesis using r count by (intro conjI allI impI)
qed

section \<open>Backups\<close>

text \<open>The periodic task makes no backup: it waits for the lock that it holds, and everything that needs the lock waits with it.\<close>

theorem periodic_backup_never_runs:
  "snd (backup_round be s) = Inl Blocked \<and> backup_dir (fst (backup_round be s)) = backup_dir s \<and> maintenance_lock (fst (backup_round be s))"
  by (simp add: backup_round_def secure_backup_db_def)

definition published :: "string \<Rightarrow> bytes \<Rightarrow> bytes \<Rightarrow> nat \<Rightarrow> directory \<Rightarrow> directory" where
  "published stem dat sig now dir =
     filter (\<lambda>x. fst x \<notin> {stem @ ''.zip.tmp'', stem @ ''.sig.tmp'', stem @ ''.zip'', stem @ ''.sig''}) dir @
     [(stem @ ''.zip'', \<lparr>file_data = dat, modified = now\<rparr>), (stem @ ''.sig'', \<lparr>file_data = sig, modified = now\<rparr>)]"

lemma al_delete_append: "al_delete k (xs @ ys) = al_delete k xs @ al_delete k ys"
  by (simp add: al_delete_def)

lemma rename_stored:
  assumes "map_of dir old = Some f"
  shows "rename_file old new dir = al_delete new (al_delete old dir) @ [(new, f)]"
  using assms by (simp add: rename_file_def al_insert_def)

lemma publish_steps:
  "rename_file (stem @ ''.sig.tmp'') (stem @ ''.sig'')
     (rename_file (stem @ ''.zip.tmp'') (stem @ ''.zip'')
       (store_file (stem @ ''.sig.tmp'') sig now (store_file (stem @ ''.zip.tmp'') dat now (store_file (stem @ ''.zip.tmp'') [] now dir)))) =
   published stem dat sig now dir"
proof -
  define D where "D = al_delete (stem @ ''.zip'') (al_delete (stem @ ''.sig.tmp'') (al_delete (stem @ ''.zip.tmp'') dir))"
  let ?zip = "\<lparr>file_data = dat, modified = now\<rparr>" and ?sig = "\<lparr>file_data = sig, modified = now\<rparr>"
  let ?d1 = "al_delete (stem @ ''.sig.tmp'') (al_delete (stem @ ''.zip.tmp'') dir) @ [(stem @ ''.zip.tmp'', ?zip), (stem @ ''.sig.tmp'', ?sig)]"
  have "store_file (stem @ ''.sig.tmp'') sig now (store_file (stem @ ''.zip.tmp'') dat now (store_file (stem @ ''.zip.tmp'') [] now dir)) = ?d1"
    by (simp add: store_file_def al_insert_def al_delete_append) (simp add: al_delete_def)
  moreover have "map_of ?d1 (stem @ ''.zip.tmp'') = Some ?zip"
    by (simp add: map_of_al_delete map_add_def)
  ultimately have "rename_file (stem @ ''.zip.tmp'') (stem @ ''.zip'')
      (store_file (stem @ ''.sig.tmp'') sig now (store_file (stem @ ''.zip.tmp'') dat now (store_file (stem @ ''.zip.tmp'') [] now dir))) =
    al_delete (stem @ ''.zip'') (al_delete (stem @ ''.zip.tmp'') ?d1) @ [(stem @ ''.zip'', ?zip)]"
    by (simp only: rename_stored)
  also have "\<dots> = D @ [(stem @ ''.sig.tmp'', ?sig), (stem @ ''.zip'', ?zip)]"
    unfolding D_def by (simp add: al_delete_append) (simp add: al_delete_def conj_commute)
  finally have step: "rename_file (stem @ ''.zip.tmp'') (stem @ ''.zip'')
      (store_file (stem @ ''.sig.tmp'') sig now (store_file (stem @ ''.zip.tmp'') dat now (store_file (stem @ ''.zip.tmp'') [] now dir))) =
    D @ [(stem @ ''.sig.tmp'', ?sig), (stem @ ''.zip'', ?zip)]" .
  have "map_of (D @ [(stem @ ''.sig.tmp'', ?sig), (stem @ ''.zip'', ?zip)]) (stem @ ''.sig.tmp'') = Some ?sig"
    unfolding D_def by (simp add: map_of_al_delete map_add_def)
  then show ?thesis unfolding step published_def
    by (simp only: rename_stored) (simp add: D_def al_delete_def conj_ac case_prod_beta)
qed

lemma sort_key_last:
  assumes "\<forall>y\<in>set xs. key y \<le> key x"
  shows "sort_key key (xs @ [x]) = sort_key key xs @ [x]"
  using assms
proof (induction xs)
  case (Cons y ys)
  have "insort_key key y (zs @ [x]) = insort_key key y zs @ [x]" if "key y \<le> key x" for zs using that by (induction zs) simp_all
  with Cons show ?case by simp
qed simp

lemma is_backup_zip: "is_backup (name @ ''_checkpoint_'' @ number @ ''.zip'')"
proof -
  have "suffix ''.zip'' (name @ ''_checkpoint_'' @ number @ ''.zip'')" by (simp add: suffix_def)
  moreover have "sublist ''_checkpoint_'' (name @ ''_checkpoint_'' @ number @ ''.zip'')" by (rule sublist_appendI)
  ultimately show ?thesis by (simp only: is_backup_def simp_thms)
qed

lemma published_newest:
  assumes "is_backup (stem @ ''.zip'')" "\<forall>(n, f)\<in>set dir. is_backup n \<longrightarrow> modified f \<le> now"
  shows "\<exists>older. newest_first (published stem dat sig now dir) = (stem @ ''.zip'', \<lparr>file_data = dat, modified = now\<rparr>) # older"
proof -
  define D where "D = filter (\<lambda>(n, _). is_backup n) (filter (\<lambda>x. fst x \<notin> {stem @ ''.zip.tmp'', stem @ ''.sig.tmp'', stem @ ''.zip'', stem @ ''.sig''}) dir)"
  have "\<not> is_backup (stem @ ''.sig'')" using sig_is_no_backup [of "stem @ ''.zip''"] by (simp add: sig_of_zip)
  then have "filter (\<lambda>(n, _). is_backup n) (published stem dat sig now dir) = D @ [(stem @ ''.zip'', \<lparr>file_data = dat, modified = now\<rparr>)]"
    using assms(1) by (simp add: published_def D_def)
  moreover have "\<forall>y\<in>set D. (case y of (_, f) \<Rightarrow> modified f) \<le> (case (stem @ ''.zip'', \<lparr>file_data = dat, modified = now\<rparr>) of (_, f) \<Rightarrow> modified f)"
    using assms(2) by (auto simp: D_def)
  note sort_key_last [OF this]
  ultimately show ?thesis by (simp add: newest_first_def)
qed

lemma publish_kept:
  assumes "distinct (map fst dir)" "\<forall>n. removable n" "\<forall>(n, f)\<in>set dir. is_backup n \<longrightarrow> modified f \<le> now" "is_backup (stem @ ''.zip'')"
    "rotate_backups removable 3 (published stem dat sig now dir) = (dir', r)"
  shows "map_of dir' (stem @ ''.zip'') = Some \<lparr>file_data = dat, modified = now\<rparr>"
    "map_of dir' (stem @ ''.sig'') = Some \<lparr>file_data = sig, modified = now\<rparr>"
    "map_of dir' (stem @ ''.zip.tmp'') = None" "map_of dir' (stem @ ''.sig.tmp'') = None"
proof -
  let ?P = "published stem dat sig now dir"
  let ?zip = "(stem @ ''.zip'', \<lparr>file_data = dat, modified = now\<rparr>)" and ?sig = "(stem @ ''.sig'', \<lparr>file_data = sig, modified = now\<rparr>)"
  have distinct: "distinct (map fst ?P)"
    using distinct_map_filter [OF assms(1)] by (auto simp: published_def)
  obtain older where older: "newest_first ?P = ?zip # older" using published_newest [OF assms(4,3)] by blast
  have names: "fst ?zip \<notin> fst ` set (drop 3 (newest_first ?P))"
  proof -
    have "fst ?zip \<notin> fst ` set older" using distinct_newest_first [OF distinct] older by simp
    moreover have "set (drop 3 (newest_first ?P)) \<subseteq> set older" using older set_drop_subset [of 2 older] by simp
    ultimately show ?thesis by blast
  qed
  have backups: "is_backup n" if "n \<in> fst ` set (drop 3 (newest_first ?P))" for n
    using that set_drop_subset [of 3 "newest_first ?P"] newest_first_set [of ?P] by fastforce
  have no_sig: "stem @ ''.sig'' \<notin> fst ` set (drop 3 (newest_first ?P))" using backups sig_is_no_backup [of "stem @ ''.zip''"] by (auto simp: sig_of_zip)
  have "stem @ ''.sig'' \<notin> sig_of ` fst ` set (drop 3 (newest_first ?P))"
  proof
    assume "stem @ ''.sig'' \<in> sig_of ` fst ` set (drop 3 (newest_first ?P))"
    then obtain m where m: "m \<in> fst ` set (drop 3 (newest_first ?P))" "stem @ ''.sig'' = sig_of m" by blast
    from sig_of_inject [OF backups [OF m(1)] m(2) [symmetric]] m(1) names show False by simp
  qed
  moreover have "stem @ ''.zip'' \<notin> sig_of ` fst ` set (drop 3 (newest_first ?P))" using assms(4) sig_is_no_backup by (metis imageE)
  moreover have "?zip \<in> set ?P" "?sig \<in> set ?P" by (simp_all add: published_def)
  ultimately have "?zip \<in> set dir'" "?sig \<in> set dir'" unfolding rotate_result(2) [OF assms(2,5)] using names no_sig by simp_all
  moreover have "distinct (map fst dir')"
    using assms(5) unfolding rotate_eq [OF assms(2)] by (rule Pair_inject) (use distinct_map_filter [OF distinct] in blast)
  ultimately show "map_of dir' (stem @ ''.zip'') = Some \<lparr>file_data = dat, modified = now\<rparr>"
    "map_of dir' (stem @ ''.sig'') = Some \<lparr>file_data = sig, modified = now\<rparr>" by (simp_all add: map_of_is_SomeI)
  have "set dir' \<subseteq> set ?P" unfolding rotate_result(2) [OF assms(2,5)] by blast
  then have "stem @ ''.zip.tmp'' \<notin> fst ` set dir'" "stem @ ''.sig.tmp'' \<notin> fst ` set dir'" by (auto simp: published_def)
  then show "map_of dir' (stem @ ''.zip.tmp'') = None" "map_of dir' (stem @ ''.sig.tmp'') = None" by (simp_all add: map_of_eq_None_iff)
qed

lemma io_Inr: "io be k = Inr u \<longleftrightarrow> io_ok be k"
  by (simp add: io_def bail_if_eq_Inr)

lemma sbind_pair_Inr: "sbind (s, r) k = (s', Inr y) \<longleftrightarrow> (\<exists>x. r = Inr x \<and> k x s = (s', Inr y))"
  by (cases r) simp_all

lemma write_backup_Inr:
  assumes "write_backup be name tree dir = (dir', Inr ())"
  shows "\<exists>now arch key. backup_ms be = Some now \<and> add_dir_to_zip [] tree [] = Inr arch \<and>
    load_keypair (parse_key be) (process_uid be) (key_file be) = Inr key \<and>
    rotate_backups (can_remove be) 3 (published (name @ ''_checkpoint_'' @ decimal now) (zip_bytes be arch)
      (sign_backup be key (zip_bytes be arch)) now dir) = (dir', Inr ())"
  using assms unfolding write_backup_def sign_and_publish_def Let_def sbind_pair_Inr publish_steps or_err_eq_Inr by blast

text \<open>C20. A backup that succeeds is there, whole and signed: under the name of the database and the time it leaves the archive of the
  database and the signature of exactly that archive under the configured key, and no temporary file.  The rotation that follows
  spares it, provided that the backups already there are older.\<close>

theorem backup_is_complete:
  assumes "backup_now be s = (s', Inr ())" "distinct (map fst (backup_dir s))" "\<forall>n. can_remove be n" "backup_ms be = Some now"
    "\<forall>(n, f)\<in>set (backup_dir s). is_backup n \<longrightarrow> modified f < now"
  shows "\<exists>arch key. let stem = db_name s @ ''_checkpoint_'' @ decimal now; dat = zip_bytes be arch in
    add_dir_to_zip [] (db_tree s) [] = Inr arch \<and> load_keypair (parse_key be) (process_uid be) (key_file be) = Inr key \<and>
    map_of (backup_dir s') (stem @ ''.zip'') = Some \<lparr>file_data = dat, modified = now\<rparr> \<and>
    map_of (backup_dir s') (stem @ ''.sig'') = Some \<lparr>file_data = sign_backup be key dat, modified = now\<rparr> \<and>
    map_of (backup_dir s') (stem @ ''.zip.tmp'') = None \<and> map_of (backup_dir s') (stem @ ''.sig.tmp'') = None"
proof -
  obtain dir' where run: "write_backup be (db_name s) (db_tree s) (backup_dir s) = (dir', Inr ())" and s': "backup_dir s' = dir'"
    using assms(1) by (auto simp: backup_now_def secure_backup_db_def split: if_splits prod.splits)
  obtain arch key where backup: "add_dir_to_zip [] (db_tree s) [] = Inr arch" "load_keypair (parse_key be) (process_uid be) (key_file be) = Inr key"
    "rotate_backups (can_remove be) 3 (published (db_name s @ ''_checkpoint_'' @ decimal now) (zip_bytes be arch)
      (sign_backup be key (zip_bytes be arch)) now (backup_dir s)) = (dir', Inr ())"
    using write_backup_Inr [OF run] assms(4) by auto
  have "is_backup ((db_name s @ ''_checkpoint_'' @ decimal now) @ ''.zip'')" using is_backup_zip by simp
  moreover have "\<forall>(n, f)\<in>set (backup_dir s). is_backup n \<longrightarrow> modified f \<le> now" using assms(5) by fastforce
  ultimately have kept: "map_of dir' ((db_name s @ ''_checkpoint_'' @ decimal now) @ ''.zip'') = Some \<lparr>file_data = zip_bytes be arch, modified = now\<rparr>"
    "map_of dir' ((db_name s @ ''_checkpoint_'' @ decimal now) @ ''.sig'') = Some \<lparr>file_data = sign_backup be key (zip_bytes be arch), modified = now\<rparr>"
    "map_of dir' ((db_name s @ ''_checkpoint_'' @ decimal now) @ ''.zip.tmp'') = None" "map_of dir' ((db_name s @ ''_checkpoint_'' @ decimal now) @ ''.sig.tmp'') = None"
    using publish_kept [OF assms(2,3) _ _ backup(3)] by blast+
  show ?thesis
    by (intro exI [of _ arch] exI [of _ key]) (simp only: Let_def s' backup(1,2) kept simp_thms)
qed

section \<open>Witnesses\<close>

definition good_disk :: disk where
  "good_disk = \<lparr>create_ok = True, write_all_ok = True, landed = 0, sync_ok = True, chown_ok = True, rename_ok = True, umask = 0, open_dir_ok = (\<lambda>_. True)\<rparr>"

lemma parent_key: "parent ''/k'' = Some ''/''"
  by (simp add: parent_def)

lemma demo_saved: "secure_save_secret good_disk 7 ''/k'' [1, 2] Map.empty = ([''/k'' \<mapsto> new_file 7 0 [1, 2]], Inr ())"
  by (simp add: secure_save_secret_def good_disk_def sync_parent_def parent_key fun_eq_iff)

theorem secret_save_atomic_witness:
  "fst (secure_save_secret good_disk 7 ''/k'' [1, 2] Map.empty) ''/k'' = Some (new_file 7 0 [1, 2])"
proof -
  have "umask good_disk = 0" by (simp add: good_disk_def)
  with secret_save_atomic [OF demo_saved] show ?thesis by (simp add: demo_saved)
qed

theorem secret_roundtrip_witness:
  "secure_load_file 7 (fst (secure_save_secret good_disk 7 ''/k'' [1, 2] Map.empty) ''/k'') = Inr [1, 2]"
  using secret_roundtrip [OF demo_saved] by (simp add: demo_saved)

theorem failed_save_is_permanent_witness:
  "\<exists>fs' err. secure_save_secret (good_disk\<lparr>sync_ok := False\<rparr>) 7 ''/k'' [1] Map.empty = (fs', bail err) \<and>
     secure_save_secret good_disk 7 ''/k'' [1] fs' = (fs', bail (Anyhow ''Failed to create temporary key file''))"
  using failed_save_is_permanent [of Map.empty "''/k''" "good_disk\<lparr>sync_ok := False\<rparr>" 7 "[1]"] by (auto simp: good_disk_def)

definition demo_tree :: "(string \<times> node) list" where
  "demo_tree = [(''CURRENT'', File [1]), (''logs'', Dir [(''a'', File [2]), (''b'', File [])])]"

theorem archive_is_directory_witness:
  "\<exists>arch. add_dir_to_zip [] demo_tree [] = Inr arch \<and> map_of arch ''logs/a'' = Some [2]"
proof -
  have "readable demo_tree" "tree_ok demo_tree" by (simp_all add: demo_tree_def plain_name_def)
  from archive_is_directory [OF this] obtain arch where arch: "add_dir_to_zip [] demo_tree [] = Inr arch"
    "\<forall>p. p \<noteq> [] \<and> (\<forall>x\<in>set p. plain_name x) \<longrightarrow> map_of arch (path_text p) = file_at demo_tree p" by blast
  from arch(2) [rule_format, of "[''logs'', ''a'']"] have "map_of arch ''logs/a'' = Some [2]" by (simp add: plain_name_def demo_tree_def)
  with arch(1) show ?thesis by blast
qed

definition demo_backups :: directory where
  "demo_backups = [(''db_checkpoint_1.zip'', \<lparr>file_data = [], modified = 1\<rparr>), (''db_checkpoint_1.sig'', \<lparr>file_data = [], modified = 1\<rparr>),
     (''db_checkpoint_2.zip'', \<lparr>file_data = [], modified = 2\<rparr>), (''CURRENT'', \<lparr>file_data = [], modified = 0\<rparr>)]"

theorem rotation_keeps_newest_witness:
  "\<exists>dir'. rotate_backups (\<lambda>_. True) 1 demo_backups = (dir', Inr ()) \<and> card {n. is_backup n \<and> n \<in> fst ` set dir'} \<le> 1"
proof -
  obtain dir' r where run: "rotate_backups (\<lambda>_. True) 1 demo_backups = (dir', r)" by fastforce
  have "distinct (map fst demo_backups)" by (simp add: demo_backups_def)
  from rotation_keeps_newest [OF this _ run] run show ?thesis by auto
qed

definition demo_backup_env :: backup_env where
  "demo_backup_env = \<lparr>pool_ready = True, backup_ms = Some 5, io_ok = (\<lambda>_. True), can_remove = (\<lambda>_. True), zip_bytes = concat \<circ> map snd,
     parse_key = Some, sign_backup = (\<lambda>key dat. key), process_uid = 7,
     key_file = Some \<lparr>st_uid = 7, st_mode = 0x8180, st_size = 32, contents = replicate 32 5\<rparr>\<rparr>"

definition demo_site :: site where
  "demo_site = \<lparr>maintenance_lock = False, db_name = ''db'', db_tree = demo_tree, backup_dir = []\<rparr>"

lemma demo_backup_runs: "\<exists>s'. backup_now demo_backup_env demo_site = (s', Inr ())"
proof -
  have "readable demo_tree" by (simp add: demo_tree_def)
  then have "add_dir_to_zip [] demo_tree [] = Inr (listing [] demo_tree)" using add_dir_listing [of demo_tree "[]" "[]"] by simp
  moreover have "snd (rotate_backups (\<lambda>_. True) 3 dir) = Inr ()" for dir using rotate_eq [of "\<lambda>_. True" 3 dir] by simp
  ultimately have "snd (backup_now demo_backup_env demo_site) = Inr ()"
    by (simp add: backup_now_def secure_backup_db_def write_backup_def sign_and_publish_def demo_backup_env_def demo_site_def io_def
      load_keypair_def secure_load_file_def Let_def case_prod_beta)
  then show ?thesis by (metis prod.collapse)
qed

theorem backup_is_complete_witness:
  "\<exists>s' f g. backup_now demo_backup_env demo_site = (s', Inr ()) \<and> map_of (backup_dir s') ''db_checkpoint_5.zip'' = Some f \<and>
     map_of (backup_dir s') ''db_checkpoint_5.sig'' = Some g"
proof -
  obtain s' where run: "backup_now demo_backup_env demo_site = (s', Inr ())" using demo_backup_runs by blast
  have "decimal 5 = ''5''" by code_simp
  moreover have "distinct (map fst (backup_dir demo_site))" "\<forall>n. can_remove demo_backup_env n" "backup_ms demo_backup_env = Some 5"
    "\<forall>(n, f)\<in>set (backup_dir demo_site). is_backup n \<longrightarrow> modified f < 5" "db_name demo_site = ''db''"
    by (simp_all add: demo_site_def demo_backup_env_def)
  moreover note backup_is_complete [OF run calculation(2-5)]
  ultimately show ?thesis using run by (auto simp: Let_def)
qed

end
