(* ===== verification/Spec2Isabelle.thy ===== *)
theory Spec2Isabelle
  imports Wallet_App Miner Backup
begin

text \<open>
  A model of the Lyrion node (\<^verbatim>\<open>src/111/src\<close>) and the theorems that say what it does.

  \<^bold>\<open>Parts and theories.\<close>  The node keeps a chain of blocks in RocksDB, an index of it in memory and a
  pool of transactions that wait for a block.

  \<^item> \<open>Lyrion_Prelude\<close>: machine words, byte codecs (the locale \<open>byte_codec\<close> for the fixed-width
    integers), the result monad \<open>rbind\<close> and its stateful version \<open>sbind\<close>, checked arithmetic.
  \<^item> \<open>Errors\<close> (\<^verbatim>\<open>errors.rs\<close>): \<^verbatim>\<open>ChainError\<close> as \<open>chain_error\<close>.  A fault of a call is
    an error, a panic, or \<open>Blocked\<close>: the call never returns, because it waits for a lock it holds or
    loops for ever.
  \<^item> \<open>Utils\<close> (\<^verbatim>\<open>utils.rs\<close>): constants, hashes, the RandomX engine pool, compact targets and the
    subsidy.  \<open>Keys\<close>: addresses and secret files.
  \<^item> \<open>Store\<close> (\<^verbatim>\<open>db.rs\<close>): RocksDB as sorted tables per column family, with gets, puts, deletes,
    prefix scans and write batches; the locale \<open>kv_store\<close> holds the laws the other parts use, and
    \<open>manager_create\<close> is the opening of the database.
  \<^item> \<open>Tx_Types\<close> and \<open>Tx\<close> (\<^verbatim>\<open>tx.rs\<close>): transactions, blocks, hashes, merkle roots, scripts,
    validation, coinbase and genesis.
  \<^item> \<open>Utxo\<close> (\<^verbatim>\<open>chain.rs\<close>): the writes of a block to the unspent outputs, the rolling set hash
    and supply; the locale \<open>table_measure\<close> serves both.
  \<^item> \<open>Chain_Db\<close> (\<^verbatim>\<open>chain.rs\<close>): blocks and headers by height, median time, difficulty, supply
    audits, \<^verbatim>\<open>validate_block\<close>.
  \<^item> \<open>Mempool\<close> (\<^verbatim>\<open>mempool.rs\<close>): admission, removal with descendants, eviction, selection,
    expiry.
  \<^item> \<open>Chain\<close> (\<^verbatim>\<open>chain.rs\<close>): the chain object with its journal, \<^verbatim>\<open>apply_block_action\<close>,
    \<^verbatim>\<open>add_block\<close>, orphans, \<^verbatim>\<open>new\<close> and \<^verbatim>\<open>load_from_db\<close>.
  \<^item> \<open>Config\<close> (\<^verbatim>\<open>config.rs\<close>): loading and checking of the configuration.
  \<^item> \<open>Net\<close> (\<^verbatim>\<open>net.rs\<close>): the peer manager with its limits, handshake, frames, message
    handlers, penalties and bans; the locks of chain, pool and peer table are part of the state, and
    \<open>net_reach\<close> are the states that connections and announcements lead to.
  \<^item> \<open>Queries\<close> (\<^verbatim>\<open>main.rs\<close>): the address index and the commands that read the database.
  \<^item> \<open>Rpc\<close> (\<^verbatim>\<open>main.rs\<close>): tokens and the request handlers of the server.
  \<^item> \<open>Wallet\<close> (\<^verbatim>\<open>main.rs\<close>): scan, balance, history, key search and payments.
  \<^item> \<open>Wallet_App\<close> (\<^verbatim>\<open>main.rs\<close>): the window of the desktop wallet.  A call of \<^verbatim>\<open>update\<close> takes a
    \<open>frame\<close>, what the user clicked and typed and what the background tasks delivered; \<open>app_reach\<close> are the
    states that frames and saves lead to.
  \<^item> \<open>Miner\<close> (\<^verbatim>\<open>miner.rs\<close>): the template, the nonce search, the submission of a block and the loop of the
    task, on the state of \<open>Net\<close> with its locks.
  \<^item> \<open>Backup\<close> (\<^verbatim>\<open>utils.rs\<close>, \<^verbatim>\<open>db.rs\<close>, \<^verbatim>\<open>main.rs\<close>): saving of secret files, and backups with archive,
    signature and rotation.  What the operating system may refuse is a field of \<open>disk\<close> and
    \<open>backup_env\<close>; a loss of power is not among it.

  \<^bold>\<open>Reading of the source.\<close>  Words have the width of the source and wrap as in a release build; sizes,
  big integers and clocks are natural numbers.  Hash maps and sets are lists, iterated in list order.
  Third-party code (hashes, signatures, curves, bincode, base58) is a field of the records \<open>crypto\<close>,
  \<open>codec\<close> and \<open>env\<close>, with the laws \<open>crypto_ok\<close>, \<open>bincode_ok\<close>,
  \<open>base58_ok\<close> and \<open>pedersen_ok\<close> as hypotheses; \<open>demo_env\<close> and \<open>easy_env\<close> are instances that
  satisfy them.  Functions that the source calls and does not define are fields of \<open>externals\<close>.  An
  error raised in a function without an error type is an error of the model; names that a function uses
  and does not bind are those of its caller.  A connection of the pool is always obtained and
  serialisation always succeeds.  Caches memoise pure functions and are left out, except for the
  transaction hash cache.

  \<^bold>\<open>What is shown.\<close>  The exact acceptance condition of transparent transactions and what an accepted
  block satisfies; that connecting a block refines an abstract ledger on all transactions but coinbases and,
  for blocks without clashes, keeps set hash and supply in step; that a rollback restores what a block wrote
  outside the default column family and that a reorganisation takes effect as a whole or not at all; when a
  block becomes the tip and that it does; round trips of targets, addresses, stored blocks, network frames,
  wallet files and secret files; which outputs, fee and change a payment has; what a backup and its rotation
  leave on the disk; that a nonce that is found meets the target; bounds of difficulty, supply, orphans and the threads of the miner.
  Several theorems record behaviour that the code does not mean to have: locks taken twice, column
  families that are never opened, audits that cannot pass, checks that are never made.

  \<^bold>\<open>Bounds.\<close>  All loops but three are total functions: the merkle loop by the length of its list,
  dependency walks by the depth limits of the code, the orphan rounds by the limit of 500, the fee rounds of a
  payment by the 20 rounds of the code.  The eviction loop of the pool, the nonce search of the miner and the
  wallet's scan of a chain of addresses may not end and are partial functions; when the nonce search ends, and
  that the scan does, are theorems of \<open>Miner\<close> and \<open>Wallet\<close>.

  \<^bold>\<open>Not modelled.\<close>  Parsing of arguments, printing, the wallet and key commands of the command line, the
  clean-up task and the shutdown of the node, and the clients of the RPC server; TLS, sockets, the servers for
  metrics and health, logging and drawing, which only call libraries; the allocation of RandomX and of huge
  pages and the reading of the clock, which are calls of the operating system; the options and the recycling
  check of the connection pool; \<^verbatim>\<open>send_transaction_task\<close> and the \<^verbatim>\<open>build_block_ops\<close> of crash recovery, which the
  sources call and do not define; the tests.
\<close>

end
